(* ===== verification/Prelude.thy ===== *)
theory Prelude
  imports Main "HOL-Library.Word"
begin

text \<open>
  Shared foundations of the kernel development: the machine-integer types, the
  outcome monad in which every kernel routine is written, the frame calculus for it,
  and little-endian access to a byte-addressed memory.
\<close>

unbundle bit_operations_syntax

section \<open>Types\<close>

type_synonym u8 = "8 word"
type_synonym u16 = "16 word"
type_synonym u32 = "32 word"
type_synonym u64 = "64 word"
type_synonym addr = "32 word"
type_synonym memory = "addr \<Rightarrow> u8"

named_theorems kern_simps "evaluation rules of the outcome monad"
named_theorems keeps_intros "frame rules: which observations a routine leaves alone"

section \<open>Outcomes of kernel code\<close>

text \<open>
  A routine either returns a value, or calls \<open>panic\<close> (which never returns), or loops
  forever, or reaches behaviour that C leaves undefined (an access outside an array).
\<close>

datatype ('a, 's) outcome =
    Ret 'a 's
  | Panic string 's
  | Hang
  | Fault

type_synonym ('a, 's) kern = "'s \<Rightarrow> ('a, 's) outcome"

definition retK :: "'a \<Rightarrow> ('a, 's) kern" where
  "retK x = (\<lambda>s. Ret x s)"

definition bindK :: "('a, 's) kern \<Rightarrow> ('a \<Rightarrow> ('b, 's) kern) \<Rightarrow> ('b, 's) kern" where
  "bindK m f = (\<lambda>s. case m s of
       Ret x t \<Rightarrow> f x t | Panic e t \<Rightarrow> Panic e t | Hang \<Rightarrow> Hang | Fault \<Rightarrow> Fault)"

definition thenK :: "('a, 's) kern \<Rightarrow> ('b, 's) kern \<Rightarrow> ('b, 's) kern" where
  "thenK m n = bindK m (\<lambda>_. n)"

definition getK :: "('s \<Rightarrow> 'a) \<Rightarrow> ('a, 's) kern" where
  "getK f = (\<lambda>s. Ret (f s) s)"

definition modK :: "('s \<Rightarrow> 's) \<Rightarrow> (unit, 's) kern" where
  "modK f = (\<lambda>s. Ret () (f s))"

definition panicK :: "string \<Rightarrow> ('a, 's) kern" where
  "panicK e = (\<lambda>s. Panic e s)"

definition hangK :: "('a, 's) kern" where
  "hangK = (\<lambda>s. Hang)"

definition faultK :: "('a, 's) kern" where
  "faultK = (\<lambda>s. Fault)"

definition whenK :: "bool \<Rightarrow> (unit, 's) kern \<Rightarrow> (unit, 's) kern" where
  "whenK b m = (if b then m else retK ())"

primrec seqK :: "(unit, 's) kern list \<Rightarrow> (unit, 's) kern" where
  "seqK [] = retK ()"
| "seqK (m # ms) = thenK m (seqK ms)"

primrec forK :: "'i list \<Rightarrow> ('i \<Rightarrow> (unit, 's) kern) \<Rightarrow> (unit, 's) kern" where
  "forK [] f = retK ()"
| "forK (i # is) f = thenK (f i) (forK is f)"

lemma retK_apply [simp, kern_simps]: "retK x s = Ret x s"
  by (simp add: retK_def)

lemma getK_apply [simp, kern_simps]: "getK f s = Ret (f s) s"
  by (simp add: getK_def)

lemma modK_apply [simp, kern_simps]: "modK f s = Ret () (f s)"
  by (simp add: modK_def)

lemma panicK_apply [simp, kern_simps]: "panicK e s = Panic e s"
  by (simp add: panicK_def)

lemma hangK_apply [simp, kern_simps]: "hangK s = Hang"
  by (simp add: hangK_def)

lemma faultK_apply [simp, kern_simps]: "faultK s = Fault"
  by (simp add: faultK_def)

lemma bindK_Ret [simp, kern_simps]: "m s = Ret x t \<Longrightarrow> bindK m f s = f x t"
  by (simp add: bindK_def)

text \<open>A truth value as result needs its own rules: the simplifier would turn \<open>False = x\<close>
  into \<open>\<not> x\<close> instead of solving it for \<open>x\<close>.\<close>

lemma bindK_True [simp, kern_simps]: "m s = Ret True t \<Longrightarrow> bindK m f s = f True t"
  by (simp add: bindK_def)

lemma bindK_False [simp, kern_simps]: "m s = Ret False t \<Longrightarrow> bindK m f s = f False t"
  by (simp add: bindK_def)

lemma bindK_Panic [simp, kern_simps]: "m s = Panic e t \<Longrightarrow> bindK m f s = Panic e t"
  by (simp add: bindK_def)

lemma bindK_Hang [simp, kern_simps]: "m s = Hang \<Longrightarrow> bindK m f s = Hang"
  by (simp add: bindK_def)

lemma bindK_Fault [simp, kern_simps]: "m s = Fault \<Longrightarrow> bindK m f s = Fault"
  by (simp add: bindK_def)

lemma thenK_Ret [simp, kern_simps]: "m s = Ret x t \<Longrightarrow> thenK m n s = n t"
  by (simp add: thenK_def)

lemma thenK_Panic [simp, kern_simps]: "m s = Panic e t \<Longrightarrow> thenK m n s = Panic e t"
  by (simp add: thenK_def)

lemma thenK_Hang [simp, kern_simps]: "m s = Hang \<Longrightarrow> thenK m n s = Hang"
  by (simp add: thenK_def)

lemma thenK_Fault [simp, kern_simps]: "m s = Fault \<Longrightarrow> thenK m n s = Fault"
  by (simp add: thenK_def)

lemma whenK_simps [simp, kern_simps]: "whenK True m = m" "whenK False m = retK ()"
  by (simp_all add: whenK_def)

lemma bindK_retK [simp]: "bindK (retK x) f = f x"
  by (rule ext) simp

lemma bindK_assoc: "bindK (bindK m f) g = bindK m (\<lambda>x. bindK (f x) g)"
  by (rule ext) (simp add: bindK_def split: outcome.splits)

lemma bindK_RetD:
  assumes "bindK m f s = Ret y u"
  obtains x t where "m s = Ret x t" and "f x t = Ret y u"
  using assms by (auto simp: bindK_def split: outcome.splits)

lemma thenK_RetD:
  assumes "thenK m n s = Ret y u"
  obtains x t where "m s = Ret x t" and "n t = Ret y u"
  using assms by (auto simp: thenK_def elim: bindK_RetD)

lemma forK_append: "forK (xs @ ys) f = thenK (forK xs f) (forK ys f)"
  by (induction xs) (auto simp: fun_eq_iff thenK_def bindK_def split: outcome.splits)

lemma forK_cong: "(\<And>x. x \<in> set xs \<Longrightarrow> f x = g x) \<Longrightarrow> forK xs f = forK xs g"
  by (induction xs) auto

lemma forK_map: "forK (map h xs) f = forK xs (\<lambda>x. f (h x))"
  by (induction xs) simp_all

lemma thenK_skip: "thenK m (retK ()) = m"
  by (auto simp: fun_eq_iff thenK_def bindK_def split: outcome.splits)

lemma forK_nested: "forK [0 ..< a] (\<lambda>r. forK [0 ..< b] (\<lambda>c. g (r * b + c))) = forK [0 ..< a * b] g"
proof (induction a)
  case (Suc a)
  have "[0 ..< Suc a * b] = [0 ..< a * b] @ map ((+) (a * b)) [0 ..< b]"
    using map_add_upt [of "a * b" b] upt_add_eq_append [of 0 "a * b" b]
    by (simp add: add.commute [of _ "a * b"])
  moreover have "[0 ..< Suc a] = [0 ..< a] @ [a]" by simp
  ultimately show ?case using Suc by (simp only: forK_append forK_map forK.simps thenK_skip)
qed simp

section \<open>Frame calculus\<close>

text \<open>
  \<open>keeps f m\<close>: in whatever state \<open>m\<close> ends (by returning or by a panic), the
  observation \<open>f\<close> of the state is the one it started with.
\<close>

definition keeps :: "('s \<Rightarrow> 'b) \<Rightarrow> ('a, 's) kern \<Rightarrow> bool" where
  "keeps f m \<longleftrightarrow> (\<forall>s. case m s of
       Ret x t \<Rightarrow> f t = f s | Panic e t \<Rightarrow> f t = f s | Hang \<Rightarrow> True | Fault \<Rightarrow> True)"

lemma keeps_Ret: "keeps f m \<Longrightarrow> m s = Ret x t \<Longrightarrow> f t = f s"
  by (auto simp: keeps_def dest!: spec [of _ s])

lemma keeps_Panic: "keeps f m \<Longrightarrow> m s = Panic e t \<Longrightarrow> f t = f s"
  by (auto simp: keeps_def dest!: spec [of _ s])

lemma keeps_retK [keeps_intros]: "keeps f (retK x)"
  by (simp add: keeps_def)

lemma keeps_getK [keeps_intros]: "keeps f (getK g)"
  by (simp add: keeps_def)

lemma keeps_panicK [keeps_intros]: "keeps f (panicK e)"
  by (simp add: keeps_def)

lemma keeps_hangK [keeps_intros]: "keeps f hangK"
  by (simp add: keeps_def)

lemma keeps_faultK [keeps_intros]: "keeps f faultK"
  by (simp add: keeps_def)

lemma keeps_modK: "(\<And>s. f (g s) = f s) \<Longrightarrow> keeps f (modK g)"
  by (simp add: keeps_def)

lemma keeps_bindK [keeps_intros]:
  "keeps f m \<Longrightarrow> (\<And>x. keeps f (g x)) \<Longrightarrow> keeps f (bindK m g)"
  by (fastforce simp: keeps_def bindK_def split: outcome.splits)

lemma keeps_thenK [keeps_intros]: "keeps f m \<Longrightarrow> keeps f n \<Longrightarrow> keeps f (thenK m n)"
  by (simp add: thenK_def keeps_bindK)

lemma keeps_if [keeps_intros]:
  "(b \<Longrightarrow> keeps f m) \<Longrightarrow> (\<not> b \<Longrightarrow> keeps f n) \<Longrightarrow> keeps f (if b then m else n)"
  by simp

lemma keeps_whenK [keeps_intros]: "(b \<Longrightarrow> keeps f m) \<Longrightarrow> keeps f (whenK b m)"
  by (simp add: whenK_def keeps_retK)

lemma keeps_forK [keeps_intros]: "(\<And>i. keeps f (g i)) \<Longrightarrow> keeps f (forK is g)"
  by (induction "is") (auto intro: keeps_intros)

lemma keeps_seqK [keeps_intros]: "(\<And>m. m \<in> set ms \<Longrightarrow> keeps f m) \<Longrightarrow> keeps f (seqK ms)"
  by (induction ms) (auto intro: keeps_intros)

end
