(* ===== verification/Mem.thy ===== *)
theory Mem
  imports Prelude
begin

text \<open>
  Byte memory and the little-endian 16-, 32- and 64-bit accesses that the compiled C code
  performs on it. Addresses are 32-bit words, so pointer arithmetic wraps as it does on
  the machine.
\<close>

section \<open>Accesses\<close>

definition read16 :: "memory \<Rightarrow> addr \<Rightarrow> u16" where
  "read16 m a = ucast (m a) OR push_bit 8 (ucast (m (a + 1)))"

definition read32 :: "memory \<Rightarrow> addr \<Rightarrow> u32" where
  "read32 m a = ucast (m a) OR push_bit 8 (ucast (m (a + 1)))
     OR push_bit 16 (ucast (m (a + 2))) OR push_bit 24 (ucast (m (a + 3)))"

definition read64 :: "memory \<Rightarrow> addr \<Rightarrow> u64" where
  "read64 m a = ucast (read32 m a) OR push_bit 32 (ucast (read32 m (a + 4)))"

definition write32 :: "memory \<Rightarrow> addr \<Rightarrow> u32 \<Rightarrow> memory" where
  "write32 m a v = m(a := ucast v, a + 1 := ucast (drop_bit 8 v),
     a + 2 := ucast (drop_bit 16 v), a + 3 := ucast (drop_bit 24 v))"

section \<open>Regions\<close>

text \<open>\<open>in_region a n x\<close>: \<open>x\<close> is one of the \<open>n\<close> bytes from \<open>a\<close> on.\<close>

definition in_region :: "addr \<Rightarrow> nat \<Rightarrow> addr \<Rightarrow> bool" where
  "in_region a n x \<longleftrightarrow> unat (x - a) < n"

definition disjoint_regions :: "addr \<Rightarrow> nat \<Rightarrow> addr \<Rightarrow> nat \<Rightarrow> bool" where
  "disjoint_regions a n b k \<longleftrightarrow> n \<le> unat (b - a) \<and> k \<le> unat (a - b)"

section \<open>Laws\<close>

lemma unat_lt32: "unat (a :: addr) < 4294967296"
  using unsigned_less [of a] by simp

lemma unat_add32: "unat (a + b :: addr) = (unat a + unat b) mod 4294967296"
  by (simp add: unat_word_ariths)

lemma unat_sub32:
  "unat (a - b :: addr) = (if unat b \<le> unat a then unat a - unat b else unat a + 4294967296 - unat b)"
  by (simp add: unat_sub_if')

lemma unat_of_nat32: "n < 4294967296 \<Longrightarrow> unat (of_nat n :: addr) = n"
  by (simp add: unat_of_nat)

lemma unat_eq_iff32: "n < 4294967296 \<Longrightarrow> unat (x :: addr) = n \<longleftrightarrow> x = of_nat n"
  by (auto simp: unat_of_nat)

lemma of_nat_eq32:
  "a < 4294967296 \<Longrightarrow> b < 4294967296 \<Longrightarrow> (of_nat a :: addr) = of_nat b \<longleftrightarrow> a = b"
  by (metis unat_of_nat32)

lemma small_offsets_distinct [simp]:
  "a + 1 \<noteq> (a :: addr)" "a + 2 \<noteq> a" "a + 3 \<noteq> a" "a + 2 \<noteq> a + 1" "a + 3 \<noteq> a + 1" "a + 3 \<noteq> a + 2"
  by simp_all

lemma read32_write32_same [simp]: "read32 (write32 m a v) a = v"
proof (rule bit_word_eqI)
  fix n
  assume n: "n < LENGTH(32)"
  then consider "n < 8" | "8 \<le> n \<and> n < 16" | "16 \<le> n \<and> n < 24" | "24 \<le> n \<and> n < 32"
    by force
  then show "bit (read32 (write32 m a v) a) n = bit v n"
    by cases (auto simp: read32_def write32_def bit_simps)
qed

lemma write32_other: "\<not> in_region a 4 x \<Longrightarrow> write32 m a v x = m x"
  by (auto simp: write32_def in_region_def)

lemma read32_cong:
  assumes "\<And>i. i < 4 \<Longrightarrow> m (a + of_nat i) = m' (a + of_nat i)"
  shows "read32 m a = read32 m' a"
  using assms [of 0] assms [of 1] assms [of 2] assms [of 3] by (simp add: read32_def)

lemma in_region_offset:
  assumes "i < n" "n \<le> 2 ^ 32"
  shows "in_region a n (a + of_nat i)"
  using assms by (simp add: in_region_def unat_of_nat)

lemma in_region_iff:
  assumes "n \<le> 2 ^ 32"
  shows "in_region a n x \<longleftrightarrow> (\<exists>i < n. x = a + of_nat i)"
proof
  assume r: "in_region a n x"
  then have "x = a + of_nat (unat (x - a))" by simp
  with r show "\<exists>i < n. x = a + of_nat i" by (auto simp: in_region_def)
next
  assume "\<exists>i < n. x = a + of_nat i"
  then show "in_region a n x" using assms by (auto intro: in_region_offset)
qed

lemma disjoint_regions_sym: "disjoint_regions a n b k = disjoint_regions b k a n"
  by (auto simp: disjoint_regions_def)

lemma disjoint_regionsD:
  assumes d: "disjoint_regions a n b k" and x: "in_region b k x"
  shows "\<not> in_region a n x"
proof
  assume y: "in_region a n x"
  have ba: "n \<le> unat (b - a)" and ab: "k \<le> unat (a - b)"
    using d by (auto simp: disjoint_regions_def)
  have xb: "unat (x - b) < k" and xa: "unat (x - a) < n"
    using x y by (auto simp: in_region_def)
  show False using xa xb ba ab unat_lt32 [of x] unat_lt32 [of a] unat_lt32 [of b]
    by (simp add: unat_sub32 split: if_splits)
qed

lemma read32_write32_other:
  assumes "disjoint_regions a 4 b 4"
  shows "read32 (write32 m a v) b = read32 m b"
proof (rule read32_cong)
  fix i :: nat
  assume "i < 4"
  then have "in_region b 4 (b + of_nat i)" by (simp add: in_region_offset)
  with assms have "\<not> in_region a 4 (b + of_nat i)" by (rule disjoint_regionsD)
  then show "write32 m a v (b + of_nat i) = m (b + of_nat i)" by (rule write32_other)
qed

section \<open>Alignment\<close>

definition aligned :: "nat \<Rightarrow> addr \<Rightarrow> bool" where
  "aligned n a \<longleftrightarrow> n dvd unat a"

lemma aligned_diff:
  assumes "aligned n a" "aligned n b" "n dvd 2 ^ 32"
  shows "n dvd unat (b - a)"
proof (cases "a \<le> b")
  case True
  then show ?thesis using assms
    by (simp add: aligned_def unat_sub32 word_le_nat_alt)
next
  case False
  then have "unat (b - a) = unat b + 2 ^ 32 - unat a"
    by (simp add: unat_sub_if' word_le_nat_alt)
  then show ?thesis using assms unat_lt32 [of a] by (auto simp: aligned_def)
qed

lemma aligned_disjoint:
  assumes "aligned n a" "aligned n b" "n dvd 2 ^ 32" "a \<noteq> b"
  shows "disjoint_regions a n b n"
proof -
  have "n dvd unat (b - a)" "n dvd unat (a - b)"
    using assms by (simp_all add: aligned_diff)
  moreover have "unat (b - a) \<noteq> 0" "unat (a - b) \<noteq> 0"
    using assms(4) by (simp_all add: unat_eq_zero)
  ultimately show ?thesis
    by (auto simp: disjoint_regions_def intro: dvd_imp_le)
qed

lemma aligned_add:
  assumes "aligned n a" "aligned n b" "n dvd 2 ^ 32"
  shows "aligned n (a + b)"
  using assms unat_lt32 [of a] by (auto simp: aligned_def unat_plus_if')

lemma aligned_of_nat_mult:
  assumes "n dvd 2 ^ 32"
  shows "aligned n (of_nat (n * k))"
  using assms by (simp add: aligned_def unat_of_nat dvd_mod del: of_nat_mult)

lemma aligned_weaken: "aligned n a \<Longrightarrow> k dvd n \<Longrightarrow> aligned k a"
  by (auto simp: aligned_def elim: dvd_trans [rotated])

end
