(* ===== verification/LowLevel.thy ===== *)
theory LowLevel
  imports Mem
begin

text \<open>
  The machine under the kernel (\<^verbatim>\<open>kernel/low_level.h\<close>): memory, the flags register, the page
  directory register, and port input/output. Devices are outside the program: what an
  input instruction returns is given by the functions \<open>dev8\<close>, \<open>dev16\<close> and
  \<open>dev32\<close> of the history of all accesses made so far, so a theorem about a driver holds
  for every device behaviour unless it names a hypothesis on these functions. The memory
  is the kernel's view of it, indexed by kernel virtual addresses (the direct map at
  \<open>KERNBASE\<close>). \<open>kstk\<close> is the stack address of the running routine's first argument.
\<close>

datatype io_event =
    InB u16 u8 | OutB u16 u8
  | InW u16 u16 | OutW u16 u16
  | InL u16 u32 | OutL u16 u32
  | MmioRead addr u32 | MmioWrite addr u32

record machine =
  mem :: memory
  eflags :: u32
  cr3 :: u32
  kstk :: addr
  io_log :: "io_event list"
  dev8 :: "io_event list \<Rightarrow> u16 \<Rightarrow> u8"
  dev16 :: "io_event list \<Rightarrow> u16 \<Rightarrow> u16"
  dev32 :: "io_event list \<Rightarrow> addr \<Rightarrow> u32"

definition log_io :: "io_event \<Rightarrow> (unit, 'z machine_scheme) kern" where
  "log_io e = modK (\<lambda>s. s\<lparr>io_log := e # io_log s\<rparr>)"

definition inb :: "u16 \<Rightarrow> (u8, 'z machine_scheme) kern" where
  "inb port = bindK (getK (\<lambda>s. dev8 s (io_log s) port)) (\<lambda>result.
     thenK (log_io (InB port result)) (retK result))"

definition outb :: "u16 \<Rightarrow> u8 \<Rightarrow> (unit, 'z machine_scheme) kern" where
  "outb port data = log_io (OutB port data)"

definition inw :: "u16 \<Rightarrow> (u16, 'z machine_scheme) kern" where
  "inw port = bindK (getK (\<lambda>s. dev16 s (io_log s) port)) (\<lambda>result.
     thenK (log_io (InW port result)) (retK result))"

definition outw :: "u16 \<Rightarrow> u16 \<Rightarrow> (unit, 'z machine_scheme) kern" where
  "outw port data = log_io (OutW port data)"

text \<open>
  \<open>rep insl\<close> and \<open>rep outsl\<close>: \<open>cnt\<close> double words in a row. The buffers the kernel
  passes are C arrays of its own, so the words read are returned and the words to write
  are given as lists.
\<close>

primrec insl :: "u16 \<Rightarrow> nat \<Rightarrow> (u32 list, 'z machine_scheme) kern" where
  "insl port 0 = retK []"
| "insl port (Suc cnt) = bindK (getK (\<lambda>s. dev32 s (io_log s) (ucast port))) (\<lambda>w.
     thenK (log_io (InL port w)) (bindK (insl port cnt) (\<lambda>ws. retK (w # ws))))"

definition outsl :: "u16 \<Rightarrow> u32 list \<Rightarrow> (unit, 'z machine_scheme) kern" where
  "outsl port ws = forK ws (\<lambda>w. log_io (OutL port w))"

section \<open>Evaluation rules\<close>

lemma log_io_apply [simp, kern_simps]: "log_io e s = Ret () (s\<lparr>io_log := e # io_log s\<rparr>)"
  by (simp add: log_io_def)

lemma inb_apply [simp, kern_simps]:
  "inb port s = Ret (dev8 s (io_log s) port)
     (s\<lparr>io_log := InB port (dev8 s (io_log s) port) # io_log s\<rparr>)"
  by (simp add: inb_def)

lemma outb_apply [simp, kern_simps]: "outb port d s = Ret () (s\<lparr>io_log := OutB port d # io_log s\<rparr>)"
  by (simp add: outb_def)

lemma insl_length: "insl port n s = Ret ws t \<Longrightarrow> length ws = n"
  by (induction n arbitrary: s ws) (auto elim!: bindK_RetD thenK_RetD)

lemma outsl_apply:
  "outsl port ws s = Ret () (s\<lparr>io_log := rev (map (OutL port) ws) @ io_log s\<rparr>)"
  unfolding outsl_def by (induction ws arbitrary: s) auto

text \<open>Only the access log changes under port input and output.\<close>

definition only_log :: "'z machine_scheme \<Rightarrow> 'z machine_scheme \<Rightarrow> bool" where
  "only_log s t \<longleftrightarrow> t = s\<lparr>io_log := io_log t\<rparr>"

lemma insl_total: "\<exists>ws t. insl port n s = Ret ws t \<and> only_log s t"
proof (induction n arbitrary: s)
  case (Suc n)
  let ?w = "dev32 s (io_log s) (ucast port)"
  obtain ws t where "insl port n (s\<lparr>io_log := InL port ?w # io_log s\<rparr>) = Ret ws t"
    and t: "only_log (s\<lparr>io_log := InL port ?w # io_log s\<rparr>) t"
    using Suc by blast
  then show ?case by (auto simp: only_log_def)
qed (simp add: only_log_def)

end
