(* ===== verification/Cpu.thy ===== *)
theory Cpu
  imports LowLevel
begin

text \<open>
  Per-processor state (\<^verbatim>\<open>kernel/cpu.h\<close>, \<^verbatim>\<open>kernel/cpu.c\<close>, the descriptor type of
  \<^verbatim>\<open>kernel/gdt.h\<close>), the spin lock object (\<^verbatim>\<open>kernel/spinlock.h\<close>) and the interrupt-flag
  instructions. A pointer to a \<open>struct cpu\<close> is its index in \<open>cpus\<close>, a pointer to a
  process its slot in the process table, and a pointer to one of the kernel's four locks
  a value of \<open>lock_id\<close>.
\<close>

section \<open>Data\<close>

record segdesc =
  limit_lo :: u16
  base_lo :: u16
  base_mi :: u8
  access :: u8
  seg_flags :: u8
  base_hi :: u8

record taskstate =
  ts_link :: u32
  ts_esp0 :: u32
  ts_ss0 :: u16
  ts_esp1 :: addr
  ts_ss1 :: u16
  ts_esp2 :: addr
  ts_ss2 :: u16
  ts_cr3 :: addr
  ts_eip :: addr
  ts_eflags :: u32
  ts_eax :: u32
  ts_ecx :: u32
  ts_edx :: u32
  ts_ebx :: u32
  ts_esp :: addr
  ts_ebp :: addr
  ts_esi :: u32
  ts_edi :: u32
  ts_es :: u16
  ts_cs :: u16
  ts_ss :: u16
  ts_ds :: u16
  ts_fs :: u16
  ts_gs :: u16
  ts_ldt :: u16
  ts_t :: u16
  ts_iomb :: u16

record cpu =
  apicid :: u8
  cpu_scheduler :: addr
  cpu_ts :: taskstate
  cpu_gdt :: "segdesc list"
  ncli :: int
  intena :: u32
  cpu_proc :: "nat option"

datatype lock_id = ConsLock | KmemLock | PtableLock | IdeLock

record spinlock =
  locked :: u32
  lk_name :: string
  lk_cpu :: "nat option"
  lk_pcs :: "u32 list"

record cpu_machine = machine +
  cpus :: "nat \<Rightarrow> cpu"
  locks :: "lock_id \<Rightarrow> spinlock"

abbreviation (input) FL_IF :: u32 where "FL_IF \<equiv> 0x200"
abbreviation (input) MAX_CPUS :: nat where "MAX_CPUS \<equiv> 16"
abbreviation (input) NSEGS :: nat where "NSEGS \<equiv> 6"

section \<open>Instructions\<close>

definition readeflags :: "(u32, 'z machine_scheme) kern" where
  "readeflags = getK eflags"

definition cli :: "(unit, 'z machine_scheme) kern" where
  "cli = modK (\<lambda>s. s\<lparr>eflags := eflags s AND NOT FL_IF\<rparr>)"

definition sti :: "(unit, 'z machine_scheme) kern" where
  "sti = modK (\<lambda>s. s\<lparr>eflags := eflags s OR FL_IF\<rparr>)"

text \<open>\<open>xchg(&lk->locked, newval)\<close>: store the new value, return the old one, atomically.\<close>

definition xchg :: "lock_id \<Rightarrow> u32 \<Rightarrow> (u32, 'z cpu_machine_scheme) kern" where
  "xchg lk newval = (\<lambda>s. Ret (locked (locks s lk))
     (s\<lparr>locks := (locks s)(lk := (locks s lk)\<lparr>locked := newval\<rparr>)\<rparr>))"

definition mycpu :: "(nat, 'z cpu_machine_scheme) kern" where
  "mycpu = bindK readeflags (\<lambda>fl.
     if fl AND FL_IF \<noteq> 0 then panicK ''mycpu called with interrupts enabled\<newline>''
     else retK 0)"

text \<open>Update of \<open>cpus[c]\<close>, and of a lock.\<close>

definition upd_cpu :: "nat \<Rightarrow> (cpu \<Rightarrow> cpu) \<Rightarrow> (unit, 'z cpu_machine_scheme) kern" where
  "upd_cpu c f = modK (\<lambda>s. s\<lparr>cpus := (cpus s)(c := f (cpus s c))\<rparr>)"

definition upd_lock :: "lock_id \<Rightarrow> (spinlock \<Rightarrow> spinlock) \<Rightarrow> (unit, 'z cpu_machine_scheme) kern" where
  "upd_lock lk f = modK (\<lambda>s. s\<lparr>locks := (locks s)(lk := f (locks s lk))\<rparr>)"

section \<open>The interrupt flag\<close>

definition IF_on :: "'z machine_scheme \<Rightarrow> bool" where
  "IF_on s \<longleftrightarrow> eflags s AND FL_IF \<noteq> 0"

lemma bit_512: "bit (512 :: int) n \<longleftrightarrow> n = 9"
  using bit_exp_iff [of 9 n, where 'a = int] by (auto simp: possible_bit_def)

lemma bit_not_512: "bit (- 513 :: int) n \<longleftrightarrow> n \<noteq> 9"
proof -
  have "(- 513 :: int) = NOT 512" by simp
  then show ?thesis by (simp only: bit_not_int_iff bit_512)
qed

lemma and_FL_IF_bit: "x AND 512 = (if bit x 9 then 512 else (0 :: u32))"
  by (rule bit_word_eqI) (auto simp: bit_and_iff bit_512)

lemma IF_on_bit: "IF_on s \<longleftrightarrow> bit (eflags s) 9"
  by (simp add: IF_on_def and_FL_IF_bit)

lemma IF_flags [simp]:
  "(x AND - 513) AND (512 :: u32) = 0"
  "(x OR 512) AND (512 :: u32) = 512"
  by (simp_all add: and_FL_IF_bit bit_and_iff bit_or_iff bit_not_512 bit_512)

lemma cli_sti_restore [simp]: "bit x 9 \<Longrightarrow> (x AND - 513) OR 512 = (x :: u32)"
  by (rule bit_word_eqI) (auto simp: bit_and_iff bit_or_iff bit_not_512 bit_512)

lemma cli_idem [simp]: "\<not> bit x 9 \<Longrightarrow> x AND - 513 = (x :: u32)"
  by (rule bit_word_eqI) (auto simp: bit_and_iff bit_not_512)

end
