(* ===== verification/Layout.thy ===== *)
theory Layout
  imports Mem
begin

text \<open>
  Address arithmetic of \<^verbatim>\<open>kernel/paging.h\<close> and \<^verbatim>\<open>kernel/pmem.h\<close>: page rounding, page directory
  and page table indices, entry fields, and the direct map between kernel virtual and
  physical addresses. \<open>KERNBASE\<close> is the constant of \<^verbatim>\<open>kernel/paging_defs.asm\<close>.
\<close>

abbreviation (input) PGSIZE :: u32 where "PGSIZE \<equiv> 4096"
abbreviation (input) KERNBASE :: u32 where "KERNBASE \<equiv> 0x80000000"
abbreviation (input) DEVSPACE :: u32 where "DEVSPACE \<equiv> 0xFE000000"
abbreviation (input) PTE_P :: u32 where "PTE_P \<equiv> 1"
abbreviation (input) PTE_W :: u32 where "PTE_W \<equiv> 2"
abbreviation (input) PTE_U :: u32 where "PTE_U \<equiv> 4"
abbreviation (input) NPDENTRIES :: nat where "NPDENTRIES \<equiv> 1024"

definition ADDR_PAGE_OFFSET :: "u32 \<Rightarrow> u32" where
  "ADDR_PAGE_OFFSET a = a AND 0x0FFF"

definition PDX :: "u32 \<Rightarrow> u32" where
  "PDX va = drop_bit 22 va AND 0x3FF"

definition PTX :: "u32 \<Rightarrow> u32" where
  "PTX va = drop_bit 12 va AND 0x3FF"

definition PGADDR :: "u32 \<Rightarrow> u32 \<Rightarrow> u32 \<Rightarrow> u32" where
  "PGADDR d t ofs = push_bit 22 d OR push_bit 12 t OR ofs"

definition PGROUNDUP :: "u32 \<Rightarrow> u32" where
  "PGROUNDUP sz = (sz + PGSIZE - 1) AND NOT (PGSIZE - 1)"

definition PGROUNDDOWN :: "u32 \<Rightarrow> u32" where
  "PGROUNDDOWN a = a AND NOT (PGSIZE - 1)"

definition PTE_ADDR :: "u32 \<Rightarrow> u32" where
  "PTE_ADDR pte = pte AND NOT 0xFFF"

definition PTE_FLAGS :: "u32 \<Rightarrow> u32" where
  "PTE_FLAGS pte = pte AND 0xFFF"

definition V2P :: "addr \<Rightarrow> u32" where
  "V2P a = a - KERNBASE"

definition P2V :: "u32 \<Rightarrow> addr" where
  "P2V a = a + KERNBASE"

section \<open>Rounding\<close>

lemma mask12: "(4095 :: u32) = mask 12" by (simp add: mask_eq_exp_minus_1)
lemma mask10: "(1023 :: u32) = mask 10" by (simp add: mask_eq_exp_minus_1)

lemma unat_and_4095: "unat (a AND 4095 :: u32) = unat a mod 4096"
  by (simp only: mask12 take_bit_eq_mask [symmetric] unsigned_take_bit_eq)
     (simp add: take_bit_eq_mod)

lemma unat_and_1023: "unat (a AND 1023 :: u32) = unat a mod 1024"
  by (simp only: mask10 take_bit_eq_mask [symmetric] unsigned_take_bit_eq)
     (simp add: take_bit_eq_mod)

lemma and_not_4095: "a AND NOT 4095 = a - (a AND (4095 :: u32))"
proof -
  have "(a AND NOT 4095) + (a AND 4095) = (a AND NOT 4095) OR (a AND (4095 :: u32))"
    by (rule disjunctive_add) (auto simp only: bit_simps)
  also have "\<dots> = a" by (rule bit_word_eqI) (auto simp only: bit_simps possible_bit_word)
  finally show ?thesis by (simp add: algebra_simps)
qed

lemma unat_and_not_4095: "unat (a AND - 4096 :: u32) = unat a - unat a mod 4096"
proof -
  have "a AND - 4096 = a - (a AND 4095)" using and_not_4095 [of a] by simp
  moreover have "unat (a AND 4095) \<le> unat a" by (simp add: unat_and_4095)
  ultimately show ?thesis by (simp add: unat_sub32 unat_and_4095)
qed

lemma unat_PGROUNDDOWN: "unat (PGROUNDDOWN a) = unat a - unat a mod 4096"
  by (simp add: PGROUNDDOWN_def unat_and_not_4095)

lemma PGROUNDDOWN_aligned [simp]: "aligned 4096 (PGROUNDDOWN a)"
  by (simp add: aligned_def unat_PGROUNDDOWN dvd_minus_mod)

lemma PGROUNDUP_aligned [simp]: "aligned 4096 (PGROUNDUP a)"
  by (simp add: aligned_def PGROUNDUP_def unat_and_not_4095 dvd_minus_mod)

lemma aligned_PGROUNDDOWN_id: "aligned 4096 a \<Longrightarrow> PGROUNDDOWN a = a"
  by (rule word_unat_eq_iff [THEN iffD2]) (simp add: aligned_def unat_PGROUNDDOWN)

lemma unat_PGROUNDUP:
  assumes "unat a \<le> 4294963200"
  shows "unat (PGROUNDUP a) = (unat a + 4095) div 4096 * 4096"
proof -
  have "unat (a + 4096 - 1) = unat a + 4095"
    using assms by (simp add: unat_add32)
  then show ?thesis
    by (simp add: PGROUNDUP_def unat_and_not_4095 minus_mod_eq_div_mult)
qed

lemma PGROUNDUP_ge: "unat a \<le> 4294963200 \<Longrightarrow> a \<le> PGROUNDUP a"
  by (simp add: word_le_nat_alt unat_PGROUNDUP)

section \<open>Indices\<close>

lemma unat_PDX: "unat (PDX va) = unat va div 4194304"
  using unat_lt32 [of va] by (simp add: PDX_def unat_and_1023 unat_drop_bit_eq drop_bit_nat_def)

lemma unat_PTX: "unat (PTX va) = unat va div 4096 mod 1024"
  by (simp add: PTX_def unat_and_1023 unat_drop_bit_eq drop_bit_nat_def)

lemma unat_PDX_lt: "unat (PDX va) < 1024"
  by (simp add: PDX_def unat_and_1023)

lemma unat_PTX_lt: "unat (PTX va) < 1024"
  by (simp add: PTX_def unat_and_1023)

section \<open>Entries and the direct map\<close>

lemma V2P_P2V [simp]: "V2P (P2V a) = a" and P2V_V2P [simp]: "P2V (V2P a) = a"
  by (simp_all add: V2P_def P2V_def)

lemma P2V_inj [simp]: "P2V a = P2V b \<longleftrightarrow> a = b"
  by (simp add: P2V_def)

lemma V2P_inj [simp]: "V2P a = V2P b \<longleftrightarrow> a = b"
  by (simp add: V2P_def)

lemma aligned_KERNBASE: "aligned 4096 KERNBASE"
  by (simp add: aligned_def)

lemma aligned_P2V [simp]: "aligned 4096 (P2V a) = aligned 4096 a"
proof -
  have "aligned 4096 (P2V a)" if "aligned 4096 a"
    unfolding P2V_def using that aligned_KERNBASE by (rule aligned_add) simp
  moreover have "aligned 4096 (V2P (P2V a))" if "aligned 4096 (P2V a)"
  proof -
    have "V2P (P2V a) = P2V a + KERNBASE" by (simp add: V2P_def P2V_def)
    moreover have "aligned 4096 (P2V a + KERNBASE)"
      using that aligned_KERNBASE by (rule aligned_add) simp
    ultimately show ?thesis by (simp only:)
  qed
  ultimately show ?thesis by auto
qed

end
