(* ===== verification/Spinlock.thy ===== *)
theory Spinlock
  imports Cpu Layout
begin

text \<open>
  Mutual exclusion (\<^verbatim>\<open>kernel/spinlock.c\<close>): nested interrupt disabling, spin locks and the
  call-stack recorder. The kernel runs on \<open>cpus[0]\<close>, which is what \<open>mycpu\<close> returns.
  A spin on a lock that is taken by somebody else never ends on the modelled processor:
  interrupts are off, so nobody can release it, and the outcome is \<open>Hang\<close>.
\<close>

section \<open>Operations\<close>

definition initlock :: "lock_id \<Rightarrow> string \<Rightarrow> (unit, 'z cpu_machine_scheme) kern" where
  "initlock lk name = upd_lock lk (\<lambda>l. l\<lparr>lk_name := name, locked := 0, lk_cpu := None\<rparr>)"

definition pushcli :: "(unit, 'z cpu_machine_scheme) kern" where
  "pushcli = bindK readeflags (\<lambda>fl.
     thenK cli
     (bindK mycpu (\<lambda>c. bindK (getK (\<lambda>s. ncli (cpus s c))) (\<lambda>n.
     thenK (whenK (n = 0) (bindK mycpu (\<lambda>c. upd_cpu c (\<lambda>p. p\<lparr>intena := fl AND FL_IF\<rparr>))))
     (bindK mycpu (\<lambda>c. upd_cpu c (\<lambda>p. p\<lparr>ncli := ncli p + 1\<rparr>)))))))"

definition popcli :: "(unit, 'z cpu_machine_scheme) kern" where
  "popcli = bindK readeflags (\<lambda>fl.
     if fl AND FL_IF \<noteq> 0 then panicK ''popcli - interruptible''
     else bindK mycpu (\<lambda>c. thenK (upd_cpu c (\<lambda>p. p\<lparr>ncli := ncli p - 1\<rparr>))
       (bindK (getK (\<lambda>s. ncli (cpus s c))) (\<lambda>n.
          if n < 0 then panicK ''popcli''
          else bindK mycpu (\<lambda>c. bindK (getK (\<lambda>s. cpus s c)) (\<lambda>p.
             whenK (ncli p = 0 \<and> intena p \<noteq> 0) sti))))))"

definition holding :: "lock_id \<Rightarrow> (bool, 'z cpu_machine_scheme) kern" where
  "holding lk = thenK pushcli
     (bindK mycpu (\<lambda>c. bindK (getK (\<lambda>s. locked (locks s lk) \<noteq> 0 \<and> lk_cpu (locks s lk) = Some c))
     (\<lambda>r. thenK popcli (retK r))))"

text \<open>Saved instruction pointers along the chain of frame pointers, at most \<open>n\<close>.\<close>

primrec callchain :: "memory \<Rightarrow> addr \<Rightarrow> nat \<Rightarrow> u32 list" where
  "callchain m ebp 0 = []"
| "callchain m ebp (Suc n) =
     (if ebp = 0 \<or> ebp < KERNBASE \<or> ebp = 0xffffffff then replicate (Suc n) 0
      else read32 m (ebp + 4) # callchain m (read32 m ebp) n)"

definition getcallerpcs :: "memory \<Rightarrow> addr \<Rightarrow> u32 list" where
  "getcallerpcs m v = callchain m (v - 8) 10"

definition acquire :: "lock_id \<Rightarrow> (unit, 'z cpu_machine_scheme) kern" where
  "acquire lk = thenK pushcli
     (bindK (holding lk) (\<lambda>h.
      if h then panicK ''acquire''
      else bindK (xchg lk 1) (\<lambda>old.
        if old \<noteq> 0 then hangK
        else bindK mycpu (\<lambda>c. thenK (upd_lock lk (\<lambda>l. l\<lparr>lk_cpu := Some c\<rparr>))
          (bindK (getK (\<lambda>s. getcallerpcs (mem s) (kstk s)))
            (\<lambda>p. upd_lock lk (\<lambda>l. l\<lparr>lk_pcs := p\<rparr>)))))))"

definition release :: "lock_id \<Rightarrow> (unit, 'z cpu_machine_scheme) kern" where
  "release lk = bindK (holding lk) (\<lambda>h.
     if \<not> h then panicK ''release''
     else thenK (upd_lock lk (\<lambda>l. l\<lparr>lk_pcs := (lk_pcs l)[0 := 0]\<rparr>))
       (thenK (upd_lock lk (\<lambda>l. l\<lparr>lk_cpu := None\<rparr>))
       (thenK (upd_lock lk (\<lambda>l. l\<lparr>locked := 0\<rparr>)) popcli)))"

section \<open>Nested interrupt disabling\<close>

text \<open>
  The states in which the nesting counter and the interrupt flag agree: while it is
  positive, interrupts are off.
\<close>

definition cli_ok :: "'z cpu_machine_scheme \<Rightarrow> bool" where
  "cli_ok s \<longleftrightarrow> 0 \<le> ncli (cpus s 0) \<and> (0 < ncli (cpus s 0) \<longrightarrow> \<not> IF_on s)"

definition set_ncli :: "int \<Rightarrow> u32 \<Rightarrow> cpu \<Rightarrow> cpu" where
  "set_ncli n i p = p\<lparr>intena := i, ncli := n\<rparr>"

definition saved_if :: "'z cpu_machine_scheme \<Rightarrow> u32" where
  "saved_if s = (if ncli (cpus s 0) = 0 then eflags s AND FL_IF else intena (cpus s 0))"

definition pushed :: "'z cpu_machine_scheme \<Rightarrow> 'z cpu_machine_scheme" where
  "pushed s = s\<lparr>eflags := eflags s AND NOT FL_IF,
     cpus := (cpus s)(0 := set_ncli (ncli (cpus s 0) + 1) (saved_if s) (cpus s 0))\<rparr>"

lemma pushcli_apply: "pushcli s = Ret () (pushed s)"
  by (simp add: pushcli_def readeflags_def cli_def mycpu_def upd_cpu_def set_ncli_def saved_if_def
      pushed_def)

lemma pushed_simps [simp]:
  "\<not> IF_on (pushed s)" "ncli (cpus (pushed s) 0) = ncli (cpus s 0) + 1"
  "intena (cpus (pushed s) 0) = saved_if s" "locks (pushed s) = locks s"
  "eflags (pushed s) AND 512 = 0" "mem (pushed s) = mem s" "kstk (pushed s) = kstk s"
  "cr3 (pushed s) = cr3 s" "io_log (pushed s) = io_log s" "dev8 (pushed s) = dev8 s"
  "dev16 (pushed s) = dev16 s" "dev32 (pushed s) = dev32 s"
  "cpu_machine.more (pushed s) = cpu_machine.more s"
  by (simp_all add: pushed_def IF_on_def set_ncli_def)

lemma cli_ok_pushed: "cli_ok s \<Longrightarrow> cli_ok (pushed s)"
  by (simp add: cli_ok_def)

lemma popcli_apply:
  assumes "\<not> IF_on s" "0 < ncli (cpus s 0)"
  shows "popcli s = Ret () (s\<lparr>
     eflags := (if ncli (cpus s 0) = 1 \<and> intena (cpus s 0) \<noteq> 0 then eflags s OR FL_IF else eflags s),
     cpus := (cpus s)(0 := set_ncli (ncli (cpus s 0) - 1) (intena (cpus s 0)) (cpus s 0))\<rparr>)"
  using assms
  by (simp add: popcli_def readeflags_def mycpu_def upd_cpu_def set_ncli_def IF_on_def sti_def whenK_def)

lemma popcli_interruptible: "IF_on s \<Longrightarrow> popcli s = Panic ''popcli - interruptible'' s"
  by (simp add: popcli_def readeflags_def IF_on_def)

lemma popcli_unmatched:
  assumes "\<not> IF_on s" "ncli (cpus s 0) \<le> 0"
  shows "\<exists>t. popcli s = Panic ''popcli'' t"
  using assms by (simp add: popcli_def readeflags_def mycpu_def upd_cpu_def IF_on_def)

text \<open>A \<open>pushcli\<close> followed by its \<open>popcli\<close> changes nothing but the saved flag.\<close>

definition resave :: "'z cpu_machine_scheme \<Rightarrow> 'z cpu_machine_scheme" where
  "resave s = s\<lparr>cpus := (cpus s)(0 := (cpus s 0)\<lparr>intena := saved_if s\<rparr>)\<rparr>"

lemma holding_apply:
  assumes "cli_ok s"
  shows "holding lk s = Ret (locked (locks s lk) \<noteq> 0 \<and> lk_cpu (locks s lk) = Some 0) (resave s)"
proof -
  have "0 < ncli (cpus (pushed s) 0)" using assms by (simp add: cli_ok_def)
  then have "popcli (pushed s) = Ret () (resave s)"
    using assms
    by (subst popcli_apply)
       (auto simp: resave_def pushed_def set_ncli_def saved_if_def cli_ok_def IF_on_bit and_FL_IF_bit
          bit_and_iff bit_not_512)
  then show ?thesis
    by (simp add: holding_def pushcli_apply mycpu_def readeflags_def)
qed

lemma resave_id: "ncli (cpus s 0) \<noteq> 0 \<Longrightarrow> resave s = s"
  by (simp add: resave_def saved_if_def)

section \<open>Locks\<close>

definition lock_free :: "lock_id \<Rightarrow> 'z cpu_machine_scheme \<Rightarrow> bool" where
  "lock_free lk s \<longleftrightarrow> locked (locks s lk) = 0"

definition lock_held :: "lock_id \<Rightarrow> 'z cpu_machine_scheme \<Rightarrow> bool" where
  "lock_held lk s \<longleftrightarrow> locked (locks s lk) \<noteq> 0 \<and> lk_cpu (locks s lk) = Some 0"

definition acquired :: "lock_id \<Rightarrow> 'z cpu_machine_scheme \<Rightarrow> 'z cpu_machine_scheme" where
  "acquired lk s = (pushed s)\<lparr>
     locks := (locks s)(lk := (locks s lk)\<lparr>locked := 1, lk_cpu := Some 0,
       lk_pcs := getcallerpcs (mem s) (kstk s)\<rparr>)\<rparr>"

definition released :: "lock_id \<Rightarrow> 'z cpu_machine_scheme \<Rightarrow> 'z cpu_machine_scheme" where
  "released lk s = s\<lparr>
     eflags := (if ncli (cpus s 0) = 1 \<and> intena (cpus s 0) \<noteq> 0 then eflags s OR FL_IF else eflags s),
     cpus := (cpus s)(0 := set_ncli (ncli (cpus s 0) - 1) (intena (cpus s 0)) (cpus s 0)),
     locks := (locks s)(lk := (locks s lk)\<lparr>lk_pcs := (lk_pcs (locks s lk))[0 := 0],
       lk_cpu := None, locked := 0\<rparr>)\<rparr>"

lemma acquire_free:
  assumes "cli_ok s" "lock_free lk s"
  shows "acquire lk s = Ret () (acquired lk s)"
proof -
  have "ncli (cpus (pushed s) 0) \<noteq> 0" using assms(1) by (simp add: cli_ok_def)
  then have "holding lk (pushed s) = Ret False (pushed s)"
    using assms by (simp add: holding_apply cli_ok_pushed resave_id lock_free_def)
  then show ?thesis using assms(2)
    by (simp add: acquire_def pushcli_apply xchg_def mycpu_def readeflags_def upd_lock_def
        lock_free_def acquired_def)
qed

lemma acquire_held:
  assumes "cli_ok s" "lock_held lk s"
  shows "\<exists>t. acquire lk s = Panic ''acquire'' t"
  using assms by (simp add: acquire_def pushcli_apply holding_apply cli_ok_pushed lock_held_def)

lemma release_held:
  assumes "cli_ok s" "lock_held lk s" "0 < ncli (cpus s 0)"
  shows "release lk s = Ret () (released lk s)"
proof -
  let ?t = "s\<lparr>locks := (locks s)(lk := (locks s lk)\<lparr>lk_pcs := (lk_pcs (locks s lk))[0 := 0],
       lk_cpu := None, locked := 0\<rparr>)\<rparr>"
  have "holding lk s = Ret True s"
    using assms by (simp add: holding_apply resave_id lock_held_def)
  moreover have "popcli ?t = Ret () (released lk s)"
    using assms by (subst popcli_apply) (auto simp: cli_ok_def IF_on_def released_def)
  ultimately show ?thesis by (simp add: release_def upd_lock_def)
qed

lemma release_not_held:
  assumes "cli_ok s" "\<not> lock_held lk s"
  shows "release lk s = Panic ''release'' (resave s)"
  using assms by (auto simp: release_def holding_apply lock_held_def)

text \<open>What a critical section leaves of the state around it.\<close>

lemma acquired_simps [simp]:
  "mem (acquired lk s) = mem s" "kstk (acquired lk s) = kstk s" "cr3 (acquired lk s) = cr3 s"
  "io_log (acquired lk s) = io_log s" "dev8 (acquired lk s) = dev8 s"
  "dev16 (acquired lk s) = dev16 s" "dev32 (acquired lk s) = dev32 s"
  "cpu_machine.more (acquired lk s) = cpu_machine.more s"
  "\<not> IF_on (acquired lk s)"
  "ncli (cpus (acquired lk s) 0) = ncli (cpus s 0) + 1"
  "intena (cpus (acquired lk s) 0) = saved_if s"
  "lock_held lk (acquired lk s)"
  by (simp_all add: acquired_def IF_on_def set_ncli_def lock_held_def)

lemma acquired_other [simp]:
  "lk' \<noteq> lk \<Longrightarrow> locks (acquired lk s) lk' = locks s lk'"
  "lk' \<noteq> lk \<Longrightarrow> lock_free lk' (acquired lk s) = lock_free lk' s"
  "lk' \<noteq> lk \<Longrightarrow> lock_held lk' (acquired lk s) = lock_held lk' s"
  by (simp_all add: acquired_def lock_free_def lock_held_def)

lemma released_simps [simp]:
  "mem (released lk s) = mem s" "kstk (released lk s) = kstk s" "cr3 (released lk s) = cr3 s"
  "io_log (released lk s) = io_log s" "dev8 (released lk s) = dev8 s"
  "dev16 (released lk s) = dev16 s" "dev32 (released lk s) = dev32 s"
  "cpu_machine.more (released lk s) = cpu_machine.more s"
  "ncli (cpus (released lk s) 0) = ncli (cpus s 0) - 1"
  "intena (cpus (released lk s) 0) = intena (cpus s 0)"
  "lock_free lk (released lk s)"
  by (simp_all add: released_def set_ncli_def lock_free_def)

lemma released_other [simp]:
  "lk' \<noteq> lk \<Longrightarrow> locks (released lk s) lk' = locks s lk'"
  "lk' \<noteq> lk \<Longrightarrow> lock_free lk' (released lk s) = lock_free lk' s"
  "lk' \<noteq> lk \<Longrightarrow> lock_held lk' (released lk s) = lock_held lk' s"
  by (simp_all add: released_def lock_free_def lock_held_def)

lemma cli_ok_acquired [simp]: "cli_ok s \<Longrightarrow> cli_ok (acquired lk s)"
  by (auto simp: cli_ok_def)

lemma cli_ok_released:
  "cli_ok s \<Longrightarrow> 0 < ncli (cpus s 0) \<Longrightarrow> cli_ok (released lk s)"
  by (auto simp: cli_ok_def released_def IF_on_def set_ncli_def)

section \<open>Lock discipline\<close>

text \<open>
  \<open>sync_ok\<close>: every lock is free or held by this processor, and the nesting counter
  covers at least the locks held. It is the invariant that all code obeying the
  discipline (pop only what was pushed) maintains.
\<close>

definition held_locks :: "'z cpu_machine_scheme \<Rightarrow> lock_id set" where
  "held_locks s = {lk. lock_held lk s}"

definition sync_ok :: "'z cpu_machine_scheme \<Rightarrow> bool" where
  "sync_ok s \<longleftrightarrow> cli_ok s \<and> (\<forall>lk. lock_free lk s \<or> lock_held lk s) \<and>
     int (card (held_locks s)) \<le> ncli (cpus s 0)"

inductive sync_step :: "'z cpu_machine_scheme \<Rightarrow> 'z cpu_machine_scheme \<Rightarrow> bool" where
  push: "pushcli s = Ret () t \<Longrightarrow> sync_step s t"
| pop: "int (card (held_locks s)) < ncli (cpus s 0) \<Longrightarrow> popcli s = Ret () t \<Longrightarrow> sync_step s t"
| acq: "acquire lk s = Ret () t \<Longrightarrow> sync_step s t"
| rel: "release lk s = Ret () t \<Longrightarrow> sync_step s t"

lemma UNIV_lock_id: "UNIV = {ConsLock, KmemLock, PtableLock, IdeLock}"
  by (auto intro: lock_id.exhaust)

lemma finite_locks [simp]: "finite (A :: lock_id set)"
  by (rule finite_subset [OF subset_UNIV]) (simp add: UNIV_lock_id)

lemma lock_free_not_held: "lock_free lk s \<Longrightarrow> \<not> lock_held lk s"
  by (simp add: lock_free_def lock_held_def)

lemma held_locks_acquired: "held_locks (acquired lk s) = insert lk (held_locks s)"
  by (auto simp: held_locks_def acquired_def lock_held_def)

lemma held_locks_released: "held_locks (released lk s) = held_locks s - {lk}"
  by (auto simp: held_locks_def released_def lock_held_def)

lemma sync_ok_held_ncli: "sync_ok s \<Longrightarrow> lock_held lk s \<Longrightarrow> 0 < ncli (cpus s 0)"
  by (fastforce simp: sync_ok_def held_locks_def card_gt_0_iff
      intro: less_le_trans [of 0 "int (card (held_locks s))"])

lemma sync_ok_acquired:
  assumes "sync_ok s" "lock_free lk s"
  shows "sync_ok (acquired lk s)"
proof -
  have "lk \<notin> held_locks s" using assms(2) by (simp add: held_locks_def lock_free_not_held)
  moreover have "lock_free l (acquired lk s) \<or> lock_held l (acquired lk s)" for l
    using assms(1) by (cases "l = lk") (auto simp: sync_ok_def)
  ultimately show ?thesis using assms(1) by (auto simp: sync_ok_def held_locks_acquired)
qed

lemma sync_ok_released:
  assumes "sync_ok s" "lock_held lk s"
  shows "sync_ok (released lk s)"
proof -
  have "lk \<in> held_locks s" using assms(2) by (simp add: held_locks_def)
  then have "card (held_locks s - {lk}) < card (held_locks s)" by (intro card_Diff1_less) simp_all
  moreover have "lock_free l (released lk s) \<or> lock_held l (released lk s)" for l
    using assms(1) by (cases "l = lk") (auto simp: sync_ok_def)
  moreover have "cli_ok (released lk s)"
    using assms by (auto simp: sync_ok_def intro!: cli_ok_released sync_ok_held_ncli)
  ultimately show ?thesis using assms(1) by (auto simp: sync_ok_def held_locks_released)
qed

lemma sync_ok_cong:
  "locks t = locks s \<Longrightarrow> cli_ok t \<Longrightarrow> int (card (held_locks s)) \<le> ncli (cpus t 0) \<Longrightarrow>
     sync_ok s \<Longrightarrow> sync_ok t"
  by (simp add: sync_ok_def held_locks_def lock_free_def lock_held_def)

lemma sync_step_ok:
  assumes "sync_step s t" "sync_ok s"
  shows "sync_ok t"
  using assms
proof (induction rule: sync_step.induct)
  case (push s t)
  then have "t = pushed s" by (simp add: pushcli_apply)
  then show ?case using push.prems
    by (intro sync_ok_cong [of t s]) (simp_all add: cli_ok_pushed sync_ok_def)
next
  case (pop s t)
  then have off: "\<not> IF_on s" and pos: "0 < ncli (cpus s 0)"
    by (auto simp: sync_ok_def cli_ok_def)
  have t: "t = s\<lparr>
     eflags := (if ncli (cpus s 0) = 1 \<and> intena (cpus s 0) \<noteq> 0 then eflags s OR FL_IF else eflags s),
     cpus := (cpus s)(0 := set_ncli (ncli (cpus s 0) - 1) (intena (cpus s 0)) (cpus s 0))\<rparr>"
    using pop.hyps(2) by (simp add: popcli_apply [OF off pos])
  have "cli_ok t" using off pos by (auto simp: t cli_ok_def set_ncli_def IF_on_def)
  then show ?case using pop
    by (intro sync_ok_cong [of t s]) (auto simp: t set_ncli_def)
next
  case (acq lk s t)
  then consider "lock_free lk s" | "lock_held lk s" by (auto simp: sync_ok_def)
  then show ?case
  proof cases
    case 1
    with acq have "t = acquired lk s" by (simp add: acquire_free sync_ok_def)
    with 1 acq show ?thesis by (simp add: sync_ok_acquired)
  next
    case 2
    with acq show ?thesis using acquire_held [of s lk] by (auto simp: sync_ok_def)
  qed
next
  case (rel lk s t)
  have "lock_held lk s"
    using rel release_not_held [of s lk] by (auto simp: sync_ok_def)
  moreover from this have "t = released lk s"
    using rel sync_ok_held_ncli [of s lk] by (simp add: release_held sync_ok_def)
  ultimately show ?case using rel by (simp add: sync_ok_released)
qed

lemma sync_steps_ok: "sync_step\<^sup>*\<^sup>* s t \<Longrightarrow> sync_ok s \<Longrightarrow> sync_ok t"
  by (induction rule: rtranclp_induct) (auto intro: sync_step_ok)

section \<open>Balanced use of the locks\<close>

text \<open>
  \<open>same_sync s t\<close>: interrupts, nesting depth and locks are in \<open>t\<close> as in \<open>s\<close>. Code that
  releases what it acquired has this effect; it may change the flag saved for the
  outermost \<open>popcli\<close> and the call chain recorded in a lock.
\<close>

definition same_sync :: "'z cpu_machine_scheme \<Rightarrow> 'z cpu_machine_scheme \<Rightarrow> bool" where
  "same_sync s t \<longleftrightarrow> eflags t = eflags s \<and>
     (\<forall>k. (cpus t k)\<lparr>intena := 0\<rparr> = (cpus s k)\<lparr>intena := 0\<rparr>) \<and>
     (\<forall>lk. lock_free lk t = lock_free lk s \<and> lock_held lk t = lock_held lk s)"

lemma same_sync_refl [simp]: "same_sync s s"
  by (simp add: same_sync_def)

lemma same_sync_trans: "same_sync s t \<Longrightarrow> same_sync t u \<Longrightarrow> same_sync s u"
  by (simp add: same_sync_def)

lemma same_sync_eq: "eflags t = eflags s \<Longrightarrow> cpus t = cpus s \<Longrightarrow> locks t = locks s \<Longrightarrow> same_sync s t"
  by (simp add: same_sync_def lock_free_def lock_held_def)

lemma intena_eqD: "p\<lparr>intena := 0\<rparr> = q\<lparr>intena := 0\<rparr> \<Longrightarrow> ncli p = ncli q"
  by (drule arg_cong [of _ _ ncli]) simp

lemma same_sync_ncli: "same_sync s t \<Longrightarrow> ncli (cpus t k) = ncli (cpus s k)"
  unfolding same_sync_def by (blast intro: intena_eqD)

lemma same_sync_ok: "same_sync s t \<Longrightarrow> sync_ok t = sync_ok s"
  using same_sync_ncli [of s t 0]
  by (simp add: same_sync_def sync_ok_def cli_ok_def IF_on_def held_locks_def)

lemma section_same_sync:
  assumes ok: "cli_ok s" and free: "lock_free lk s"
    and body: "eflags u = eflags (acquired lk s)" "cpus u = cpus (acquired lk s)"
      "locks u = locks (acquired lk s)"
  shows "same_sync s (released lk u)"
proof -
  have "eflags (released lk u) = eflags s"
    using ok body
    by (auto simp: released_def acquired_def pushed_def set_ncli_def saved_if_def cli_ok_def IF_on_bit
        and_FL_IF_bit bit_and_iff bit_not_512 intro!: bit_word_eqI)
  moreover have "(cpus (released lk u) k)\<lparr>intena := 0\<rparr> = (cpus s k)\<lparr>intena := 0\<rparr>" for k
    using body by (simp add: released_def acquired_def pushed_def set_ncli_def)
  moreover have "lock_free l (released lk u) = lock_free l s" "lock_held l (released lk u) = lock_held l s" for l
    using body free by (auto simp: released_def acquired_def lock_free_def lock_held_def)
  ultimately show ?thesis by (simp add: same_sync_def)
qed

section \<open>The mutex interface\<close>

text \<open>
  What a client of the locks relies on: taking a free lock returns and marks it held,
  releasing a held lock returns and frees it, misuse panics, and neither touches the
  client's data (\<open>obs\<close>) or another lock.
\<close>

locale mutex =
  fixes acq :: "'l \<Rightarrow> (unit, 's) kern"
    and rel :: "'l \<Rightarrow> (unit, 's) kern"
    and free :: "'l \<Rightarrow> 's \<Rightarrow> bool"
    and held :: "'l \<Rightarrow> 's \<Rightarrow> bool"
    and ready :: "'s \<Rightarrow> bool"
    and obs :: "'s \<Rightarrow> 'o"
  assumes acq_free: "ready s \<Longrightarrow> free l s \<Longrightarrow>
      \<exists>t. acq l s = Ret () t \<and> ready t \<and> held l t \<and> obs t = obs s \<and>
        (\<forall>k. k \<noteq> l \<longrightarrow> free k t = free k s \<and> held k t = held k s)"
    and acq_held: "ready s \<Longrightarrow> held l s \<Longrightarrow> \<exists>e t. acq l s = Panic e t"
    and rel_held: "ready s \<Longrightarrow> held l s \<Longrightarrow>
      \<exists>t. rel l s = Ret () t \<and> ready t \<and> free l t \<and> obs t = obs s \<and>
        (\<forall>k. k \<noteq> l \<longrightarrow> free k t = free k s \<and> held k t = held k s)"
    and rel_free: "ready s \<Longrightarrow> free l s \<Longrightarrow> \<exists>e t. rel l s = Panic e t"
    and free_or_held: "ready s \<Longrightarrow> free l s \<or> held l s"
begin

text \<open>A critical section whose body returns, keeps the lock and stays ready returns with
  the lock free again and the body's effect on the data.\<close>

lemma critical_section:
  assumes "ready s" "free l s"
    and body: "\<And>t. ready t \<Longrightarrow> held l t \<Longrightarrow> obs t = obs s \<Longrightarrow>
      \<exists>x u. body t = Ret x u \<and> ready u \<and> held l u \<and> Q x (obs u)"
  shows "\<exists>x u. thenK (acq l) (bindK body (\<lambda>x. thenK (rel l) (retK x))) s = Ret x u \<and>
    ready u \<and> free l u \<and> Q x (obs u)"
proof -
  obtain t where t: "acq l s = Ret () t" "ready t" "held l t" "obs t = obs s"
    using acq_free [OF assms(1,2)] by blast
  obtain x u where u: "body t = Ret x u" "ready u" "held l u" "Q x (obs u)"
    using body t by blast
  obtain v where v: "rel l u = Ret () v" "ready v" "free l v" "obs v = obs u"
    using rel_held [OF u(2,3)] by blast
  have "bindK body (\<lambda>x. thenK (rel l) (retK x)) t = Ret x v"
    using u(1) v(1) by (simp add: bindK_def)
  then show ?thesis using t(1) v u(4) by simp
qed

text \<open>Taking a list of distinct free locks in turn never fails; each ends up held.\<close>

lemma acquire_all:
  "ready s \<Longrightarrow> distinct ls \<Longrightarrow> (\<And>l. l \<in> set ls \<Longrightarrow> free l s) \<Longrightarrow>
    \<exists>t. forK ls acq s = Ret () t \<and> ready t \<and> obs t = obs s \<and> (\<forall>l \<in> set ls. held l t) \<and>
      (\<forall>k. k \<notin> set ls \<longrightarrow> free k t = free k s \<and> held k t = held k s)"
proof (induction ls arbitrary: s)
  case (Cons l ls)
  obtain t where t: "acq l s = Ret () t" "ready t" "held l t" "obs t = obs s"
    and other: "\<And>k. k \<noteq> l \<Longrightarrow> free k t = free k s \<and> held k t = held k s"
    using acq_free [of s l] Cons.prems by auto
  have "free k t" if "k \<in> set ls" for k
    using that other [of k] Cons.prems by auto
  then obtain u where "forK ls acq t = Ret () u" "ready u" "obs u = obs t"
    "\<forall>l \<in> set ls. held l u" "\<forall>k. k \<notin> set ls \<longrightarrow> free k u = free k t \<and> held k u = held k t"
    using Cons.IH [of t] t Cons.prems by auto
  then show ?case using t other Cons.prems by (intro exI [of _ u]) auto
qed simp

end

interpretation spin: mutex acquire release lock_free lock_held sync_ok
  "\<lambda>s. (mem s, cr3 s, io_log s, cpu_machine.more s)"
proof
  fix s :: "'z cpu_machine_scheme" and l
  assume ok: "sync_ok s"
  show "\<exists>t. acquire l s = Ret () t \<and> sync_ok t \<and> lock_held l t \<and>
      (mem t, cr3 t, io_log t, cpu_machine.more t) = (mem s, cr3 s, io_log s, cpu_machine.more s) \<and>
      (\<forall>k. k \<noteq> l \<longrightarrow> lock_free k t = lock_free k s \<and> lock_held k t = lock_held k s)"
    if "lock_free l s"
    using ok that
    by (intro exI [of _ "acquired l s"]) (simp add: acquire_free sync_ok_acquired sync_ok_def [of s])
  show "\<exists>e t. acquire l s = Panic e t" if "lock_held l s"
    using acquire_held [of s l] that ok by (auto simp: sync_ok_def)
  show "\<exists>t. release l s = Ret () t \<and> sync_ok t \<and> lock_free l t \<and>
      (mem t, cr3 t, io_log t, cpu_machine.more t) = (mem s, cr3 s, io_log s, cpu_machine.more s) \<and>
      (\<forall>k. k \<noteq> l \<longrightarrow> lock_free k t = lock_free k s \<and> lock_held k t = lock_held k s)"
    if "lock_held l s"
    using ok that sync_ok_held_ncli [OF ok that]
    by (intro exI [of _ "released l s"]) (simp add: release_held sync_ok_released sync_ok_def [of s])
  show "\<exists>e t. release l s = Panic e t" if "lock_free l s"
    using release_not_held [of s l] that ok by (simp add: sync_ok_def lock_free_not_held)
  show "lock_free l s \<or> lock_held l s" using ok by (simp add: sync_ok_def)
qed

section \<open>Start-up state\<close>

text \<open>The statically allocated data is zero-initialised; interrupts are off at boot.\<close>

definition zero_ts :: taskstate where
  "zero_ts = \<lparr>ts_link = 0, ts_esp0 = 0, ts_ss0 = 0, ts_esp1 = 0, ts_ss1 = 0, ts_esp2 = 0,
     ts_ss2 = 0, ts_cr3 = 0, ts_eip = 0, ts_eflags = 0, ts_eax = 0, ts_ecx = 0, ts_edx = 0,
     ts_ebx = 0, ts_esp = 0, ts_ebp = 0, ts_esi = 0, ts_edi = 0, ts_es = 0, ts_cs = 0,
     ts_ss = 0, ts_ds = 0, ts_fs = 0, ts_gs = 0, ts_ldt = 0, ts_t = 0, ts_iomb = 0\<rparr>"

definition zero_seg :: segdesc where
  "zero_seg = \<lparr>limit_lo = 0, base_lo = 0, base_mi = 0, access = 0, seg_flags = 0, base_hi = 0\<rparr>"

definition zero_cpu :: cpu where
  "zero_cpu = \<lparr>apicid = 0, cpu_scheduler = 0, cpu_ts = zero_ts,
     cpu_gdt = replicate NSEGS zero_seg, ncli = 0, intena = 0, cpu_proc = None\<rparr>"

definition zero_lock :: spinlock where
  "zero_lock = \<lparr>locked = 0, lk_name = [], lk_cpu = None, lk_pcs = replicate 10 0\<rparr>"

definition boot_machine :: cpu_machine where
  "boot_machine = \<lparr>mem = (\<lambda>_. 0), eflags = 2, cr3 = 0, kstk = 0x80104000, io_log = [],
     dev8 = (\<lambda>_ _. 0), dev16 = (\<lambda>_ _. 0), dev32 = (\<lambda>_ _. 0),
     cpus = (\<lambda>_. zero_cpu), locks = (\<lambda>_. zero_lock)\<rparr>"

lemma held_locks_none: "(\<And>lk. lock_free lk s) \<Longrightarrow> held_locks s = {}"
  by (auto simp: held_locks_def dest: lock_free_not_held)

lemma boot_machine_free: "lock_free lk boot_machine"
  by (simp add: lock_free_def boot_machine_def zero_lock_def)

lemma boot_machine_sync: "sync_ok boot_machine"
  by (auto simp: sync_ok_def boot_machine_free held_locks_none)
     (simp_all add: cli_ok_def boot_machine_def zero_cpu_def)

section \<open>Properties\<close>

lemma seqK_append: "seqK (ms @ ns) = thenK (seqK ms) (seqK ns)"
  by (induction ms) (auto simp: fun_eq_iff thenK_def bindK_def split: outcome.splits)

lemma popcli_pushed: "cli_ok s \<Longrightarrow> popcli (pushed s) = Ret () (resave s)"
  by (subst popcli_apply)
     (auto simp: resave_def pushed_def set_ncli_def saved_if_def cli_ok_def IF_on_bit and_FL_IF_bit
       bit_and_iff bit_not_512)

lemma nested_cli:
  "cli_ok s \<Longrightarrow> seqK (replicate n pushcli @ replicate n popcli) s = Ret () (if n = 0 then s else resave s)"
proof (induction n arbitrary: s)
  case (Suc n)
  have shape: "replicate (Suc n) pushcli @ replicate (Suc n) popcli =
      pushcli # ((replicate n pushcli @ replicate n popcli) @ [popcli])"
    by (simp add: replicate_append_same)
  have "ncli (cpus (pushed s) 0) \<noteq> 0" using Suc.prems by (simp add: cli_ok_def)
  then have "seqK (replicate n pushcli @ replicate n popcli) (pushed s) = Ret () (pushed s)"
    using Suc.IH [of "pushed s"] Suc.prems by (simp add: cli_ok_pushed resave_id)
  then show ?case using Suc.prems
    by (simp only: shape seqK.simps seqK_append [of "replicate n pushcli @ replicate n popcli"])
       (simp add: pushcli_apply popcli_pushed)
qed simp



text \<open>C15: the outcomes of \<open>acquire\<close> on every branch. On a free lock it returns with the lock
  taken by this processor and interrupts off; on a lock this processor already holds it
  panics; on a lock recorded for someone else it never returns.\<close>

theorem acquire_outcome:
  assumes "cli_ok s"
  shows "(lock_free lk s \<longrightarrow> (\<exists>t. acquire lk s = Ret () t \<and> lock_held lk t \<and> \<not> IF_on t \<and>
            ncli (cpus t 0) = ncli (cpus s 0) + 1)) \<and>
    (lock_held lk s \<longrightarrow> (\<exists>t. acquire lk s = Panic ''acquire'' t)) \<and>
    (\<not> lock_free lk s \<and> \<not> lock_held lk s \<longrightarrow> acquire lk s = Hang)"
proof (intro conjI impI)
  show "\<exists>t. acquire lk s = Ret () t \<and> lock_held lk t \<and> \<not> IF_on t \<and>
      ncli (cpus t 0) = ncli (cpus s 0) + 1" if "lock_free lk s"
    using assms that by (simp add: acquire_free)
  show "\<exists>t. acquire lk s = Panic ''acquire'' t" if "lock_held lk s"
    using assms that by (rule acquire_held)
  show "acquire lk s = Hang" if "\<not> lock_free lk s \<and> \<not> lock_held lk s"
  proof -
    have "ncli (cpus (pushed s) 0) \<noteq> 0" using assms by (simp add: cli_ok_def)
    then have "holding lk (pushed s) = Ret False (pushed s)"
      using assms that by (auto simp: holding_apply cli_ok_pushed resave_id lock_held_def lock_free_def)
    then show ?thesis using that
      by (simp add: acquire_def pushcli_apply xchg_def lock_free_def)
  qed
qed

theorem acquire_outcome_witness:
  "\<exists>t. acquire KmemLock boot_machine = Ret () t \<and> lock_held KmemLock t \<and> \<not> IF_on t"
  using acquire_outcome [of boot_machine KmemLock] boot_machine_sync boot_machine_free [of KmemLock]
  by (auto simp: sync_ok_def)

text \<open>C8: the lock discipline is inductive. In every state reached from a consistent one
  by matched interrupt nesting and lock operations, a processor that holds any lock has
  interrupts disabled (so no interrupt handler can run into the lock), and taking a lock
  never spins forever: it returns or panics.\<close>

theorem held_lock_means_interrupts_off:
  assumes "sync_ok s" and "sync_step\<^sup>*\<^sup>* s t"
  shows "(lock_held lk t \<longrightarrow> \<not> IF_on t) \<and> acquire lk' t \<noteq> Hang"
proof -
  have ok: "sync_ok t" using assms by (auto intro: sync_steps_ok)
  have "\<not> IF_on t" if "lock_held lk t"
    using sync_ok_held_ncli [OF ok that] ok by (simp add: sync_ok_def cli_ok_def)
  moreover have "acquire lk' t \<noteq> Hang"
    using spin.free_or_held [OF ok, of lk'] spin.acq_free [OF ok] spin.acq_held [OF ok] by force
  ultimately show ?thesis by simp
qed

theorem held_lock_means_interrupts_off_witness:
  "lock_held KmemLock (acquired KmemLock boot_machine) \<and> \<not> IF_on (acquired KmemLock boot_machine) \<and>
   acquire ConsLock (acquired KmemLock boot_machine) \<noteq> Hang"
proof -
  have "acquire KmemLock boot_machine = Ret () (acquired KmemLock boot_machine)"
    using boot_machine_sync by (simp add: acquire_free boot_machine_free sync_ok_def)
  then have "sync_step\<^sup>*\<^sup>* boot_machine (acquired KmemLock boot_machine)"
    by (auto intro: sync_step.acq)
  from held_lock_means_interrupts_off [OF boot_machine_sync this, of KmemLock ConsLock]
  show ?thesis by simp
qed

end
