(* ===== verification/LibString.thy ===== *)
theory LibString
  imports Mem
begin

text \<open>
  The memory and string routines of \<^verbatim>\<open>kernel/lib/string.c\<close>, over a byte memory. A routine
  that writes returns the new memory together with the pointer the C function returns.
  A \<open>size_t\<close> count is a 32-bit word; the loops \<open>while (count-- > 0)\<close> run exactly
  \<open>unat count\<close> times and are structural recursions on that number. \<open>strlen\<close> has no
  bound in the source, so not returning is the value \<open>None\<close>. The compiler's
  \<open>char\<close> is signed, which is what \<open>memcmp\<close> and \<open>strncmp\<close> compare with.
\<close>

section \<open>Definitions\<close>

primrec memset_loop :: "memory \<Rightarrow> addr \<Rightarrow> u8 \<Rightarrow> nat \<Rightarrow> memory" where
  "memset_loop m dst_copy c 0 = m"
| "memset_loop m dst_copy c (Suc n) = memset_loop (m(dst_copy := c)) (dst_copy + 1) c n"

definition memset :: "memory \<Rightarrow> addr \<Rightarrow> u8 \<Rightarrow> u32 \<Rightarrow> addr \<times> memory" where
  "memset m dst c count = (dst, memset_loop m dst c (unat count))"

primrec memcpy_loop :: "memory \<Rightarrow> addr \<Rightarrow> addr \<Rightarrow> nat \<Rightarrow> memory" where
  "memcpy_loop m dst_copy src_copy 0 = m"
| "memcpy_loop m dst_copy src_copy (Suc n) =
     memcpy_loop (m(dst_copy := m src_copy)) (dst_copy + 1) (src_copy + 1) n"

definition memcpy :: "memory \<Rightarrow> addr \<Rightarrow> addr \<Rightarrow> u32 \<Rightarrow> addr \<times> memory" where
  "memcpy m dst src count = (dst, memcpy_loop m dst src (unat count))"

primrec memmove_loop :: "memory \<Rightarrow> addr \<Rightarrow> addr \<Rightarrow> nat \<Rightarrow> memory" where
  "memmove_loop m dst_copy src_copy 0 = m"
| "memmove_loop m dst_copy src_copy (Suc n) =
     memmove_loop (m(dst_copy := m src_copy)) (dst_copy - 1) (src_copy - 1) n"

definition memmove :: "memory \<Rightarrow> addr \<Rightarrow> addr \<Rightarrow> u32 \<Rightarrow> addr \<times> memory" where
  "memmove m dst src count =
     (if count \<le> dst - src then memcpy m dst src count
      else (dst, memmove_loop m (dst + count) (src + count) (unat count)))"

primrec memcmp_loop :: "memory \<Rightarrow> addr \<Rightarrow> addr \<Rightarrow> u8 \<Rightarrow> u8 \<Rightarrow> nat \<Rightarrow> int" where
  "memcmp_loop m ptr1 ptr2 b1 b2 0 = sint b1 - sint b2"
| "memcmp_loop m ptr1 ptr2 b1 b2 (Suc n) =
     (if m ptr1 \<noteq> m ptr2 then sint (m ptr1) - sint (m ptr2)
      else memcmp_loop m (ptr1 + 1) (ptr2 + 1) (m ptr1) (m ptr2) n)"

definition memcmp :: "memory \<Rightarrow> addr \<Rightarrow> addr \<Rightarrow> u32 \<Rightarrow> int" where
  "memcmp m ptr1 ptr2 count = memcmp_loop m ptr1 ptr2 0 0 (unat count)"

partial_function (option) strlen_loop :: "memory \<Rightarrow> addr \<Rightarrow> u32 \<Rightarrow> u32 option" where
  "strlen_loop m str len =
     (if m (str + len) \<noteq> 0 then strlen_loop m str (len + 1) else Some len)"

definition strlen :: "memory \<Rightarrow> addr \<Rightarrow> u32 option" where
  "strlen m str = strlen_loop m str 0"

primrec strnlen_loop :: "memory \<Rightarrow> addr \<Rightarrow> u32 \<Rightarrow> nat \<Rightarrow> u32" where
  "strnlen_loop m str len 0 = len"
| "strnlen_loop m str len (Suc n) =
     (if m (str + len) \<noteq> 0 then strnlen_loop m str (len + 1) n else len)"

definition strnlen :: "memory \<Rightarrow> addr \<Rightarrow> u32 \<Rightarrow> u32" where
  "strnlen m str count = strnlen_loop m str 0 (unat count)"

primrec strncmp_loop :: "memory \<Rightarrow> addr \<Rightarrow> addr \<Rightarrow> u8 \<Rightarrow> u8 \<Rightarrow> nat \<Rightarrow> int" where
  "strncmp_loop m str1 str2 c1 c2 0 = sint c1 - sint c2"
| "strncmp_loop m str1 str2 c1 c2 (Suc n) =
     (if m str1 = 0 \<or> m str1 \<noteq> m str2 then sint (m str1) - sint (m str2)
      else strncmp_loop m (str1 + 1) (str2 + 1) (m str1) (m str2) n)"

definition strncmp :: "memory \<Rightarrow> addr \<Rightarrow> addr \<Rightarrow> u32 \<Rightarrow> int" where
  "strncmp m str1 str2 count = strncmp_loop m str1 str2 0 0 (unat count)"

definition strncpy :: "memory \<Rightarrow> addr \<Rightarrow> addr \<Rightarrow> u32 \<Rightarrow> addr \<times> memory" where
  "strncpy m dst src count =
     (let size = strnlen m src count;
          m1 = (if size \<noteq> count then snd (memset m (dst + size) 0 (count - size)) else m);
          m2 = m1(dst + size := 0)
      in memcpy m2 dst src size)"

definition strncat :: "memory \<Rightarrow> addr \<Rightarrow> addr \<Rightarrow> u32 \<Rightarrow> (addr \<times> memory) option" where
  "strncat m dst src count =
     (case strlen m dst of
        None \<Rightarrow> None
      | Some l \<Rightarrow>
          (let d = dst + l;
               size = strnlen m src count;
               m1 = m(d + size := 0)
           in Some (dst, snd (memcpy m1 d src size))))"

section \<open>Memory blocks\<close>

lemma in_region_0 [simp]: "\<not> in_region d 0 a"
  by (simp add: in_region_def)

lemma in_region_Suc:
  assumes "n < 4294967296"
  shows "in_region d (Suc n) a \<longleftrightarrow> a = d \<or> in_region (d + 1) n a"
proof (cases "a = d")
  case True
  then show ?thesis by (simp add: in_region_def)
next
  case False
  then have "unat (a - d) \<noteq> 0" by (simp add: unat_eq_zero)
  moreover have "unat (a - (d + 1)) = unat (a - d) - 1"
  proof -
    have "a - (d + 1) = (a - d) - 1" by simp
    also have "unat \<dots> = unat (a - d) - 1"
      using \<open>unat (a - d) \<noteq> 0\<close> by (subst unat_sub32) simp
    finally show ?thesis .
  qed
  ultimately show ?thesis using False by (auto simp: in_region_def)
qed

lemma memset_loop_eq:
  "n \<le> 4294967296 \<Longrightarrow> memset_loop m d c n = (\<lambda>a. if in_region d n a then c else m a)"
proof (induction n arbitrary: m d)
  case (Suc n)
  then show ?case by (auto simp: in_region_Suc fun_eq_iff)
qed simp

lemma memset_eq:
  "snd (memset m d c n) = (\<lambda>a. if in_region d (unat n) a then c else m a)"
  using unat_lt32 [of n] by (simp add: memset_def memset_loop_eq)

lemma not_in_region_before:
  assumes "n < 4294967296"
  shows "\<not> in_region (d + 1) n d"
proof -
  have "d - (d + 1) = (- 1 :: addr)" by simp
  then have "unat (d - (d + 1)) = 4294967295" using unat_sub32 [of 0 1] by simp
  then show ?thesis using assms by (simp add: in_region_def)
qed

lemma memcpy_loop_forward:
  "n \<le> unat (d - s) \<Longrightarrow>
     memcpy_loop m d s n = (\<lambda>a. if in_region d n a then m (s + (a - d)) else m a)"
proof (induction n arbitrary: m d s)
  case (Suc n)
  let ?m = "m(d := m s)"
  have n: "n < 4294967296" using Suc.prems unat_lt32 [of "d - s"] by linarith
  have off: "s + 1 + (a - (d + 1)) = s + (a - d)" for a by simp
  have IH: "memcpy_loop ?m (d + 1) (s + 1) n =
      (\<lambda>a. if in_region (d + 1) n a then ?m (s + 1 + (a - (d + 1))) else ?m a)"
    using Suc.prems by (intro Suc.IH) simp
  have unread: "?m (s + (a - d)) = m (s + (a - d))" if "in_region (d + 1) n a" for a
  proof -
    have "in_region d (Suc n) a" using that n by (simp add: in_region_Suc)
    then have "unat (a - d) < unat (d - s)" using Suc.prems by (simp add: in_region_def)
    then have "a - d \<noteq> d - s" by auto
    then have "s + (a - d) \<noteq> d" by (auto simp: algebra_simps)
    then show ?thesis by simp
  qed
  show ?case
  proof
    fix a
    show "memcpy_loop m d s (Suc n) a = (if in_region d (Suc n) a then m (s + (a - d)) else m a)"
    proof (cases "a = d")
      case True
      then show ?thesis using n by (simp add: IH in_region_Suc not_in_region_before)
    next
      case False
      have "memcpy_loop m d s (Suc n) a =
          (if in_region (d + 1) n a then ?m (s + (a - d)) else ?m a)"
        by (simp only: memcpy_loop.simps IH off)
      then show ?thesis using False unread [of a] n by (simp add: in_region_Suc)
    qed
  qed
qed simp

lemma memcpy_forward:
  assumes "count \<le> dst - src"
  shows "snd (memcpy m dst src count) =
    (\<lambda>a. if in_region dst (unat count) a then m (src + (a - dst)) else m a)"
  using assms by (simp add: memcpy_def memcpy_loop_forward word_le_nat_alt)

lemma memcpy_disjoint:
  assumes "disjoint_regions dst (unat count) src (unat count)"
  shows "snd (memcpy m dst src count) =
    (\<lambda>a. if in_region dst (unat count) a then m (src + (a - dst)) else m a)"
  using assms by (intro memcpy_forward) (simp add: disjoint_regions_def word_le_nat_alt)

lemma in_region_Suc_last:
  assumes "n < 4294967296"
  shows "in_region d (Suc n) a \<longleftrightarrow> in_region d n a \<or> a = d + of_nat n"
proof -
  have "unat (a - d) = n \<longleftrightarrow> a = d + of_nat n"
    using unat_eq_iff32 [OF assms, of "a - d"] by (auto simp: algebra_simps)
  then show ?thesis by (auto simp: in_region_def less_Suc_eq)
qed

text \<open>
  The overlapping branch of \<open>memmove\<close> starts one byte past the end of both regions,
  so it moves the bytes \<open>1..count\<close> instead of \<open>0..count-1\<close>.
\<close>

lemma memmove_loop_backward:
  "unat (d - s) + n \<le> 4294967296 \<Longrightarrow> n < 4294967296 \<Longrightarrow>
     memmove_loop m (d + of_nat n) (s + of_nat n) n =
       (\<lambda>a. if in_region (d + 1) n a then m (s + (a - d)) else m a)"
proof (induction n arbitrary: m)
  case (Suc n)
  let ?N = "of_nat (Suc n) :: addr"
  let ?m = "m(d + ?N := m (s + ?N))"
  have pred: "d + ?N - 1 = d + of_nat n" "s + ?N - 1 = s + of_nat n" by simp_all
  have top: "d + 1 + of_nat n = d + ?N" by simp
  have IH: "memmove_loop ?m (d + of_nat n) (s + of_nat n) n =
      (\<lambda>a. if in_region (d + 1) n a then ?m (s + (a - d)) else ?m a)"
    using Suc.prems by (intro Suc.IH) simp_all
  have unread: "?m (s + (a - d)) = m (s + (a - d))" if r: "in_region (d + 1) n a" for a
  proof -
    obtain j where j: "j < n" "a = d + 1 + of_nat j"
      using r Suc.prems by (auto simp: in_region_iff)
    have "s + (a - d) \<noteq> d + ?N"
    proof
      assume "s + (a - d) = d + ?N"
      then have "d - s = of_nat (Suc j) - ?N" using j by (simp add: algebra_simps)
      also have "unat \<dots> = Suc j + 4294967296 - Suc n"
        using Suc.prems j by (subst unat_sub32) (simp add: unat_of_nat32 del: of_nat_Suc)
      finally show False using Suc.prems by simp
    qed
    then show ?thesis by simp
  qed
  have step: "memmove_loop m (d + ?N) (s + ?N) (Suc n) a =
      (if in_region (d + 1) n a then ?m (s + (a - d)) else ?m a)" for a
    by (simp only: memmove_loop.simps pred IH)
  show ?case
  proof
    fix a
    have "in_region (d + 1) (Suc n) a \<longleftrightarrow> in_region (d + 1) n a \<or> a = d + ?N"
      using Suc.prems in_region_Suc_last [of n "d + 1" a] by (simp only: top)
    then show "memmove_loop m (d + ?N) (s + ?N) (Suc n) a =
        (if in_region (d + 1) (Suc n) a then m (s + (a - d)) else m a)"
      using unread [of a] by (simp only: step) auto
  qed
qed simp

lemma memmove_backward:
  assumes "dst - src < count" and "unat count \<le> 2147483648"
  shows "snd (memmove m dst src count) =
    (\<lambda>a. if in_region (dst + 1) (unat count) a then m (src + (a - dst)) else m a)"
proof -
  have "unat (dst - src) + unat count \<le> 4294967296"
    using assms by (simp add: word_less_nat_alt)
  then have "memmove_loop m (dst + of_nat (unat count)) (src + of_nat (unat count)) (unat count) =
      (\<lambda>a. if in_region (dst + 1) (unat count) a then m (src + (a - dst)) else m a)"
    by (rule memmove_loop_backward) (rule unat_lt32)
  moreover have "\<not> count \<le> dst - src" using assms(1) by simp
  ultimately show ?thesis by (simp add: memmove_def)
qed

section \<open>Comparison\<close>

lemma memcmp_loop_eq0:
  "b1 = b2 \<Longrightarrow> n \<le> 4294967296 \<Longrightarrow>
     memcmp_loop m p q b1 b2 n = 0 \<longleftrightarrow> (\<forall>i < n. m (p + of_nat i) = m (q + of_nat i))"
proof (induction n arbitrary: p q b1 b2)
  case (Suc n)
  have "memcmp_loop m (p + 1) (q + 1) (m p) (m q) n = 0 \<longleftrightarrow>
      (\<forall>i < n. m (p + 1 + of_nat i) = m (q + 1 + of_nat i))" if "m p = m q"
    using Suc that by simp
  then show ?case
    by (auto simp: All_less_Suc2 add.assoc signed_word_eqI)
qed simp

lemma memcmp_loop_first:
  "k < n \<Longrightarrow> n \<le> 4294967296 \<Longrightarrow> (\<And>i. i < k \<Longrightarrow> m (p + of_nat i) = m (q + of_nat i)) \<Longrightarrow>
   m (p + of_nat k) \<noteq> m (q + of_nat k) \<Longrightarrow>
     memcmp_loop m p q b1 b2 n = sint (m (p + of_nat k)) - sint (m (q + of_nat k))"
proof (induction n arbitrary: p q b1 b2 k)
  case (Suc n)
  show ?case
  proof (cases k)
    case 0
    with Suc.prems show ?thesis by simp
  next
    case (Suc k')
    have "memcmp_loop m (p + 1) (q + 1) (m p) (m q) n =
        sint (m (p + 1 + of_nat k')) - sint (m (q + 1 + of_nat k'))"
      using Suc Suc.prems(3) [of "Suc i" for i] Suc.prems
      by (intro Suc.IH) (auto simp: add.assoc)
    moreover have "m p = m q" using Suc Suc.prems(3) [of 0] by simp
    ultimately show ?thesis using Suc by (simp add: add.assoc)
  qed
qed simp

lemma strncmp_loop_first:
  "k < n \<Longrightarrow> n \<le> 4294967296 \<Longrightarrow>
   (\<And>i. i < k \<Longrightarrow> m (p + of_nat i) = m (q + of_nat i) \<and> m (p + of_nat i) \<noteq> 0) \<Longrightarrow>
   m (p + of_nat k) = 0 \<or> m (p + of_nat k) \<noteq> m (q + of_nat k) \<Longrightarrow>
     strncmp_loop m p q c1 c2 n = sint (m (p + of_nat k)) - sint (m (q + of_nat k))"
proof (induction n arbitrary: p q c1 c2 k)
  case (Suc n)
  show ?case
  proof (cases k)
    case 0
    with Suc.prems show ?thesis by auto
  next
    case (Suc k')
    have eq: "m (p + 1 + of_nat i) = m (q + 1 + of_nat i) \<and> m (p + 1 + of_nat i) \<noteq> 0"
      if "i < k'" for i
      using Suc.prems(3) [of "Suc i"] Suc that by (auto simp: add.assoc)
    have "strncmp_loop m (p + 1) (q + 1) (m p) (m q) n =
        sint (m (p + 1 + of_nat k')) - sint (m (q + 1 + of_nat k'))"
    proof (rule Suc.IH)
      show "m (p + 1 + of_nat i) = m (q + 1 + of_nat i) \<and> m (p + 1 + of_nat i) \<noteq> 0"
        if "i < k'" for i using that by (rule eq)
    qed (use Suc Suc.prems(1,2,4) in \<open>auto simp: add.assoc\<close>)
    moreover have "m p = m q" "m p \<noteq> 0" using Suc Suc.prems(3) [of 0] by auto
    ultimately show ?thesis using Suc by (simp add: add.assoc)
  qed
qed simp

lemma strncmp_loop_same:
  "c1 = c2 \<Longrightarrow> n \<le> 4294967296 \<Longrightarrow>
   (\<And>i. i < n \<Longrightarrow> m (p + of_nat i) = m (q + of_nat i)) \<Longrightarrow> strncmp_loop m p q c1 c2 n = 0"
proof (induction n arbitrary: p q c1 c2)
  case (Suc n)
  have "m p = m q" using Suc.prems(3) [of 0] by simp
  moreover have "strncmp_loop m (p + 1) (q + 1) (m p) (m q) n = 0" if "m p = m q"
    using Suc.prems(2) Suc.prems(3) [of "Suc i" for i] that
    by (intro Suc.IH) (auto simp: add.assoc)
  ultimately show ?case by simp
qed simp

section \<open>Lengths\<close>

lemma strlen_loop_nul:
  assumes "strlen_loop m str len = Some r"
  shows "m (str + r) = 0"
proof (rule strlen_loop.raw_induct [where P = "\<lambda>m str len r. m (str + r) = 0", OF _ assms])
  fix f m str len r
  assume IH: "\<And>m str len r. f m str len = Some r \<Longrightarrow> m (str + r) = (0 :: u8)"
    and eq: "(if m (str + len) \<noteq> 0 then f m str (len + 1) else Some len) = Some r"
  show "m (str + r) = 0" using eq IH by (cases "m (str + len) = 0") auto
qed

lemma strlen_loop_first:
  assumes "len \<le> n" and "m (str + n) = 0"
    and "\<And>i. len \<le> i \<Longrightarrow> i < n \<Longrightarrow> m (str + i) \<noteq> 0"
  shows "strlen_loop m str len = Some n"
  using assms
proof (induction "unat (n - len)" arbitrary: len)
  case 0
  then have "len = n" by (simp add: unat_eq_zero)
  then show ?case using 0 by (simp add: strlen_loop.simps)
next
  case (Suc k)
  then have ne: "len \<noteq> n" by auto
  then have lt: "len < n" using Suc.prems(1) by simp
  then have nz: "m (str + len) \<noteq> 0" using Suc.prems(3) by simp
  have up: "unat (len + 1) = Suc (unat len)"
    using lt unat_lt32 [of n] by (simp add: unat_add32 word_less_nat_alt)
  have "strlen_loop m str (len + 1) = Some n"
  proof (rule Suc.hyps)
    show "k = unat (n - (len + 1))"
      using Suc.hyps(2) lt up by (simp add: unat_sub32 word_less_nat_alt)
    show "len + 1 \<le> n" using lt up by (simp add: word_less_nat_alt word_le_nat_alt)
    show "m (str + i) \<noteq> 0" if "len + 1 \<le> i" "i < n" for i
      using that up by (intro Suc.prems(3)) (simp_all add: word_le_nat_alt)
  qed (rule Suc.prems)
  then show ?case using nz by (subst strlen_loop.simps) simp
qed

lemma strlen_eq_Some_iff:
  "strlen m str = Some n \<longleftrightarrow> m (str + n) = 0 \<and> (\<forall>i < n. m (str + i) \<noteq> 0)"
proof
  assume r: "strlen m str = Some n"
  define l where "l = (LEAST i. m (str + i) = 0)"
  have "m (str + n) = 0" using r by (simp add: strlen_def strlen_loop_nul)
  then have l0: "m (str + l) = 0" unfolding l_def by (rule LeastI)
  have lmin: "m (str + i) \<noteq> 0" if "i < l" for i using that unfolding l_def by (rule not_less_Least)
  have "strlen m str = Some l"
    unfolding strlen_def by (rule strlen_loop_first) (use l0 lmin in auto)
  with r l0 lmin show "m (str + n) = 0 \<and> (\<forall>i < n. m (str + i) \<noteq> 0)" by simp
next
  assume "m (str + n) = 0 \<and> (\<forall>i < n. m (str + i) \<noteq> 0)"
  then show "strlen m str = Some n"
    unfolding strlen_def by (intro strlen_loop_first) auto
qed

lemma strlen_returns:
  assumes "m (str + a) = 0"
  shows "\<exists>n \<le> a. strlen m str = Some n"
proof -
  define l where "l = (LEAST i. m (str + i) = 0)"
  have "m (str + l) = 0" "l \<le> a" using assms unfolding l_def by (rule LeastI, rule Least_le)
  moreover have "\<forall>i < l. m (str + i) \<noteq> 0" unfolding l_def by (auto dest: not_less_Least)
  ultimately show ?thesis by (auto simp: strlen_eq_Some_iff)
qed

lemma strnlen_loop_spec:
  "unat len + n < 4294967296 \<Longrightarrow> \<exists>k \<le> n. strnlen_loop m str len n = len + of_nat k \<and>
     (\<forall>i < k. m (str + len + of_nat i) \<noteq> 0) \<and> (k < n \<longrightarrow> m (str + len + of_nat k) = 0)"
proof (induction n arbitrary: len)
  case (Suc n)
  show ?case
  proof (cases "m (str + len) = 0")
    case True
    then show ?thesis by (intro exI [of _ 0]) simp
  next
    case False
    have "unat (len + 1) + n < 4294967296" using Suc.prems by (simp add: unat_add32)
    then obtain k where k: "k \<le> n" "strnlen_loop m str (len + 1) n = len + 1 + of_nat k"
      "\<forall>i < k. m (str + (len + 1) + of_nat i) \<noteq> 0" "k < n \<longrightarrow> m (str + (len + 1) + of_nat k) = 0"
      using Suc.IH by blast
    then show ?thesis using False
      by (intro exI [of _ "Suc k"]) (auto simp: All_less_Suc2 add.assoc)
  qed
qed simp

lemma strnlen_spec:
  obtains k where "k \<le> unat count" "strnlen m str count = of_nat k"
    "\<And>i. i < k \<Longrightarrow> m (str + of_nat i) \<noteq> 0" "k < unat count \<Longrightarrow> m (str + of_nat k) = 0"
  using strnlen_loop_spec [of 0 "unat count" m str] unat_lt32 [of count]
  by (auto simp: strnlen_def)

lemma unat_strnlen_le: "unat (strnlen m str count) \<le> unat count"
  using unat_lt32 [of count] by (rule_tac strnlen_spec [of count m str]) (simp add: unat_of_nat32)

section \<open>Copying strings\<close>

lemma in_region_mono: "in_region d n a \<Longrightarrow> n \<le> k \<Longrightarrow> in_region d k a"
  by (simp add: in_region_def)

lemma disjoint_regions_mono:
  "disjoint_regions a n b k \<Longrightarrow> n' \<le> n \<Longrightarrow> k' \<le> k \<Longrightarrow> disjoint_regions a n' b k'"
  by (simp add: disjoint_regions_def)

lemma in_region_shift:
  assumes "unat sz \<le> n" "\<not> in_region d (unat sz) a"
  shows "in_region (d + sz) (n - unat sz) a \<longleftrightarrow> in_region d n a"
proof -
  have "a - (d + sz) = (a - d) - sz" by simp
  moreover have "unat sz \<le> unat (a - d)" using assms(2) by (simp add: in_region_def)
  ultimately have "unat (a - (d + sz)) = unat (a - d) - unat sz"
    by (simp only: unat_sub32) simp
  then show ?thesis using \<open>unat sz \<le> unat (a - d)\<close> assms(1) by (auto simp: in_region_def)
qed

lemma in_region_nul:
  assumes "n < 4294967296"
  shows "in_region d (Suc n) (d + sz) \<longleftrightarrow> unat sz \<le> n"
  by (auto simp: in_region_def)

lemma strncpy_eq:
  assumes dis: "disjoint_regions dst (Suc (unat count)) src (unat count)"
    and sz_def: "sz = strnlen m src count"
  shows "strncpy m dst src count = (dst, \<lambda>a.
     if in_region dst (unat sz) a then m (src + (a - dst))
     else if in_region dst (unat count) a \<or> a = dst + sz then 0 else m a)"
proof -
  let ?m1 = "if sz \<noteq> count then snd (memset m (dst + sz) 0 (count - sz)) else m"
  let ?m2 = "?m1(dst + sz := 0)"
  have sz: "unat sz \<le> unat count" unfolding sz_def by (rule unat_strnlen_le)
  then have diff: "unat (count - sz) = unat count - unat sz" by (simp add: unat_sub32)
  have m1: "?m1 a = (if in_region (dst + sz) (unat count - unat sz) a then 0 else m a)" for a
    using diff by (auto simp: memset_eq)
  have src: "\<not> in_region dst (Suc (unat count)) x" if "in_region src (unat count) x" for x
    using dis that by (rule disjoint_regionsD)
  have m2_src: "?m2 x = m x" if x: "in_region src (unat sz) x" for x
  proof -
    have out: "\<not> in_region dst (Suc (unat count)) x"
      using x sz by (intro src) (rule in_region_mono)
    then have "\<not> in_region dst (unat sz) x" "\<not> in_region dst (unat count) x"
      using sz by (auto simp: in_region_def)
    then have "\<not> in_region (dst + sz) (unat count - unat sz) x"
      using sz by (simp add: in_region_shift)
    moreover have "x \<noteq> dst + sz"
      using out sz unat_lt32 [of count] by (auto simp: in_region_nul)
    ultimately show ?thesis by (simp add: m1)
  qed
  have cpy: "snd (memcpy ?m2 dst src sz) =
      (\<lambda>a. if in_region dst (unat sz) a then ?m2 (src + (a - dst)) else ?m2 a)"
    using dis sz by (intro memcpy_disjoint) (auto elim: disjoint_regions_mono)
  have "strncpy m dst src count = (dst, snd (memcpy ?m2 dst src sz))"
    by (simp add: strncpy_def Let_def sz_def [symmetric] memcpy_def)
  also have "snd (memcpy ?m2 dst src sz) = (\<lambda>a. if in_region dst (unat sz) a then m (src + (a - dst))
     else if in_region dst (unat count) a \<or> a = dst + sz then 0 else m a)"
  proof
    fix a
    show "snd (memcpy ?m2 dst src sz) a = (if in_region dst (unat sz) a then m (src + (a - dst))
     else if in_region dst (unat count) a \<or> a = dst + sz then 0 else m a)"
    proof (cases "in_region dst (unat sz) a")
      case True
      then have "in_region src (unat sz) (src + (a - dst))" by (simp add: in_region_def)
      then have "?m2 (src + (a - dst)) = m (src + (a - dst))" by (rule m2_src)
      then show ?thesis using True by (simp only: cpy if_True)
    next
      case False
      then show ?thesis using sz by (simp add: cpy m1 in_region_shift)
    qed
  qed
  finally show ?thesis .
qed

section \<open>Properties\<close>

text \<open>\<open>memset\<close> returns its destination and changes exactly the \<open>count\<close> bytes it is
  given, each to \<open>c\<close>, for every count a \<open>size_t\<close> can hold and every address.\<close>

theorem memset_spec:
  "memset m dst c count = (dst, \<lambda>a. if in_region dst (unat count) a then c else m a)"
  using memset_eq [of m dst c count] by (simp add: memset_def)

text \<open>C27: when the destination does not start inside the source (\<open>dst - src >= count\<close> as
  unsigned, the test the code makes), \<open>memmove\<close> copies the source as it was before the
  call, even if the source starts inside the destination, and changes nothing else.\<close>

theorem memmove_forward_spec:
  assumes "count \<le> dst - src"
  shows "memmove m dst src count =
    (dst, \<lambda>a. if in_region dst (unat count) a then m (src + (a - dst)) else m a)"
  using memcpy_forward [OF assms, of m] assms by (simp add: memmove_def memcpy_def)

theorem memmove_forward_spec_witness:
  "memmove (\<lambda>a. ucast a) 16 18 4 =
    (16, \<lambda>a. if in_region 16 4 a then ucast (18 + (a - 16)) else ucast a)"
  using memmove_forward_spec [of 4 16 18 "\<lambda>a. ucast a"] by simp

text \<open>C28: what \<open>memmove\<close> does when the destination starts inside the source. The
  reverse loop begins at \<open>dst + count\<close>, one byte past the region, and stops before
  \<open>dst\<close>: the bytes at offsets \<open>1..count\<close> are moved, so the first destination byte
  keeps its old value and the byte just after the destination is overwritten.\<close>

theorem memmove_overlap_off_by_one:
  assumes "dst - src < count" and "unat count \<le> 2147483648"
  shows "snd (memmove m dst src count) dst = m dst \<and>
    snd (memmove m dst src count) (dst + count) = m (src + count) \<and>
    (\<forall>i. 0 < i \<and> i < unat count \<longrightarrow>
      snd (memmove m dst src count) (dst + of_nat i) = m (src + of_nat i))"
proof -
  let ?n = "unat count"
  have n: "?n < 4294967296" by (rule unat_lt32)
  have pos: "0 < ?n" using assms(1) by (simp add: word_less_nat_alt)
  have reg: "in_region (dst + 1) ?n (dst + of_nat j)" if "0 < j" "j \<le> ?n" for j
  proof -
    have "dst + of_nat j = dst + 1 + of_nat (j - 1)" using that by (simp add: of_nat_diff)
    moreover have "in_region (dst + 1) ?n (dst + 1 + of_nat (j - 1))"
      using that n by (intro in_region_offset) simp_all
    ultimately show ?thesis by (simp only:)
  qed
  note eq = memmove_backward [OF assms, of m]
  have "snd (memmove m dst src count) dst = m dst"
    using n by (simp add: eq not_in_region_before)
  moreover have "snd (memmove m dst src count) (dst + count) = m (src + count)"
    using reg [of ?n] pos by (simp add: eq)
  moreover have "snd (memmove m dst src count) (dst + of_nat i) = m (src + of_nat i)"
    if "0 < i" "i < ?n" for i
    using reg [of i] that by (simp add: eq)
  ultimately show ?thesis by blast
qed

theorem memmove_overlap_off_by_one_witness:
  "snd (memmove (\<lambda>a. ucast a) 18 16 4) 18 = 18 \<and> snd (memmove (\<lambda>a. ucast a) 18 16 4) 22 = 20"
  using memmove_overlap_off_by_one [of 18 16 4 "\<lambda>a. ucast a"] by simp

text \<open>\<open>memcmp\<close> returns 0 exactly when the two blocks are byte-wise equal; otherwise
  its result is the difference of the first unequal bytes read as signed characters.\<close>

theorem memcmp_spec:
  "(memcmp m p q count = 0 \<longleftrightarrow> (\<forall>i < unat count. m (p + of_nat i) = m (q + of_nat i))) \<and>
   (\<forall>k < unat count. (\<forall>i < k. m (p + of_nat i) = m (q + of_nat i)) \<longrightarrow>
      m (p + of_nat k) \<noteq> m (q + of_nat k) \<longrightarrow>
      memcmp m p q count = sint (m (p + of_nat k)) - sint (m (q + of_nat k)))"
proof (intro conjI allI impI)
  have n: "unat count \<le> 4294967296" using unat_lt32 [of count] by simp
  show "memcmp m p q count = 0 \<longleftrightarrow> (\<forall>i < unat count. m (p + of_nat i) = m (q + of_nat i))"
    using n by (simp add: memcmp_def memcmp_loop_eq0)
  show "memcmp m p q count = sint (m (p + of_nat k)) - sint (m (q + of_nat k))"
    if "k < unat count" "\<forall>i < k. m (p + of_nat i) = m (q + of_nat i)"
      "m (p + of_nat k) \<noteq> m (q + of_nat k)" for k
    using that n unfolding memcmp_def by (intro memcmp_loop_first) auto
qed

theorem memcmp_spec_witness:
  "memcmp (\<lambda>a. if a = 5 then 128 else 1) 4 8 2 = -129"
proof -
  let ?m = "(\<lambda>a. if a = 5 then 128 else 1) :: memory"
  have "memcmp ?m 4 8 2 = sint (?m (4 + of_nat 1)) - sint (?m (8 + of_nat 1))"
    using memcmp_spec [of ?m 4 8 2, THEN conjunct2, THEN spec, of 1] by simp
  then show ?thesis by simp
qed

text \<open>C29: \<open>strlen\<close> returns \<open>n\<close> exactly when byte \<open>n\<close> is the first NUL of the string; it
  fails to return only on a memory without any NUL byte.\<close>

theorem strlen_spec:
  "(strlen m str = Some n \<longleftrightarrow> m (str + n) = 0 \<and> (\<forall>i < n. m (str + i) \<noteq> 0)) \<and>
   (strlen m str = None \<longleftrightarrow> (\<forall>a. m a \<noteq> 0))"
proof (intro conjI)
  show "strlen m str = Some n \<longleftrightarrow> m (str + n) = 0 \<and> (\<forall>i < n. m (str + i) \<noteq> 0)"
    by (rule strlen_eq_Some_iff)
  show "strlen m str = None \<longleftrightarrow> (\<forall>a. m a \<noteq> 0)"
  proof
    assume none: "strlen m str = None"
    show "\<forall>a. m a \<noteq> 0"
    proof (intro allI notI)
      fix a assume "m a = 0"
      then have "m (str + (a - str)) = 0" by simp
      with none show False using strlen_returns by fastforce
    qed
  next
    assume "\<forall>a. m a \<noteq> 0"
    then show "strlen m str = None"
      by (cases "strlen m str") (auto simp: strlen_eq_Some_iff)
  qed
qed

theorem strlen_spec_witness: "strlen (\<lambda>a. if a = 102 then 0 else 65) 100 = Some 2"
  using strlen_spec [of "\<lambda>a. if a = 102 then 0 else 65" 100 2, THEN conjunct1] by auto

text \<open>\<open>strncpy\<close> on disjoint buffers. With \<open>size\<close> the length of the source limited to
  \<open>count\<close>, the destination holds the first \<open>size\<close> source bytes, zeros up to
  \<open>count\<close>, and always a NUL at offset \<open>size\<close> (so \<open>count + 1\<close> bytes may be written);
  every other byte is unchanged, and the copied string has length \<open>size\<close>.\<close>

theorem strncpy_spec:
  assumes "disjoint_regions dst (Suc (unat count)) src (unat count)"
  shows "strncpy m dst src count = (dst, \<lambda>a.
       if in_region dst (unat (strnlen m src count)) a then m (src + (a - dst))
       else if in_region dst (unat count) a \<or> a = dst + strnlen m src count then 0 else m a) \<and>
     strlen (snd (strncpy m dst src count)) dst = Some (strnlen m src count)"
proof
  show eq: "strncpy m dst src count = (dst, \<lambda>a.
       if in_region dst (unat (strnlen m src count)) a then m (src + (a - dst))
       else if in_region dst (unat count) a \<or> a = dst + strnlen m src count then 0 else m a)"
    by (rule strncpy_eq [OF assms refl])
  obtain k where k: "k \<le> unat count" "strnlen m src count = of_nat k"
    "\<And>i. i < k \<Longrightarrow> m (src + of_nat i) \<noteq> 0"
    using strnlen_spec [of count m src] by metis
  have uk: "unat (strnlen m src count) = k" using k unat_lt32 [of count] by (simp add: unat_of_nat32)
  show "strlen (snd (strncpy m dst src count)) dst = Some (strnlen m src count)"
    unfolding strlen_eq_Some_iff
  proof (intro conjI allI impI)
    show "snd (strncpy m dst src count) (dst + strnlen m src count) = 0"
      by (simp add: eq in_region_def)
    fix i assume i: "i < strnlen m src count"
    then have "unat i < k" using uk by (simp add: word_less_nat_alt)
    then show "snd (strncpy m dst src count) (dst + i) \<noteq> 0"
      using k(3) [of "unat i"] uk by (simp add: eq in_region_def)
  qed
qed

theorem strncpy_spec_witness:
  "strlen (snd (strncpy (\<lambda>a. if a = 100 then 65 else if a = 101 then 66 else 0) 200 100 15)) 200 = Some 2"
proof -
  let ?m = "(\<lambda>a. if a = 100 then 65 else if a = 101 then 66 else 0) :: memory"
  have d: "disjoint_regions 200 (Suc (unat (15 :: u32))) 100 (unat (15 :: u32))"
    by (simp add: disjoint_regions_def unat_sub32)
  have "strnlen ?m 100 15 = 2" by code_simp
  then show ?thesis using strncpy_spec [OF d, of ?m, THEN conjunct2] by (simp only:)
qed

end
