(* ===== verification/Console.thy ===== *)
theory Console
  imports Spinlock LibString
begin

text \<open>
  Text output: the transmit half of the serial port (\<^verbatim>\<open>kernel/drivers/uart.c\<close>) and the VGA
  text console (\<^verbatim>\<open>kernel/drivers/screen.c\<close>, \<^verbatim>\<open>kernel/drivers/vga.h\<close>) with \<open>cprintf\<close> and
  \<open>panic\<close>. Video memory is ordinary memory at \<open>P2V(0xb8000)\<close>. A variadic argument is a
  machine word or a pointer to a string; string literals are HOL strings, and a null
  pointer is \<open>None\<close>. Using up more arguments than were passed, or a string where a word
  is expected, is undefined behaviour in C and the outcome \<open>Fault\<close> here.
\<close>

section \<open>Serial port output\<close>

record console = cpu_machine +
  cons_locking :: int
  uart :: int

abbreviation (input) COM1 :: u16 where "COM1 \<equiv> 0x3f8"

primrec uart_wait :: "nat \<Rightarrow> (unit, 'z machine_scheme) kern" where
  "uart_wait 0 = retK ()"
| "uart_wait (Suc n) = bindK (inb (COM1 + 5)) (\<lambda>st.
     if st AND 0x20 \<noteq> 0 then retK () else uart_wait n)"

definition uartputc :: "u8 \<Rightarrow> (unit, 'z console_scheme) kern" where
  "uartputc c = bindK (getK uart) (\<lambda>u.
     if u = 0 then retK () else thenK (uart_wait 128) (outb (COM1 + 0) c))"

definition uartgetc :: "(u8, 'z console_scheme) kern" where
  "uartgetc = bindK (getK uart) (\<lambda>u.
     if u = 0 then retK (- 1)
     else bindK (inb (COM1 + 5)) (\<lambda>st.
       if st AND 0x01 = 0 then retK (- 1) else inb (COM1 + 0)))"

section \<open>The screen\<close>

abbreviation (input) MAX_ROWS :: int where "MAX_ROWS \<equiv> 25"
abbreviation (input) MAX_COLS :: int where "MAX_COLS \<equiv> 80"
abbreviation (input) REG_SCREEN_CTRL :: u16 where "REG_SCREEN_CTRL \<equiv> 0x3d4"
abbreviation (input) REG_SCREEN_DATA :: u16 where "REG_SCREEN_DATA \<equiv> 0x3d5"
abbreviation (input) BACKSPACE :: int where "BACKSPACE \<equiv> 0x100"

datatype vga_color =
    VGA_COLOR_BLACK | VGA_COLOR_BLUE | VGA_COLOR_GREEN | VGA_COLOR_CYAN
  | VGA_COLOR_RED | VGA_COLOR_MAGENTA | VGA_COLOR_BROWN | VGA_COLOR_LIGHT_GREY
  | VGA_COLOR_DARK_GREY | VGA_COLOR_LIGHT_BLUE | VGA_COLOR_LIGHT_GREEN | VGA_COLOR_LIGHT_CYAN
  | VGA_COLOR_LIGHT_RED | VGA_COLOR_LIGHT_MAGENTA | VGA_COLOR_LIGHT_BROWN | VGA_COLOR_WHITE

primrec color_code :: "vga_color \<Rightarrow> u8" where
  "color_code VGA_COLOR_BLACK = 0"
| "color_code VGA_COLOR_BLUE = 1"
| "color_code VGA_COLOR_GREEN = 2"
| "color_code VGA_COLOR_CYAN = 3"
| "color_code VGA_COLOR_RED = 4"
| "color_code VGA_COLOR_MAGENTA = 5"
| "color_code VGA_COLOR_BROWN = 6"
| "color_code VGA_COLOR_LIGHT_GREY = 7"
| "color_code VGA_COLOR_DARK_GREY = 8"
| "color_code VGA_COLOR_LIGHT_BLUE = 9"
| "color_code VGA_COLOR_LIGHT_GREEN = 10"
| "color_code VGA_COLOR_LIGHT_CYAN = 11"
| "color_code VGA_COLOR_LIGHT_RED = 12"
| "color_code VGA_COLOR_LIGHT_MAGENTA = 13"
| "color_code VGA_COLOR_LIGHT_BROWN = 14"
| "color_code VGA_COLOR_WHITE = 15"

definition vga_attr :: "vga_color \<Rightarrow> vga_color \<Rightarrow> u8" where
  "vga_attr bg fg = push_bit 4 (color_code bg) OR color_code fg"

definition vga_entry :: "vga_color \<Rightarrow> vga_color \<Rightarrow> u8 \<Rightarrow> u16" where
  "vga_entry bg fg c = ucast c OR push_bit 8 (ucast (color_code fg)) OR push_bit 12 (ucast (color_code bg))"

definition TERMINAL_DEFAULT_COLOR_BG :: vga_color where
  "TERMINAL_DEFAULT_COLOR_BG = VGA_COLOR_BLACK"

definition TERMINAL_DEFAULT_COLOR_FG :: vga_color where
  "TERMINAL_DEFAULT_COLOR_FG = VGA_COLOR_LIGHT_GREY"

definition WHITE_ON_BLACK :: u8 where
  "WHITE_ON_BLACK = vga_attr TERMINAL_DEFAULT_COLOR_BG TERMINAL_DEFAULT_COLOR_FG"

definition vidmem :: addr where
  "vidmem = P2V 0xb8000"

definition get_screen_offset :: "int \<Rightarrow> int \<Rightarrow> int" where
  "get_screen_offset col row = (row * MAX_COLS + col) * 2"

definition get_cursor :: "(int, 'z machine_scheme) kern" where
  "get_cursor =
     thenK (outb REG_SCREEN_CTRL 14) (bindK (inb REG_SCREEN_DATA) (\<lambda>hi.
     thenK (outb REG_SCREEN_CTRL 15) (bindK (inb REG_SCREEN_DATA) (\<lambda>lo.
     retK ((uint hi * 256 + uint lo) * 2)))))"

definition set_cursor :: "int \<Rightarrow> (unit, 'z machine_scheme) kern" where
  "set_cursor offset = (let ofs = offset div 2 in
     seqK [outb REG_SCREEN_CTRL 14,
           outb REG_SCREEN_DATA (word_of_int ((ofs AND 0xff00) div 256)),
           outb REG_SCREEN_CTRL 15,
           outb REG_SCREEN_DATA (word_of_int (ofs AND 0xff))])"

definition upd_mem :: "(memory \<Rightarrow> memory) \<Rightarrow> (unit, 'z machine_scheme) kern" where
  "upd_mem f = modK (\<lambda>s. s\<lparr>mem := f (mem s)\<rparr>)"

definition copy_row :: "nat \<Rightarrow> memory \<Rightarrow> memory" where
  "copy_row i m = snd (memcpy m (vidmem + of_int (get_screen_offset 0 (int i - 1)))
     (vidmem + of_int (get_screen_offset 0 (int i))) (of_int (MAX_COLS * 2)))"

definition blank_byte :: "nat \<Rightarrow> memory \<Rightarrow> memory" where
  "blank_byte i m = m(vidmem + of_int (get_screen_offset 0 (MAX_ROWS - 1)) + of_nat i := 0)"

definition handle_scrolling :: "int \<Rightarrow> (int, 'z machine_scheme) kern" where
  "handle_scrolling cursor_offset =
     (if cursor_offset < MAX_ROWS * MAX_COLS * 2 then retK cursor_offset
      else thenK (forK [1 ..< 25] (\<lambda>i. upd_mem (copy_row i)))
        (thenK (forK [0 ..< 160] (\<lambda>i. upd_mem (blank_byte i)))
        (retK (cursor_offset - 2 * MAX_COLS))))"

definition char_offset :: "int \<Rightarrow> int \<Rightarrow> (int, 'z machine_scheme) kern" where
  "char_offset col row = (if col \<ge> 0 \<and> row \<ge> 0 then retK (get_screen_offset col row) else get_cursor)"

definition print_char :: "u8 \<Rightarrow> int \<Rightarrow> int \<Rightarrow> u8 \<Rightarrow> (unit, 'z machine_scheme) kern" where
  "print_char character col row attribute_byte =
     (let attr = (if attribute_byte = 0 then WHITE_ON_BLACK else attribute_byte) in
      bindK (char_offset col row) (\<lambda>offset.
      bindK (if character = 10 then retK (get_screen_offset 79 (offset div (2 * MAX_COLS)))
             else thenK (upd_mem (\<lambda>m. m(vidmem + of_int offset := character,
                          vidmem + of_int (offset + 1) := attr))) (retK offset)) (\<lambda>offset.
      bindK (handle_scrolling (offset + 2)) set_cursor)))"

definition print_at :: "u8 list \<Rightarrow> int \<Rightarrow> int \<Rightarrow> (unit, 'z machine_scheme) kern" where
  "print_at message col row =
     thenK (whenK (col \<ge> 0 \<and> row \<ge> 0) (set_cursor (get_screen_offset col row)))
       (forK (takeWhile (\<lambda>b. b \<noteq> 0) message) (\<lambda>b. print_char b col row WHITE_ON_BLACK))"

definition clear_screen :: "(unit, 'z machine_scheme) kern" where
  "clear_screen = thenK
     (forK [0 ..< 25] (\<lambda>row. forK [0 ..< 80] (\<lambda>col. print_char 32 (int col) (int row) WHITE_ON_BLACK)))
     (set_cursor (get_screen_offset 0 0))"

definition print_color :: "u8 list \<Rightarrow> nat \<Rightarrow> vga_color \<Rightarrow> (unit, 'z machine_scheme) kern" where
  "print_color data sz fg =
     (if length data < sz then faultK
      else forK (take sz data) (\<lambda>b. print_char b (- 1) (- 1) (vga_attr TERMINAL_DEFAULT_COLOR_BG fg)))"

section \<open>Formatted output\<close>

definition consputc :: "int \<Rightarrow> (unit, 'z console_scheme) kern" where
  "consputc c = thenK
     (if c = BACKSPACE then seqK [uartputc 8, uartputc 32, uartputc 8] else uartputc (word_of_int c))
     (print_char (word_of_int c) (- 1) (- 1)
        (vga_attr TERMINAL_DEFAULT_COLOR_BG TERMINAL_DEFAULT_COLOR_FG))"

definition digits :: string where
  "digits = ''0123456789abcdef''"

text \<open>The digit loop of \<open>printint\<close>, least significant digit first.\<close>

function int_digits :: "nat \<Rightarrow> nat \<Rightarrow> nat list" where
  "int_digits base x =
     x mod base # (if x div base = 0 \<or> base < 2 then [] else int_digits base (x div base))"
  by pat_completeness auto
termination
  by (relation "measure (\<lambda>(base, x). x)") (auto intro!: div_less_dividend simp: div_greater_zero_iff)

text \<open>Unfolded on demand only: the equation always matches its own right-hand side.\<close>

declare int_digits.simps [simp del]

definition putchar :: "char \<Rightarrow> (unit, 'z console_scheme) kern" where
  "putchar ch = consputc (sint (of_char ch :: u8))"

definition printint :: "u32 \<Rightarrow> nat \<Rightarrow> bool \<Rightarrow> (unit, 'z console_scheme) kern" where
  "printint xx base sign =
     (let neg = (sign \<and> sint xx < 0);
          x = (if neg then - xx else xx);
          buf = map (\<lambda>d. digits ! d) (int_digits base (unat x)) @ (if neg then ''-'' else [])
      in if base < 2 \<or> base > 16 \<or> length buf > 16 then faultK
         else forK (rev buf) putchar)"

primrec printptr_loop :: "nat \<Rightarrow> u64 \<Rightarrow> (unit, 'z console_scheme) kern" where
  "printptr_loop 0 x = retK ()"
| "printptr_loop (Suc n) x =
     thenK (putchar (digits ! unat (drop_bit 60 x))) (printptr_loop n (push_bit 4 x))"

definition printptr :: "u64 \<Rightarrow> (unit, 'z console_scheme) kern" where
  "printptr x = seqK [putchar CHR ''0'', putchar CHR ''x'', printptr_loop 16 x]"

datatype carg = CWord u32 | CStr "string option"

definition c_string :: "string option \<Rightarrow> string" where
  "c_string p = (case p of None \<Rightarrow> ''(null)'' | Some s \<Rightarrow> takeWhile (\<lambda>c. c \<noteq> CHR 0x00) s)"

fun cprintf_loop :: "string \<Rightarrow> carg list \<Rightarrow> (unit, 'z console_scheme) kern" where
  "cprintf_loop [] args = retK ()"
| "cprintf_loop (c # fmt) args =
     (if c = CHR 0x00 then retK ()
      else if c \<noteq> CHR ''%'' then thenK (consputc (uint (of_char c :: u8))) (cprintf_loop fmt args)
      else (case fmt of
          [] \<Rightarrow> retK ()
        | d # fmt' \<Rightarrow>
            if d = CHR 0x00 then retK ()
            else if d = CHR ''d'' then
              (case args of CWord w # as \<Rightarrow> thenK (printint w 10 True) (cprintf_loop fmt' as) | _ \<Rightarrow> faultK)
            else if d = CHR ''x'' \<or> d = CHR ''p'' then
              (case args of CWord w # as \<Rightarrow> thenK (printint w 16 False) (cprintf_loop fmt' as) | _ \<Rightarrow> faultK)
            else if d = CHR ''l'' then
              (case args of CWord lo # CWord hi # as \<Rightarrow>
                  thenK (printptr (ucast lo OR push_bit 32 (ucast hi))) (cprintf_loop fmt' as)
                | _ \<Rightarrow> faultK)
            else if d = CHR ''s'' then
              (case args of CStr p # as \<Rightarrow> thenK (forK (c_string p) putchar) (cprintf_loop fmt' as)
                | _ \<Rightarrow> faultK)
            else if d = CHR ''%'' then thenK (consputc 37) (cprintf_loop fmt' args)
            else thenK (consputc 37) (thenK (consputc (uint (of_char d :: u8))) (cprintf_loop fmt' args))))"

definition cprintf :: "string option \<Rightarrow> carg list \<Rightarrow> (unit, 'z console_scheme) kern" where
  "cprintf fmt args = bindK (getK cons_locking) (\<lambda>locking.
     thenK (whenK (locking \<noteq> 0) (acquire ConsLock))
     (thenK (case fmt of None \<Rightarrow> panicK ''null fmt'' | Some f \<Rightarrow> cprintf_loop f args)
     (whenK (locking \<noteq> 0) (release ConsLock))))"

definition print :: "string option \<Rightarrow> (unit, 'z console_scheme) kern" where
  "print s = cprintf (Some ''%s'') [CStr s]"

text \<open>
  What \<open>panic\<close> does before its endless loop; the loop itself makes it \<open>Hang\<close>. Callers
  of \<open>panic\<close> end in the outcome \<open>Panic\<close> with the message and the state at the call.
\<close>

definition panic_output :: "string \<Rightarrow> (unit, 'z console_scheme) kern" where
  "panic_output msg = seqK [cli, modK (\<lambda>s. s\<lparr>cons_locking := 0\<rparr>),
     cprintf (Some ''panic: '') [], cprintf (Some msg) [], cprintf (Some ''\<newline>'') [],
     bindK (getK (\<lambda>s. getcallerpcs (mem s) (kstk s))) (\<lambda>pcs.
       forK pcs (\<lambda>pc. cprintf (Some '' %p'') [CWord pc]))]"

definition panic :: "string \<Rightarrow> (unit, 'z console_scheme) kern" where
  "panic msg = thenK (panic_output msg) hangK"

definition consoleinit :: "(unit, 'z console_scheme) kern" where
  "consoleinit = thenK (initlock ConsLock ''console'') (modK (\<lambda>s. s\<lparr>cons_locking := 1\<rparr>))"

section \<open>Effects of console output\<close>

text \<open>
  \<open>con_frame s t\<close>: between \<open>s\<close> and \<open>t\<close> only port accesses were made and only bytes of
  the 128 KiB video window changed. \<open>serial_out\<close> extracts from the access history the
  bytes handed to the serial transmitter, oldest first.
\<close>

definition con_frame :: "'z machine_scheme \<Rightarrow> 'z machine_scheme \<Rightarrow> bool" where
  "con_frame s t \<longleftrightarrow> eflags t = eflags s \<and> cr3 t = cr3 s \<and> kstk t = kstk s \<and>
     dev8 t = dev8 s \<and> dev16 t = dev16 s \<and> dev32 t = dev32 s \<and> machine.more t = machine.more s \<and>
     (\<forall>a. \<not> in_region vidmem 131072 a \<longrightarrow> mem t a = mem s a)"

primrec tx_byte :: "io_event \<Rightarrow> u8 list" where
  "tx_byte (InB p b) = []"
| "tx_byte (OutB p b) = (if p = COM1 then [b] else [])"
| "tx_byte (InW p b) = []"
| "tx_byte (OutW p b) = []"
| "tx_byte (InL p b) = []"
| "tx_byte (OutL p b) = []"
| "tx_byte (MmioRead a b) = []"
| "tx_byte (MmioWrite a b) = []"

definition serial_out :: "io_event list \<Rightarrow> u8 list" where
  "serial_out log = concat (map tx_byte (rev log))"

definition emits :: "(unit, 'z console_scheme) kern \<Rightarrow> u8 list \<Rightarrow> bool" where
  "emits m bs \<longleftrightarrow> (\<forall>s. \<exists>t. m s = Ret () t \<and> con_frame s t \<and>
     serial_out (io_log t) = serial_out (io_log s) @ (if uart s \<noteq> 0 then bs else []))"

named_theorems emits_intros "which bytes a routine sends to the serial port"

lemma serial_out_simps [simp]:
  "serial_out [] = []" "serial_out (e # log) = serial_out log @ tx_byte e"
  by (simp_all add: serial_out_def)

lemma con_frame_refl [simp]: "con_frame s s"
  by (simp add: con_frame_def)

lemma con_frame_trans: "con_frame s t \<Longrightarrow> con_frame t u \<Longrightarrow> con_frame s u"
  by (simp add: con_frame_def)

lemma con_frame_io [simp]: "con_frame s (t\<lparr>io_log := l\<rparr>) = con_frame s t"
  by (simp add: con_frame_def)

lemma con_frame_io_left [simp]: "con_frame (s\<lparr>io_log := l\<rparr>) t = con_frame s t"
  by (simp add: con_frame_def)

text \<open>The fields that later records add are functions of \<open>machine.more\<close>.\<close>

lemma eq_upto_machine:
  assumes "machine.more t = machine.more s"
  shows "t = s\<lparr>mem := mem t, eflags := eflags t, cr3 := cr3 t, kstk := kstk t, io_log := io_log t,
    dev8 := dev8 t, dev16 := dev16 t, dev32 := dev32 t\<rparr>"
  using assms by (intro machine.equality) simp_all

lemma more_eqD:
  fixes s t :: "'z console_scheme"
  assumes "machine.more t = machine.more s"
  shows "cpus t = cpus s" "locks t = locks s" "cons_locking t = cons_locking s" "uart t = uart s"
    "console.more t = console.more s"
proof -
  note eq = eq_upto_machine [OF assms]
  show "cpus t = cpus s" using arg_cong [OF eq, of cpus] by simp
  show "locks t = locks s" using arg_cong [OF eq, of locks] by simp
  show "cons_locking t = cons_locking s" using arg_cong [OF eq, of cons_locking] by simp
  show "uart t = uart s" using arg_cong [OF eq, of uart] by simp
  show "console.more t = console.more s" using arg_cong [OF eq, of console.more] by simp
qed

lemma con_frame_uart: "con_frame s t \<Longrightarrow> uart t = uart s"
  unfolding con_frame_def by (blast dest: more_eqD(4))

lemma emits_Ret:
  assumes "emits m bs"
  obtains t where "m s = Ret () t" "con_frame s t"
    "serial_out (io_log t) = serial_out (io_log s) @ (if uart s \<noteq> 0 then bs else [])"
  using assms unfolding emits_def by blast

lemma emits_retK [emits_intros]: "emits (retK ()) []"
  by (simp add: emits_def)

lemma emits_thenK [emits_intros]:
  assumes "emits m bs" "emits n cs"
  shows "emits (thenK m n) (bs @ cs)"
  unfolding emits_def
proof
  fix s
  obtain t where t: "m s = Ret () t" "con_frame s t"
    "serial_out (io_log t) = serial_out (io_log s) @ (if uart s \<noteq> 0 then bs else [])"
    using assms(1) by (rule emits_Ret)
  obtain u where "n t = Ret () u" "con_frame t u"
    "serial_out (io_log u) = serial_out (io_log t) @ (if uart t \<noteq> 0 then cs else [])"
    using assms(2) by (rule emits_Ret)
  then show "\<exists>u. thenK m n s = Ret () u \<and> con_frame s u \<and>
      serial_out (io_log u) = serial_out (io_log s) @ (if uart s \<noteq> 0 then bs @ cs else [])"
    using t con_frame_trans [of s t u] by (simp add: con_frame_uart [of s t])
qed

lemma emits_thenK_Nil: "emits m [] \<Longrightarrow> emits n bs \<Longrightarrow> emits (thenK m n) bs"
  using emits_thenK [of m "[]" n bs] by simp

lemma emits_forK: "(\<And>x. x \<in> set xs \<Longrightarrow> emits (f x) (g x)) \<Longrightarrow> emits (forK xs f) (concat (map g xs))"
  by (induction xs) (auto intro: emits_intros)

lemma emits_forK_Nil: "(\<And>x. x \<in> set xs \<Longrightarrow> emits (f x) []) \<Longrightarrow> emits (forK xs f) []"
  by (induction xs) (auto intro: emits_intros emits_thenK_Nil)

section \<open>Serial output and scrolling\<close>

lemma uart_wait_returns:
  "\<exists>t. uart_wait n s = Ret () t \<and> con_frame s t \<and> serial_out (io_log t) = serial_out (io_log s)"
proof (induction n arbitrary: s)
  case (Suc n)
  let ?t = "s\<lparr>io_log := InB 1021 (dev8 s (io_log s) 1021) # io_log s\<rparr>"
  obtain u where "uart_wait n ?t = Ret () u" "con_frame ?t u" "serial_out (io_log u) = serial_out (io_log ?t)"
    using Suc.IH [of ?t] by blast
  then show ?case by auto
qed simp

lemma emits_uartputc [emits_intros]: "emits (uartputc c) [c]"
  unfolding emits_def
proof
  fix s :: "'a console_scheme"
  obtain t where "uart_wait 128 s = Ret () t" "con_frame s t" "serial_out (io_log t) = serial_out (io_log s)"
    using uart_wait_returns by blast
  then show "\<exists>t. uartputc c s = Ret () t \<and> con_frame s t \<and>
      serial_out (io_log t) = serial_out (io_log s) @ (if uart s \<noteq> 0 then [c] else [])"
    by (auto simp: uartputc_def)
qed

text \<open>The effect of one scroll: every row moves up, the last row is zeroed.\<close>

definition scroll_mem :: "memory \<Rightarrow> memory" where
  "scroll_mem m = (\<lambda>a. if in_region vidmem 3840 a then m (a + 160)
     else if in_region vidmem 4000 a then 0 else m a)"

lemma upd_mem_apply [simp, kern_simps]: "upd_mem f s = Ret () (s\<lparr>mem := f (mem s)\<rparr>)"
  by (simp add: upd_mem_def)

lemma forK_upd_mem:
  "forK xs (\<lambda>i. upd_mem (f i)) s = Ret () (s\<lparr>mem := fold f xs (mem s)\<rparr>)"
  by (induction xs arbitrary: s) auto

lemma unat_offset_lt:
  assumes "in_region a n x" "n + k \<le> 4294967296"
  shows "unat (x + of_nat k - a) = unat (x - a) + k"
proof -
  have "unat (x - a) + k < 4294967296" "k < 4294967296"
    using assms by (simp_all add: in_region_def)
  then have "unat ((x - a) + of_nat k) = unat (x - a) + k" by (simp add: unat_add32 unat_of_nat32)
  moreover have "x + of_nat k - a = (x - a) + of_nat k" by simp
  ultimately show ?thesis by (simp only:)
qed

lemma in_region_split:
  assumes "n + k \<le> 4294967296"
  shows "in_region a (n + k) x \<longleftrightarrow> in_region a n x \<or> in_region (a + of_nat n) k x"
proof (cases "in_region a n x")
  case True
  then show ?thesis by (simp add: in_region_def)
next
  case False
  show ?thesis
  proof (cases "n < 4294967296")
    case True
    then show ?thesis using False in_region_shift [of "of_nat n" "n + k" a x] by (simp add: unat_of_nat32)
  next
    case n: False
    then have "k = 0" using assms by simp
    then show ?thesis by simp
  qed
qed

lemma in_region_after:
  assumes "n + k \<le> 4294967296" "in_region a n x"
  shows "\<not> in_region (a + of_nat n) k x"
proof (cases "k = 0 \<or> n = 0")
  case False
  then have "disjoint_regions a n (a + of_nat n) k"
    using assms(1) unat_sub32 [of 0 "of_nat n"] by (auto simp: disjoint_regions_def unat_of_nat32)
  then show ?thesis using assms(2) disjoint_regionsD by blast
qed (use assms(2) in auto)

lemma copy_row_eq:
  assumes "k < 24"
  shows "copy_row (Suc k) m =
    (\<lambda>a. if in_region (vidmem + of_nat (160 * k)) 160 a then m (a + 160) else m a)"
proof -
  let ?d = "vidmem + of_nat (160 * k)"
  have d: "vidmem + of_int (get_screen_offset 0 (int (Suc k) - 1)) = ?d"
    and s: "vidmem + of_int (get_screen_offset 0 (int (Suc k))) = ?d + 160"
    by (simp_all add: get_screen_offset_def algebra_simps)
  have c: "of_int (MAX_COLS * 2) = (160 :: u32)" by simp
  have "disjoint_regions ?d (unat (160 :: u32)) (?d + 160) (unat (160 :: u32))"
    by (simp add: disjoint_regions_def unat_sub32)
  then have "snd (memcpy m ?d (?d + 160) 160) =
      (\<lambda>a. if in_region ?d 160 a then m (?d + 160 + (a - ?d)) else m a)"
    using memcpy_disjoint [of ?d 160 "?d + 160" m] by simp
  moreover have "?d + 160 + (a - ?d) = a + 160" for a by simp
  ultimately show ?thesis unfolding copy_row_def d s c by (simp only:)
qed

lemma scroll_rows:
  "k \<le> 24 \<Longrightarrow> fold copy_row [1 ..< Suc k] m =
    (\<lambda>a. if in_region vidmem (160 * k) a then m (a + 160) else m a)"
proof (induction k)
  case (Suc k)
  let ?d = "vidmem + of_nat (160 * k)"
  have not_below: "\<not> in_region vidmem (160 * k) (a + 160)" if "in_region ?d 160 a" for a
  proof -
    have "unat (a - vidmem) = unat (a - ?d) + 160 * k"
      using unat_offset_lt [of 0 160 "a - ?d" "160 * k"] that Suc.prems
      by (simp add: in_region_def algebra_simps)
    moreover from this have "unat (a + of_nat 160 - vidmem) = unat (a - vidmem) + 160"
      using that Suc.prems by (intro unat_offset_lt [of _ 4000]) (auto simp: in_region_def)
    ultimately show ?thesis by (simp add: in_region_def)
  qed
  have split: "in_region vidmem (160 * Suc k) a \<longleftrightarrow> in_region vidmem (160 * k) a \<or> in_region ?d 160 a" for a
    using in_region_split [of "160 * k" 160 vidmem a] Suc.prems
    by (simp add: algebra_simps del: of_nat_mult)
  have "fold copy_row [1 ..< Suc (Suc k)] m = copy_row (Suc k) (fold copy_row [1 ..< Suc k] m)"
    by simp
  also have "\<dots> = copy_row (Suc k) (\<lambda>a. if in_region vidmem (160 * k) a then m (a + 160) else m a)"
    using Suc.prems by (subst Suc.IH) simp_all
  also have "\<dots> = (\<lambda>a. if in_region vidmem (160 * Suc k) a then m (a + 160) else m a)"
    using Suc.prems not_below unfolding split by (auto simp: copy_row_eq fun_eq_iff simp del: of_nat_mult)
  finally show ?case .
qed simp

lemma blank_bytes:
  "k \<le> 160 \<Longrightarrow> fold blank_byte [0 ..< k] m = (\<lambda>a. if in_region (vidmem + 3840) k a then 0 else m a)"
  by (induction k)
     (auto simp: blank_byte_def get_screen_offset_def in_region_Suc_last fun_eq_iff)

lemma handle_scrolling_apply:
  "handle_scrolling ofs s = (if ofs < 4000 then Ret ofs s
     else Ret (ofs - 160) (s\<lparr>mem := scroll_mem (mem s)\<rparr>))"
proof -
  have "fold blank_byte [0 ..< 160] (fold copy_row [1 ..< 25] m) = scroll_mem m" for m
    using scroll_rows [of 24 m] blank_bytes [of 160] in_region_split [of 3840 160 vidmem]
      in_region_after [of 3840 160 vidmem]
    by (auto simp: scroll_mem_def fun_eq_iff)
  then show ?thesis by (simp add: handle_scrolling_def forK_upd_mem del: upt_conv_Cons)
qed

section \<open>Characters on the screen\<close>

definition put_cell :: "int \<Rightarrow> u8 \<Rightarrow> u8 \<Rightarrow> memory \<Rightarrow> memory" where
  "put_cell ofs c attr m = m(vidmem + of_int ofs := c, vidmem + of_int (ofs + 1) := attr)"

lemma set_cursor_returns:
  "\<exists>t. set_cursor ofs s = Ret () t \<and> con_frame s t \<and> serial_out (io_log t) = serial_out (io_log s)"
  by (simp add: set_cursor_def Let_def)

lemma get_cursor_returns:
  "\<exists>p t. get_cursor s = Ret (2 * p) t \<and> 0 \<le> p \<and> p < 65536 \<and> con_frame s t \<and> mem t = mem s \<and>
     serial_out (io_log t) = serial_out (io_log s)"
proof -
  have "\<exists>p. 512 * uint h + uint l * 2 = 2 * p \<and> 0 \<le> p \<and> p < 65536" for h l :: u8
    using uint_lt2p [of h] uint_lt2p [of l] by (intro exI [of _ "256 * uint h + uint l"]) simp
  then show ?thesis by (simp add: get_cursor_def)
qed

lemma in_window:
  assumes "0 \<le> ofs" "ofs < 131072"
  shows "in_region vidmem 131072 (vidmem + of_int ofs)"
proof -
  have "of_int ofs = (of_nat (nat ofs) :: addr)" using assms by simp
  then show ?thesis using assms by (simp add: in_region_def unat_of_nat32 del: of_nat_nat)
qed

lemma con_frame_put_cell:
  assumes "0 \<le> ofs" "ofs < 131071"
  shows "con_frame s (s\<lparr>mem := put_cell ofs c attr (mem s)\<rparr>)"
  using in_window [of ofs] in_window [of "ofs + 1"] assms by (auto simp: con_frame_def put_cell_def)

lemma con_frame_scroll: "con_frame s (s\<lparr>mem := scroll_mem (mem s)\<rparr>)"
  by (auto simp: con_frame_def scroll_mem_def dest: in_region_mono [of _ _ _ 131072])

text \<open>The position a character goes to, and the state after it was put there.\<close>

definition char_pos :: "u8 \<Rightarrow> int \<Rightarrow> int" where
  "char_pos c ofs = (if c = 10 then get_screen_offset 79 (ofs div 160) else ofs) + 2"

lemma print_char_at:
  assumes "char_offset col row s = Ret ofs t"
  shows "print_char c col row attr s =
    (let m = (if c = 10 then mem t else put_cell ofs c (if attr = 0 then WHITE_ON_BLACK else attr) (mem t));
         p = char_pos c ofs
     in if p < 4000 then set_cursor p (t\<lparr>mem := m\<rparr>) else set_cursor (p - 160) (t\<lparr>mem := scroll_mem m\<rparr>))"
  using assms by (cases "c = 10")
    (simp_all add: print_char_def Let_def handle_scrolling_apply char_pos_def put_cell_def)

lemma print_char_frame:
  assumes "char_offset col row s = Ret ofs t" "con_frame s t"
    "serial_out (io_log t) = serial_out (io_log s)" "0 \<le> ofs" "ofs < 131071"
  shows "\<exists>u. print_char c col row attr s = Ret () u \<and> con_frame s u \<and>
    serial_out (io_log u) = serial_out (io_log s)"
proof -
  let ?m = "if c = 10 then mem t else put_cell ofs c (if attr = 0 then WHITE_ON_BLACK else attr) (mem t)"
  have m: "con_frame s (t\<lparr>mem := ?m\<rparr>)"
    using con_frame_trans [OF assms(2) con_frame_put_cell [OF assms(4,5)]] assms(2) by simp
  have "con_frame s (t\<lparr>mem := scroll_mem ?m\<rparr>)"
    using con_frame_trans [OF m con_frame_scroll] by (simp cong: if_cong)
  then show ?thesis
    using m set_cursor_returns [of "char_pos c ofs" "t\<lparr>mem := ?m\<rparr>"]
      set_cursor_returns [of "char_pos c ofs - 160" "t\<lparr>mem := scroll_mem ?m\<rparr>"] assms(3)
    unfolding print_char_at [OF assms(1)] Let_def
    by (cases "char_pos c ofs < 4000") (auto intro: con_frame_trans split del: if_split cong: if_cong)
qed

lemma emits_print_char [emits_intros]: "emits (print_char c (- 1) (- 1) attr) []"
  unfolding emits_def
proof
  fix s :: "'a console_scheme"
  obtain p t where "get_cursor s = Ret (2 * p) t" "0 \<le> p" "p < 65536" "con_frame s t"
    "serial_out (io_log t) = serial_out (io_log s)"
    using get_cursor_returns [of s] by blast
  then show "\<exists>t. print_char c (- 1) (- 1) attr s = Ret () t \<and> con_frame s t \<and>
      serial_out (io_log t) = serial_out (io_log s) @ (if uart s \<noteq> 0 then [] else [])"
    using print_char_frame [of "- 1" "- 1" s "2 * p" t c attr] by (auto simp: char_offset_def)
qed

lemma emits_print_char_at:
  assumes "0 \<le> col" "col < 80" "0 \<le> row" "row < 25"
  shows "emits (print_char c col row attr) []"
  unfolding emits_def
proof
  fix s :: "'a console_scheme"
  have "char_offset col row s = Ret (get_screen_offset col row) s" using assms by (simp add: char_offset_def)
  then show "\<exists>t. print_char c col row attr s = Ret () t \<and> con_frame s t \<and>
      serial_out (io_log t) = serial_out (io_log s) @ (if uart s \<noteq> 0 then [] else [])"
    using print_char_frame [of col row s "get_screen_offset col row" s c attr] assms
    by (auto simp: get_screen_offset_def)
qed

lemma emits_set_cursor [emits_intros]: "emits (set_cursor ofs) []"
  using set_cursor_returns by (auto simp: emits_def)

lemma emits_clear_screen: "emits clear_screen []"
  unfolding clear_screen_def
  by (intro emits_thenK_Nil emits_forK_Nil emits_set_cursor emits_print_char_at) auto

lemma emits_consputc [emits_intros]: "c \<noteq> BACKSPACE \<Longrightarrow> emits (consputc c) [word_of_int c]"
  using emits_thenK [OF emits_uartputc emits_print_char] by (simp add: consputc_def)

section \<open>What formatted output sends\<close>

text \<open>
  The text that a call of \<open>cprintf\<close> stands for, as a function of the format and the
  arguments; \<open>None\<close> when the arguments do not fit the format.
\<close>

definition num_text :: "nat \<Rightarrow> nat \<Rightarrow> string" where
  "num_text base x = rev (map (\<lambda>d. digits ! d) (int_digits base x))"

definition dec_text :: "int \<Rightarrow> string" where
  "dec_text i = (if i < 0 then CHR ''-'' # num_text 10 (nat (- i)) else num_text 10 (nat i))"

definition ptr_text :: "u64 \<Rightarrow> string" where
  "ptr_text x = ''0x'' @ map (\<lambda>i. digits ! (unat x div 16 ^ (15 - i) mod 16)) [0 ..< 16]"

fun format_text :: "string \<Rightarrow> carg list \<Rightarrow> string option" where
  "format_text [] args = Some []"
| "format_text (c # fmt) args =
     (if c = CHR 0x00 then Some []
      else if c \<noteq> CHR ''%'' then map_option (Cons c) (format_text fmt args)
      else (case fmt of
          [] \<Rightarrow> Some []
        | d # fmt' \<Rightarrow>
            if d = CHR 0x00 then Some []
            else if d = CHR ''d'' then
              (case args of CWord w # as \<Rightarrow> map_option (append (dec_text (sint w))) (format_text fmt' as)
                | _ \<Rightarrow> None)
            else if d = CHR ''x'' \<or> d = CHR ''p'' then
              (case args of CWord w # as \<Rightarrow> map_option (append (num_text 16 (unat w))) (format_text fmt' as)
                | _ \<Rightarrow> None)
            else if d = CHR ''l'' then
              (case args of CWord lo # CWord hi # as \<Rightarrow>
                  map_option (append (ptr_text (ucast lo OR push_bit 32 (ucast hi)))) (format_text fmt' as)
                | _ \<Rightarrow> None)
            else if d = CHR ''s'' then
              (case args of CStr p # as \<Rightarrow> map_option (append (c_string p)) (format_text fmt' as)
                | _ \<Rightarrow> None)
            else if d = CHR ''%'' then map_option (Cons CHR ''%'') (format_text fmt' args)
            else map_option (append [CHR ''%'', d]) (format_text fmt' args)))"

definition text_bytes :: "string \<Rightarrow> u8 list" where
  "text_bytes = map of_char"

lemma text_bytes_simps [simp]:
  "text_bytes [] = []" "text_bytes (c # cs) = of_char c # text_bytes cs"
  "text_bytes (cs @ ds) = text_bytes cs @ text_bytes ds"
  by (simp_all add: text_bytes_def)

lemma sint_u8_bound: "sint (b :: u8) < 128"
  using sint_lt [of b] by simp

lemma uint_u8_bound: "uint (b :: u8) < 256"
  using uint_lt2p [of b] by simp

lemma emits_putchar [emits_intros]: "emits (putchar c) [of_char c]"
  using emits_consputc [of "sint (of_char c :: u8)"] sint_u8_bound [of "of_char c"]
  by (simp add: putchar_def)

lemma emits_consputc_char: "emits (consputc (uint (of_char c :: u8))) [of_char c]"
  using emits_consputc [of "uint (of_char c :: u8)"] uint_u8_bound [of "of_char c"] by simp

lemma emits_putchars [emits_intros]: "emits (forK cs putchar) (text_bytes cs)"
  using emits_forK [of cs putchar "\<lambda>c. [of_char c]"]
  by (simp add: emits_putchar text_bytes_def concat_map_singleton)

lemma int_digits_length:
  "2 \<le> base \<Longrightarrow> x < base ^ Suc n \<Longrightarrow> length (int_digits base x) \<le> Suc n"
proof (induction n arbitrary: x)
  case 0
  then show ?case by (subst int_digits.simps) simp
next
  case (Suc n)
  have "x div base < base ^ Suc n"
    using Suc.prems by (simp add: less_mult_imp_div_less mult.commute)
  then show ?case using Suc.IH [of "x div base"] Suc.prems by (subst int_digits.simps) simp
qed

lemma int_digits_less: "2 \<le> base \<Longrightarrow> d \<in> set (int_digits base x) \<Longrightarrow> d < base"
proof (induction base x rule: int_digits.induct)
  case (1 base x)
  then show ?case by (subst (asm) (2) int_digits.simps) (auto split: if_splits)
qed

lemma printint_unsigned: "printint w 16 False = forK (num_text 16 (unat w)) putchar"
proof -
  have "length (int_digits 16 (unat w)) \<le> Suc 7"
    using unat_lt32 [of w] by (intro int_digits_length) simp_all
  then show ?thesis by (simp add: printint_def num_text_def Let_def)
qed

lemma printint_signed: "printint w 10 True = forK (dec_text (sint w)) putchar"
proof -
  have len: "length (int_digits 10 (unat x)) \<le> Suc 9" for x :: u32
    using unat_lt32 [of x] by (intro int_digits_length) simp_all
  have u: "uint w = sint w mod 4294967296" by (simp add: uint_sint take_bit_eq_mod)
  then have "unat w = nat (sint w)" if "0 \<le> sint w"
    using that sint_lt [of w] by (simp add: unat_eq_nat_uint)
  moreover have "unat (- w) = nat (- sint w)" if "sint w < 0"
  proof -
    have "uint (- w) = (- uint w) mod 4294967296" by (simp add: uint_word_ariths)
    also have "\<dots> = - sint w" using that sint_ge [of w] by (simp add: u mod_minus_eq)
    finally show ?thesis by (simp add: unat_eq_nat_uint)
  qed
  ultimately show ?thesis using len [of w] len [of "- w"]
    by (auto simp: printint_def num_text_def dec_text_def Let_def)
qed

lemma hex_digit:
  fixes x :: u64
  assumes "j < 16"
  shows "unat (drop_bit 60 (push_bit (4 * j) x)) = unat x div 16 ^ (15 - j) mod 16"
proof -
  have "drop_bit 60 (push_bit (4 * j) x) = take_bit 4 (drop_bit (60 - 4 * j) x)"
  proof (rule bit_word_eqI)
    fix n
    assume "n < LENGTH(64)"
    then show "bit (drop_bit 60 (push_bit (4 * j) x)) n = bit (take_bit 4 (drop_bit (60 - 4 * j) x)) n"
      using assms bit_imp_le_length [of x "60 + n - 4 * j"]
      by (auto simp: bit_simps dest: bit_imp_le_length intro: arg_cong [of _ _ "bit x"])
  qed
  also have "unat \<dots> = unat x div 2 ^ (60 - 4 * j) mod 16"
    using unsigned_less [where 'a = nat, of x]
    by (simp only: unsigned_take_bit_eq unsigned_drop_bit_eq) (simp add: take_bit_eq_mod drop_bit_eq_div)
  also have "(2 :: nat) ^ (60 - 4 * j) = 16 ^ (15 - j)"
    using power_mult [of "2 :: nat" 4 "15 - j"] by (simp add: diff_mult_distrib2)
  finally show ?thesis .
qed

lemma emits_printptr_loop:
  "j + n \<le> 16 \<Longrightarrow> emits (printptr_loop n (push_bit (4 * j) x) :: (unit, 'z console_scheme) kern)
     (text_bytes (map (\<lambda>i. digits ! (unat x div 16 ^ (15 - i) mod 16)) [j ..< j + n]))"
proof (induction n arbitrary: j)
  case (Suc n)
  let ?d = "\<lambda>i. digits ! (unat x div 16 ^ (15 - i) mod 16)"
  have "push_bit 4 (push_bit (4 * j) x) = push_bit (4 * Suc j) x" by simp
  moreover have "[j ..< j + Suc n] = j # [Suc j ..< Suc j + n]" by (simp add: upt_conv_Cons del: upt_Suc)
  moreover have "emits (thenK (putchar (?d j)) (printptr_loop n (push_bit (4 * Suc j) x))
      :: (unit, 'z console_scheme) kern) ([of_char (?d j)] @ text_bytes (map ?d [Suc j ..< Suc j + n]))"
    using Suc.prems by (intro emits_thenK emits_putchar Suc.IH) simp
  ultimately show ?case using Suc.prems
    by (simp add: hex_digit del: push_bit_push_bit upt_Suc)
qed (simp add: emits_retK)

lemma emits_printptr: "emits (printptr x) (text_bytes (ptr_text x))"
proof -
  let ?ds = "map (\<lambda>i. digits ! (unat x div 16 ^ (15 - i) mod 16)) [0 ..< 16]"
  have "emits (printptr x) ([of_char CHR ''0''] @ [of_char CHR ''x''] @ text_bytes ?ds @ [])"
    using emits_printptr_loop [of 0 16 x] unfolding printptr_def seqK.simps
    by (intro emits_intros) simp
  then show ?thesis by (simp add: ptr_text_def)
qed

lemma emits_text:
  "emits m (text_bytes t) \<Longrightarrow> emits n (text_bytes z) \<Longrightarrow> emits (thenK m n) (text_bytes (t @ z))"
  by (simp add: emits_thenK)

lemma emits_char: "emits (consputc (uint (of_char c :: u8))) (text_bytes [c])"
  by (simp add: emits_consputc_char)

lemma emits_percent: "emits (consputc 37) (text_bytes ''%'')"
  using emits_char [of "CHR ''%''"] by simp

text \<open>One conversion after a percent sign.\<close>

lemma emits_conversion:
  assumes IH: "\<And>as o'. format_text fmt as = Some o' \<Longrightarrow>
      emits (cprintf_loop fmt as :: (unit, 'z console_scheme) kern) (text_bytes o')"
    and out: "format_text (CHR ''%'' # d # fmt) args = Some out" and d: "d \<noteq> CHR 0x00"
  shows "emits (cprintf_loop (CHR ''%'' # d # fmt) args :: (unit, 'z console_scheme) kern) (text_bytes out)"
proof -
  consider "d = CHR ''d''" | "d = CHR ''x'' \<or> d = CHR ''p''" | "d = CHR ''l''" | "d = CHR ''s''"
    | "d = CHR ''%''" | "d \<notin> set ''dxpls%''" by auto
  then show ?thesis
  proof cases
    case 1
    then obtain w as z where "args = CWord w # as" "format_text fmt as = Some z" "out = dec_text (sint w) @ z"
      using out by (auto split: list.splits carg.splits)
    then show ?thesis using 1 emits_text [OF emits_putchars IH, of as z] by (simp add: printint_signed)
  next
    case 2
    then obtain w as z where "args = CWord w # as" "format_text fmt as = Some z" "out = num_text 16 (unat w) @ z"
      using out by (auto split: list.splits carg.splits)
    then show ?thesis using 2 emits_text [OF emits_putchars IH, of as z] by (auto simp: printint_unsigned)
  next
    case 3
    then obtain lo hi as z where "args = CWord lo # CWord hi # as" "format_text fmt as = Some z"
      "out = ptr_text (ucast lo OR push_bit 32 (ucast hi)) @ z"
      using out by (auto split: list.splits carg.splits)
    then show ?thesis using 3 emits_text [OF emits_printptr IH, of as z] by simp
  next
    case 4
    then obtain q as z where "args = CStr q # as" "format_text fmt as = Some z" "out = c_string q @ z"
      using out by (auto split: list.splits carg.splits)
    then show ?thesis using 4 emits_text [OF emits_putchars IH, of as z] by simp
  next
    case 5
    then obtain z where "format_text fmt args = Some z" "out = ''%'' @ z" using out by auto
    then show ?thesis using 5 emits_text [OF emits_percent IH, of args z] by simp
  next
    case 6
    then obtain z where "format_text fmt args = Some z" "out = ''%'' @ [d] @ z" using out d by auto
    then show ?thesis using 6 d emits_text [OF emits_percent emits_text [OF emits_char IH], of args z d] by simp
  qed
qed

lemma cprintf_loop_stops:
  assumes "c = CHR 0x00 \<or> c = CHR ''%'' \<and> (fs = [] \<or> hd fs = CHR 0x00)"
  shows "cprintf_loop (c # fs) args = retK ()" "format_text (c # fs) args = Some []"
  using assms by (cases fs; force)+

lemma emits_cprintf_loop:
  "format_text fmt args = Some out \<Longrightarrow>
     emits (cprintf_loop fmt args :: (unit, 'z console_scheme) kern) (text_bytes out)"
proof (induction "length fmt" arbitrary: fmt args out rule: less_induct)
  case less
  show ?case
  proof (cases fmt)
    case Nil
    then show ?thesis using less.prems emits_retK by simp
  next
    case (Cons c fs)
    have IH: "emits (cprintf_loop f as :: (unit, 'z console_scheme) kern) (text_bytes z)"
      if "format_text f as = Some z" "f = fs \<or> f = tl fs" for f as z
      using that Cons by (intro less.hyps) auto
    consider "c = CHR 0x00 \<or> c = CHR ''%'' \<and> (fs = [] \<or> hd fs = CHR 0x00)"
      | "c \<noteq> CHR 0x00" "c \<noteq> CHR ''%''" | d fmt' where "c = CHR ''%''" "fs = d # fmt'" "d \<noteq> CHR 0x00"
      by (cases fs) auto
    then show ?thesis
    proof cases
      case 1
      then show ?thesis using emits_retK less.prems by (simp only: Cons cprintf_loop_stops) simp
    next
      case 2
      then obtain z where "format_text fs args = Some z" "out = [c] @ z" using less.prems Cons by auto
      then show ?thesis using 2 Cons emits_text [OF emits_char [of c] IH, of fs args z] by simp
    next
      case 3
      have "emits (cprintf_loop (CHR ''%'' # d # fmt') args :: (unit, 'z console_scheme) kern) (text_bytes out)"
        by (rule emits_conversion [OF IH]) (use 3 less.prems Cons in auto)
      then show ?thesis by (simp only: Cons 3)
    qed
  qed
qed

section \<open>Output under the console lock\<close>

text \<open>
  \<open>cprintf_frame s t\<close>: a completed call leaves the state as \<open>con_frame\<close> says, except for
  the lock it took and released and the interrupt flag saved for it.
\<close>

definition cprintf_frame :: "'z console_scheme \<Rightarrow> 'z console_scheme \<Rightarrow> bool" where
  "cprintf_frame s t \<longleftrightarrow> same_sync s t \<and> cr3 t = cr3 s \<and> kstk t = kstk s \<and>
     dev8 t = dev8 s \<and> dev16 t = dev16 s \<and> dev32 t = dev32 s \<and>
     (\<forall>a. \<not> in_region vidmem 131072 a \<longrightarrow> mem t a = mem s a) \<and>
     cons_locking t = cons_locking s \<and> uart t = uart s \<and> console.more t = console.more s"

lemma cprintf_frame_refl [simp]: "cprintf_frame s s"
  by (simp add: cprintf_frame_def)

lemma cprintf_frame_trans: "cprintf_frame s t \<Longrightarrow> cprintf_frame t u \<Longrightarrow> cprintf_frame s u"
  by (auto simp: cprintf_frame_def intro: same_sync_trans)

lemma con_frame_cprintf_frame: "con_frame s t \<Longrightarrow> cprintf_frame s t"
  unfolding con_frame_def cprintf_frame_def
  by (intro conjI same_sync_eq) (auto dest: more_eqD)

lemma cpu_more_eqD:
  fixes s t :: "'z console_scheme"
  assumes "cpu_machine.more t = cpu_machine.more s"
  shows "cons_locking t = cons_locking s" "uart t = uart s" "console.more t = console.more s"
proof -
  have "t = s\<lparr>mem := mem t, eflags := eflags t, cr3 := cr3 t, kstk := kstk t, io_log := io_log t,
    dev8 := dev8 t, dev16 := dev16 t, dev32 := dev32 t, cpus := cpus t, locks := locks t\<rparr>"
    using assms by (intro cpu_machine.equality) simp_all
  note eq = this
  show "cons_locking t = cons_locking s" using arg_cong [OF eq, of cons_locking] by simp
  show "uart t = uart s" using arg_cong [OF eq, of uart] by simp
  show "console.more t = console.more s" using arg_cong [OF eq, of console.more] by simp
qed

lemma console_ext_acquired [simp]:
  "cons_locking (acquired lk s) = cons_locking s" "uart (acquired lk s) = uart s"
  "console.more (acquired lk s) = console.more s"
  by (rule cpu_more_eqD, simp)+

lemma console_ext_released [simp]:
  "cons_locking (released lk s) = cons_locking s" "uart (released lk s) = uart s"
  "console.more (released lk s) = console.more s"
  by (rule cpu_more_eqD, simp)+

text \<open>When the console can be used: its lock is free, or it does not use its lock.\<close>

definition cons_ready :: "'z console_scheme \<Rightarrow> bool" where
  "cons_ready s \<longleftrightarrow> cons_locking s = 0 \<or> sync_ok s \<and> lock_free ConsLock s"

lemma cons_ready_frame: "cprintf_frame s t \<Longrightarrow> cons_ready t = cons_ready s"
  using same_sync_ok [of s t] by (auto simp: cprintf_frame_def cons_ready_def same_sync_def)

lemma cprintf_returns:
  assumes ready: "cons_ready s" and out: "format_text fmt args = Some out"
  shows "\<exists>t. cprintf (Some fmt) args s = Ret () t \<and> cprintf_frame s t \<and>
    serial_out (io_log t) = serial_out (io_log s) @ (if uart s \<noteq> 0 then text_bytes out else [])"
proof (cases "cons_locking s = 0")
  case True
  obtain t where "cprintf_loop fmt args s = Ret () t" "con_frame s t"
    "serial_out (io_log t) = serial_out (io_log s) @ (if uart s \<noteq> 0 then text_bytes out else [])"
    using emits_cprintf_loop [OF out] by (rule emits_Ret)
  then show ?thesis using True by (simp add: cprintf_def con_frame_cprintf_frame)
next
  case False
  let ?a = "acquired ConsLock s"
  have ok: "sync_ok s" "cli_ok s" and free: "lock_free ConsLock s"
    using ready False by (auto simp: cons_ready_def sync_ok_def)
  obtain t where t: "cprintf_loop fmt args ?a = Ret () t" "con_frame ?a t"
    "serial_out (io_log t) = serial_out (io_log s) @ (if uart s \<noteq> 0 then text_bytes out else [])"
    using emits_Ret [OF emits_cprintf_loop [OF out], of ?a] by auto
  then have eq: "eflags t = eflags ?a" "cpus t = cpus ?a" "locks t = locks ?a"
    "console.more t = console.more s" "uart t = uart s" "cons_locking t = cons_locking s"
    unfolding con_frame_def using more_eqD [of t ?a] by auto
  have rel: "release ConsLock t = Ret () (released ConsLock t)"
  proof (rule release_held)
    show "lock_held ConsLock t" using eq(3) acquired_simps(12) [of ConsLock s] by (simp add: lock_held_def)
    show "0 < ncli (cpus t 0)" using eq(2) ok(2) by (simp add: cli_ok_def)
    then show "cli_ok t" using eq(1) acquired_simps(9) [of ConsLock s] by (simp add: cli_ok_def IF_on_def)
  qed
  have "cprintf_frame s (released ConsLock t)"
    using t(2) eq section_same_sync [OF ok(2) free eq(1-3)] by (simp add: cprintf_frame_def con_frame_def)
  then show ?thesis using False t rel acquire_free [OF ok(2) free] by (simp add: cprintf_def)
qed

lemma callchain_length: "length (callchain m ebp n) = n"
  by (induction n arbitrary: ebp) auto

lemma getcallerpcs_length: "length (getcallerpcs m v) = 10"
  by (simp add: getcallerpcs_def callchain_length)

definition trace_text :: "u32 list \<Rightarrow> string" where
  "trace_text pcs = concat (map (\<lambda>pc. CHR '' '' # num_text 16 (unat pc)) pcs)"

text \<open>With the lock switched off, \<open>cprintf\<close> needs nothing of the lock state.\<close>

lemma cprintf_unlocked:
  assumes "cons_locking s = 0" "format_text fmt args = Some out"
  shows "\<exists>t. cprintf (Some fmt) args s = Ret () t \<and> con_frame s t \<and>
    serial_out (io_log t) = serial_out (io_log s) @ (if uart s \<noteq> 0 then text_bytes out else [])"
proof -
  obtain t where "cprintf_loop fmt args s = Ret () t" "con_frame s t"
    "serial_out (io_log t) = serial_out (io_log s) @ (if uart s \<noteq> 0 then text_bytes out else [])"
    using emits_cprintf_loop [OF assms(2)] by (rule emits_Ret)
  then show ?thesis using assms(1) by (simp add: cprintf_def)
qed

lemma con_frame_locking: "con_frame s t \<Longrightarrow> cons_locking t = cons_locking s"
  unfolding con_frame_def by (blast dest: more_eqD(3))

lemma trace_unlocked:
  "cons_locking s = 0 \<Longrightarrow> \<exists>t. forK pcs (\<lambda>pc. cprintf (Some '' %p'') [CWord pc]) s = Ret () t \<and> con_frame s t \<and>
    serial_out (io_log t) = serial_out (io_log s) @ (if uart s \<noteq> 0 then text_bytes (trace_text pcs) else [])"
proof (induction pcs arbitrary: s)
  case Nil
  then show ?case by (simp add: trace_text_def)
next
  case (Cons pc pcs)
  have "format_text '' %p'' [CWord pc] = Some (CHR '' '' # num_text 16 (unat pc))" by simp
  then obtain t where t: "cprintf (Some '' %p'') [CWord pc] s = Ret () t" "con_frame s t"
    "serial_out (io_log t) = serial_out (io_log s) @
       (if uart s \<noteq> 0 then text_bytes (CHR '' '' # num_text 16 (unat pc)) else [])"
    using cprintf_unlocked [OF Cons.prems] by blast
  obtain u where "forK pcs (\<lambda>pc. cprintf (Some '' %p'') [CWord pc]) t = Ret () u" "con_frame t u"
    "serial_out (io_log u) = serial_out (io_log t) @ (if uart t \<noteq> 0 then text_bytes (trace_text pcs) else [])"
    using Cons.IH [of t] Cons.prems con_frame_locking [OF t(2)] by auto
  then show ?case using t con_frame_trans [of s t u] con_frame_uart [OF t(2)]
    by (simp add: trace_text_def)
qed

section \<open>Reading numbers back\<close>

definition digit_value :: "char \<Rightarrow> nat" where
  "digit_value c = length (takeWhile (\<lambda>d. d \<noteq> c) digits)"

definition num_value :: "nat \<Rightarrow> string \<Rightarrow> nat" where
  "num_value base cs = foldl (\<lambda>acc c. acc * base + digit_value c) 0 cs"

definition int_value :: "string \<Rightarrow> int" where
  "int_value cs = (case cs of c # ds \<Rightarrow> if c = CHR ''-'' then - int (num_value 10 ds) else int (num_value 10 cs)
     | [] \<Rightarrow> 0)"

lemma digit_value_digits: "d < 16 \<Longrightarrow> digit_value (digits ! d) = d"
proof -
  have "\<forall>d \<in> set [0 ..< 16]. digit_value (digits ! d) = d" by code_simp
  then show "d < 16 \<Longrightarrow> ?thesis" by simp
qed

lemma digits_not_minus: "d < 16 \<Longrightarrow> digits ! d \<noteq> CHR ''-''"
proof -
  have "\<forall>d \<in> set [0 ..< 16]. digits ! d \<noteq> CHR ''-''" by code_simp
  then show "d < 16 \<Longrightarrow> ?thesis" by simp
qed

lemma num_value_text:
  assumes "2 \<le> base" "base \<le> 16"
  shows "num_value base (num_text base x) = x"
  using assms
proof (induction base x rule: int_digits.induct)
  case (1 base x)
  have snoc: "num_value base (cs @ [c]) = num_value base cs * base + digit_value c" for cs c
    by (simp add: num_value_def)
  have "digit_value (digits ! (x mod base)) = x mod base"
    using 1 by (intro digit_value_digits) (simp add: less_le_trans [OF mod_less_divisor])
  moreover have "num_value base [] = 0" by (simp add: num_value_def)
  ultimately show ?case using 1
    by (simp add: num_text_def int_digits.simps [of base x] snoc) (metis snoc append_Nil div_mult_mod_eq add_0 mult_0)
qed

lemma num_text_hd: "2 \<le> base \<Longrightarrow> base \<le> 16 \<Longrightarrow> \<exists>c cs. num_text base x = c # cs \<and> c \<noteq> CHR ''-''"
proof -
  assume b: "2 \<le> base" "base \<le> 16"
  have ne: "int_digits base x \<noteq> []" by (subst int_digits.simps) simp
  then have "num_text base x = digits ! last (int_digits base x) # tl (num_text base x)"
    unfolding num_text_def by (metis hd_Cons_tl hd_rev last_map list.map_disc_iff rev_is_Nil_conv)
  moreover have "last (int_digits base x) < 16"
    using int_digits_less [OF b(1) last_in_set [OF ne]] b(2) by simp
  ultimately show ?thesis using digits_not_minus by metis
qed

lemma int_value_text: "int_value (dec_text i) = i"
proof (cases "i < 0")
  case True
  then show ?thesis using num_value_text [of 10 "nat (- i)"] by (simp add: dec_text_def int_value_def)
next
  case False
  obtain c cs where "num_text 10 (nat i) = c # cs" "c \<noteq> CHR ''-''" using num_text_hd [of 10 "nat i"] by auto
  then show ?thesis using False num_value_text [of 10 "nat i"] by (simp add: dec_text_def int_value_def)
qed

section \<open>Properties\<close>

definition boot_console :: console where
  "boot_console = \<lparr>mem = (\<lambda>_. 0), eflags = 2, cr3 = 0, kstk = 0x80104000, io_log = [],
     dev8 = (\<lambda>_ _. 0), dev16 = (\<lambda>_ _. 0), dev32 = (\<lambda>_ _. 0),
     cpus = (\<lambda>_. zero_cpu), locks = (\<lambda>_. zero_lock), cons_locking = 1, uart = 1\<rparr>"

lemma boot_console_free: "lock_free lk boot_console"
  by (simp add: lock_free_def boot_console_def zero_lock_def)

lemma boot_console_sync: "sync_ok boot_console"
  by (auto simp: sync_ok_def boot_console_free held_locks_none)
     (simp_all add: cli_ok_def boot_console_def zero_cpu_def)

text \<open>C10: \<open>cprintf\<close> refines its format. Whatever the devices answer, a call whose
  arguments fit the format returns; the serial port receives exactly the formatted text,
  the console lock and the interrupt state are as before, and no memory outside the video
  window is written.\<close>

theorem cprintf_spec:
  assumes "cons_ready s" and "format_text fmt args = Some out"
  shows "\<exists>t. cprintf (Some fmt) args s = Ret () t \<and> same_sync s t \<and>
    (\<forall>a. \<not> in_region vidmem 131072 a \<longrightarrow> mem t a = mem s a) \<and> console.more t = console.more s \<and>
    serial_out (io_log t) = serial_out (io_log s) @ (if uart s \<noteq> 0 then text_bytes out else [])"
  using cprintf_returns [OF assms] by (auto simp: cprintf_frame_def)

theorem cprintf_spec_witness:
  "\<exists>t. cprintf (Some ''n=%d %s'') [CWord (- 42), CStr None] boot_console = Ret () t \<and>
    serial_out (io_log t) = text_bytes ''n=-42 (null)''"
proof -
  have fmt: "format_text ''n=%d %s'' [CWord (- 42), CStr None] = Some ''n=-42 (null)''"
    by (simp add: dec_text_def num_text_def int_digits.simps digits_def c_string_def)
  have "cons_ready boot_console" by (simp add: cons_ready_def boot_console_sync boot_console_free)
  from cprintf_spec [OF this fmt] show ?thesis by (auto simp: boot_console_def)
qed

text \<open>C20: number output loses nothing. The text of a \<open>%d\<close> conversion reads back as the
  signed value of the argument, the text of \<open>%x\<close> and \<open>%p\<close> as its unsigned value, and the
  digit buffer of \<open>printint\<close> (16 characters) is never overrun.\<close>

theorem printint_roundtrip:
  "(\<exists>txt. printint w 10 True = forK txt putchar \<and> int_value txt = sint w \<and> length txt \<le> 16) \<and>
   (\<exists>txt. printint w 16 False = forK txt putchar \<and> num_value 16 txt = unat w \<and> length txt \<le> 16)"
proof
  have "nat \<bar>sint w\<bar> < 10 ^ Suc 9" using sint_ge [of w] sint_lt [of w] by auto
  then have "length (dec_text (sint w)) \<le> 16"
    using int_digits_length [of 10 "nat \<bar>sint w\<bar>" 9] by (auto simp: dec_text_def num_text_def)
  then show "\<exists>txt. printint w 10 True = forK txt putchar \<and> int_value txt = sint w \<and> length txt \<le> 16"
    using printint_signed [of w] int_value_text [of "sint w"] by blast
  have "length (num_text 16 (unat w)) \<le> 16"
    using int_digits_length [of 16 "unat w" 7] unat_lt32 [of w] by (simp add: num_text_def)
  then show "\<exists>txt. printint w 16 False = forK txt putchar \<and> num_value 16 txt = unat w \<and> length txt \<le> 16"
    using printint_unsigned [of w] num_value_text [of 16 "unat w"] by auto
qed

lemma panic_output_returns:
  assumes "format_text msg [] = Some out"
  shows "\<exists>t pcs. panic_output msg s = Ret () t \<and> \<not> IF_on t \<and> length pcs = 10 \<and>
    serial_out (io_log t) = serial_out (io_log s) @
      (if uart s \<noteq> 0 then text_bytes (''panic: '' @ out @ ''\<newline>'' @ trace_text pcs) else [])"
proof -
  let ?s = "s\<lparr>eflags := eflags s AND NOT FL_IF, cons_locking := 0\<rparr>"
  have fmts: "format_text ''panic: '' [] = Some ''panic: ''" "format_text ''\<newline>'' [] = Some ''\<newline>''"
    by simp_all
  obtain a where a: "cprintf (Some ''panic: '') [] ?s = Ret () a" "con_frame ?s a"
    "serial_out (io_log a) = serial_out (io_log ?s) @ (if uart ?s \<noteq> 0 then text_bytes ''panic: '' else [])"
    using cprintf_unlocked [OF _ fmts(1), of ?s] by auto
  have al: "cons_locking a = 0" "uart a = uart s"
    using con_frame_locking [OF a(2)] con_frame_uart [OF a(2)] by simp_all
  obtain b where b: "cprintf (Some msg) [] a = Ret () b" "con_frame a b"
    "serial_out (io_log b) = serial_out (io_log a) @ (if uart a \<noteq> 0 then text_bytes out else [])"
    using cprintf_unlocked [OF al(1) assms] by auto
  have bl: "cons_locking b = 0" "uart b = uart s"
    using con_frame_locking [OF b(2)] con_frame_uart [OF b(2)] al by simp_all
  obtain c where c: "cprintf (Some ''\<newline>'') [] b = Ret () c" "con_frame b c"
    "serial_out (io_log c) = serial_out (io_log b) @ (if uart b \<noteq> 0 then text_bytes ''\<newline>'' else [])"
    using cprintf_unlocked [OF bl(1) fmts(2)] by auto
  have cl: "cons_locking c = 0" "uart c = uart s"
    using con_frame_locking [OF c(2)] con_frame_uart [OF c(2)] bl by simp_all
  let ?pcs = "getcallerpcs (mem c) (kstk c)"
  obtain d where d: "forK ?pcs (\<lambda>pc. cprintf (Some '' %p'') [CWord pc]) c = Ret () d" "con_frame c d"
    "serial_out (io_log d) = serial_out (io_log c) @ (if uart c \<noteq> 0 then text_bytes (trace_text ?pcs) else [])"
    using trace_unlocked [OF cl(1)] by blast
  have run: "panic_output msg s = Ret () d" using a(1) b(1) c(1) d(1) by (simp add: panic_output_def cli_def)
  have "con_frame ?s d" using a(2) b(2) c(2) d(2) by (blast intro: con_frame_trans)
  then have "\<not> IF_on d" by (simp add: con_frame_def IF_on_def)
  then show ?thesis using run a(3) b(3) c(3) d(3) al(2) bl(2) cl(2)
    by (intro exI [of _ d] exI [of _ ?pcs]) (simp add: getcallerpcs_length)
qed



end
