(* ===== verification/Tty.thy ===== *)
theory Tty
  imports Console
begin

text \<open>
  The screen as a terminal. The VGA adapter is hardware: what the two cursor registers of
  its controller hold is computed from the port accesses (\<open>vga_reg\<close>), and \<open>crtc s\<close> is the
  hypothesis that reading the data port returns the selected register. Under it the video
  memory and the cursor implement an abstract terminal \<open>tty_put\<close>: 2000 cells and a
  cursor that advances, wraps at a newline and scrolls at the bottom.
\<close>

section \<open>The cursor registers\<close>

primrec vga_index :: "io_event list \<Rightarrow> u8" where
  "vga_index [] = 0"
| "vga_index (e # log) = (case e of OutB p b \<Rightarrow> if p = REG_SCREEN_CTRL then b else vga_index log
     | _ \<Rightarrow> vga_index log)"

primrec vga_reg :: "u8 \<Rightarrow> io_event list \<Rightarrow> u8" where
  "vga_reg k [] = 0"
| "vga_reg k (e # log) = (case e of
       OutB p b \<Rightarrow> if p = REG_SCREEN_DATA \<and> vga_index log = k then b else vga_reg k log
     | _ \<Rightarrow> vga_reg k log)"

definition crtc :: "'z machine_scheme \<Rightarrow> bool" where
  "crtc s \<longleftrightarrow> (\<forall>log. dev8 s log REG_SCREEN_DATA = vga_reg (vga_index log) log)"

definition cursor :: "io_event list \<Rightarrow> nat" where
  "cursor log = unat (vga_reg 14 log) * 256 + unat (vga_reg 15 log)"

section \<open>The abstract terminal\<close>

record tty =
  cells :: "nat \<Rightarrow> u8 \<times> u8"
  curs :: nat

definition tty_scroll :: "(nat \<Rightarrow> u8 \<times> u8) \<Rightarrow> nat \<Rightarrow> u8 \<times> u8" where
  "tty_scroll f i = (if i < 1920 then f (i + 80) else (0, 0))"

definition tty_advance :: "nat \<Rightarrow> (nat \<Rightarrow> u8 \<times> u8) \<Rightarrow> tty" where
  "tty_advance p f = (if p < 2000 then \<lparr>cells = f, curs = p\<rparr>
     else \<lparr>cells = tty_scroll f, curs = p - 80\<rparr>)"

definition tty_put :: "u8 \<Rightarrow> u8 \<Rightarrow> tty \<Rightarrow> tty" where
  "tty_put attr c t = (if c = 10 then tty_advance ((curs t div 80 + 1) * 80) (cells t)
     else tty_advance (curs t + 1) ((cells t)(curs t := (c, attr))))"

definition cell :: "memory \<Rightarrow> nat \<Rightarrow> u8 \<times> u8" where
  "cell m i = (if i < 2000 then (m (vidmem + of_nat (2 * i)), m (vidmem + of_nat (2 * i + 1))) else (0, 0))"

definition screen :: "'z machine_scheme \<Rightarrow> tty" where
  "screen s = \<lparr>cells = cell (mem s), curs = cursor (io_log s)\<rparr>"

section \<open>Refinement\<close>

lemma double_neq_Suc [simp]: "2 * i \<noteq> Suc (2 * p)" "Suc (2 * i) \<noteq> 2 * p"
  by presburger+

lemma cell_put:
  assumes "p < 2000"
  shows "cell (put_cell (2 * int p) c attr m) = (cell m)(p := (c, attr))"
proof
  fix i
  have e: "of_int (2 * int p) = (of_nat (2 * p) :: addr)" "of_int (2 * int p + 1) = (of_nat (2 * p + 1) :: addr)"
    by simp_all
  show "cell (put_cell (2 * int p) c attr m) i = ((cell m)(p := (c, attr))) i"
    using assms unfolding cell_def put_cell_def e fun_upd_apply
    by (cases "i < 2000") (auto simp: of_nat_eq32 simp del: of_nat_mult of_nat_add of_nat_Suc)
qed

lemma cell_scroll: "cell (scroll_mem m) = tty_scroll (cell m)"
proof
  fix i
  have r: "in_region vidmem n (vidmem + of_nat a) \<longleftrightarrow> a < n" if "a < 4000" "n \<le> 4000" for a n
    using that by (simp add: in_region_def unat_of_nat32)
  have "vidmem + of_nat a + 160 = vidmem + of_nat (a + 160)" for a by simp
  then show "cell (scroll_mem m) i = tty_scroll (cell m) i"
    by (simp add: cell_def scroll_mem_def tty_scroll_def r algebra_simps
        del: of_nat_mult of_nat_add of_nat_Suc)
qed

lemma drop_high_byte: "(x AND 65280) div 256 = (x div 256) mod (256 :: int)"
proof -
  have "drop_bit 8 (x AND push_bit 8 (mask 8)) = take_bit 8 (drop_bit 8 x)"
    by (rule bit_eqI) (auto simp only: bit_drop_bit_eq comp_def bit_and_iff bit_push_bit_iff bit_mask_iff
        bit_take_bit_iff possible_bit_int)
  moreover have "push_bit 8 (mask 8) = (65280 :: int)" by (simp add: mask_eq_exp_minus_1 push_bit_eq_mult)
  ultimately show ?thesis by (simp add: drop_bit_eq_div take_bit_eq_mod)
qed

lemma set_cursor_apply:
  assumes "p < 65536"
  shows "\<exists>t. set_cursor (2 * int p) s = Ret () t \<and> mem t = mem s \<and> dev8 t = dev8 s \<and> cursor (io_log t) = p"
proof -
  have "int p AND 255 = take_bit 8 (int p)" by (simp add: take_bit_eq_mask mask_eq_exp_minus_1)
  then have low: "int p AND 255 = int (p mod 256)" by (simp add: take_bit_eq_mod zmod_int)
  have high: "(int p AND 65280) div 256 = int (p div 256)"
    using assms by (simp add: drop_high_byte zdiv_int zmod_int)
  have "unat (word_of_int (int n) :: u8) = n" if "n < 256" for n
    using that by (simp add: unat_of_nat)
  then have "unat (word_of_int (int (p div 256)) :: u8) = p div 256"
    "unat (word_of_int (int (p mod 256)) :: u8) = p mod 256" using assms by simp_all
  then show ?thesis by (simp add: set_cursor_def Let_def cursor_def low high)
qed

lemma get_cursor_apply:
  assumes "crtc s"
  shows "\<exists>t. get_cursor s = Ret (2 * int (cursor (io_log s))) t \<and> mem t = mem s \<and> dev8 t = dev8 s \<and>
    cursor (io_log t) = cursor (io_log s)"
  using assms by (simp add: get_cursor_def crtc_def cursor_def)

lemma char_pos_eq:
  "char_pos c (2 * int p) = 2 * int (if c = 10 then (p div 80 + 1) * 80 else p + 1)"
proof -
  have "2 * int p div 160 = int (p div 80)" by (simp add: zdiv_int)
  then show ?thesis by (simp add: char_pos_def get_screen_offset_def)
qed

text \<open>A character printed at a position is a character put on the terminal there.\<close>

lemma print_char_screen:
  assumes pos: "char_offset col row s = Ret (2 * int p) u" and p: "p < 2000" and attr: "attr \<noteq> 0"
  shows "\<exists>t. print_char c col row attr s = Ret () t \<and> dev8 t = dev8 u \<and> cursor (io_log t) < 2000 \<and>
    screen t = tty_put attr c \<lparr>cells = cell (mem u), curs = p\<rparr>"
proof -
  define q where "q = (if c = 10 then (p div 80 + 1) * 80 else p + 1)"
  have q: "q \<le> 2000" using p unfolding q_def by auto
  let ?m = "if c = 10 then mem u else put_cell (2 * int p) c attr (mem u)"
  have cp: "char_pos c (2 * int p) = 2 * int q" unfolding q_def by (rule char_pos_eq)
  have run: "print_char c col row attr s =
      (if q < 2000 then set_cursor (2 * int q) (u\<lparr>mem := ?m\<rparr>)
       else set_cursor (2 * int (q - 80)) (u\<lparr>mem := scroll_mem ?m\<rparr>))"
    using attr q unfolding print_char_at [OF pos] Let_def cp by (auto simp: int_ops(6))
  have m: "cell ?m = (if c = 10 then cell (mem u) else (cell (mem u))(p := (c, attr)))"
    using cell_put [OF p] by simp
  have put: "tty_put attr c \<lparr>cells = cell (mem u), curs = p\<rparr> = tty_advance q (cell ?m)"
    by (simp add: tty_put_def m q_def)
  show ?thesis
  proof (cases "q < 2000")
    case True
    then show ?thesis using set_cursor_apply [of q "u\<lparr>mem := ?m\<rparr>"]
      unfolding put run by (auto simp: screen_def tty_advance_def)
  next
    case False
    then show ?thesis using set_cursor_apply [of "q - 80" "u\<lparr>mem := scroll_mem ?m\<rparr>"] q
      unfolding put run by (auto simp: screen_def tty_advance_def cell_scroll)
  qed
qed

lemma print_char_refines:
  assumes "crtc s" "cursor (io_log s) < 2000" "attr \<noteq> 0"
  shows "\<exists>t. print_char c (- 1) (- 1) attr s = Ret () t \<and> crtc t \<and> cursor (io_log t) < 2000 \<and>
    screen t = tty_put attr c (screen s)"
proof -
  obtain u where u: "get_cursor s = Ret (2 * int (cursor (io_log s))) u" "mem u = mem s" "dev8 u = dev8 s"
    using get_cursor_apply [OF assms(1)] by blast
  then have "char_offset (- 1) (- 1) s = Ret (2 * int (cursor (io_log s))) u" by (simp add: char_offset_def)
  then show ?thesis using print_char_screen [OF _ assms(2,3)] u(2,3) assms(1)
    by (fastforce simp: crtc_def screen_def)
qed

lemma print_chars_refine:
  "crtc s \<Longrightarrow> cursor (io_log s) < 2000 \<Longrightarrow> attr \<noteq> 0 \<Longrightarrow>
    \<exists>t. forK bs (\<lambda>b. print_char b (- 1) (- 1) attr) s = Ret () t \<and> crtc t \<and> cursor (io_log t) < 2000 \<and>
      screen t = fold (tty_put attr) bs (screen s)"
proof (induction bs arbitrary: s)
  case (Cons b bs)
  then obtain t where "print_char b (- 1) (- 1) attr s = Ret () t" "crtc t" "cursor (io_log t) < 2000"
    "screen t = tty_put attr b (screen s)"
    using print_char_refines by blast
  then show ?case using Cons.IH [of t] Cons.prems by auto
qed simp

lemma vga_attr_neq_0: "fg \<noteq> VGA_COLOR_BLACK \<Longrightarrow> vga_attr TERMINAL_DEFAULT_COLOR_BG fg \<noteq> 0"
  by (cases fg) (simp_all add: vga_attr_def TERMINAL_DEFAULT_COLOR_BG_def)

section \<open>Clearing the screen\<close>

lemma print_blank:
  assumes "k < 2000"
  shows "\<exists>t. print_char 32 (int (k mod 80)) (int (k div 80)) WHITE_ON_BLACK s = Ret () t \<and>
    screen t = tty_put WHITE_ON_BLACK 32 \<lparr>cells = cell (mem s), curs = k\<rparr>"
proof -
  have "int (k div 80 * 80 + k mod 80) = int k" by (simp only: div_mult_mod_eq)
  then have "int (k div 80) * 80 + int (k mod 80) = int k"
    by (simp only: of_nat_add of_nat_mult of_nat_numeral)
  then have "char_offset (int (k mod 80)) (int (k div 80)) s = Ret (2 * int k) s"
    by (simp add: get_screen_offset_def char_offset_def)
  moreover have "WHITE_ON_BLACK \<noteq> 0"
    by (simp add: WHITE_ON_BLACK_def TERMINAL_DEFAULT_COLOR_FG_def vga_attr_neq_0)
  ultimately show ?thesis using print_char_screen assms by blast
qed

lemma print_blanks:
  "n \<le> 1999 \<Longrightarrow> \<exists>t. forK [0 ..< n] (\<lambda>k. print_char 32 (int (k mod 80)) (int (k div 80)) WHITE_ON_BLACK) s = Ret () t \<and>
    cell (mem t) = (\<lambda>i. if i < n then (32, WHITE_ON_BLACK) else cell (mem s) i)"
proof (induction n)
  case (Suc n)
  then obtain t where t: "forK [0 ..< n] (\<lambda>k. print_char 32 (int (k mod 80)) (int (k div 80)) WHITE_ON_BLACK) s = Ret () t"
    "cell (mem t) = (\<lambda>i. if i < n then (32, WHITE_ON_BLACK) else cell (mem s) i)" by auto
  obtain u where u: "print_char 32 (int (n mod 80)) (int (n div 80)) WHITE_ON_BLACK t = Ret () u"
    "screen u = tty_put WHITE_ON_BLACK 32 \<lparr>cells = cell (mem t), curs = n\<rparr>"
    using print_blank [of n t] Suc.prems by auto
  have "cell (mem u) = (cell (mem t))(n := (32, WHITE_ON_BLACK))"
    using u(2) Suc.prems by (simp add: screen_def tty_put_def tty_advance_def)
  then show ?case using t u(1) by (auto simp: forK_append fun_eq_iff less_Suc_eq)
qed simp

lemma blank_loop:
  "forK [0 ..< 25] (\<lambda>row. forK [0 ..< 80] (\<lambda>col. print_char 32 (int col) (int row) WHITE_ON_BLACK)) =
    (forK [0 ..< 2000] (\<lambda>k. print_char 32 (int (k mod 80)) (int (k div 80)) WHITE_ON_BLACK)
      :: (unit, 'z machine_scheme) kern)"
proof -
  let ?f = "\<lambda>k. print_char 32 (int (k mod 80)) (int (k div 80)) WHITE_ON_BLACK :: (unit, 'z machine_scheme) kern"
  have "forK [0 ..< 25] (\<lambda>row. forK [0 ..< 80] (\<lambda>col. ?f (row * 80 + col))) = forK [0 ..< 2000] ?f"
    using forK_nested [of 25 80 ?f] by simp
  moreover have "forK [0 ..< 80] (\<lambda>col. print_char 32 (int col) (int row) WHITE_ON_BLACK) =
      forK [0 ..< 80] (\<lambda>col. ?f (row * 80 + col))" for row
    by (rule forK_cong) simp
  ultimately show ?thesis by (simp only:)
qed

lemma clear_screen_cells:
  "\<exists>t. clear_screen s = Ret () t \<and> cursor (io_log t) = 0 \<and>
    cell (mem t) = (\<lambda>i. if i < 1920 then (32, WHITE_ON_BLACK) else (0, 0))"
proof -
  let ?f = "\<lambda>k. print_char 32 (int (k mod 80)) (int (k div 80)) WHITE_ON_BLACK"
  obtain t where t: "forK [0 ..< 1999] ?f s = Ret () t"
    "cell (mem t) = (\<lambda>i. if i < 1999 then (32, WHITE_ON_BLACK) else cell (mem s) i)"
    using print_blanks [of 1999 s] by auto
  obtain u where u: "?f 1999 t = Ret () u"
    "screen u = tty_put WHITE_ON_BLACK 32 \<lparr>cells = cell (mem t), curs = 1999\<rparr>"
    using print_blank [of 1999 t] by auto
  have "[0 ..< 2000] = [0 ..< 1999] @ [1999]" using upt_Suc_append [of 0 1999] by simp
  then have run: "forK [0 ..< 2000] ?f s = Ret () u" using t(1) u(1) by (simp only: forK_append) simp
  have "cell (mem u) = tty_scroll ((cell (mem t))(1999 := (32, WHITE_ON_BLACK)))"
    using u(2) by (simp add: screen_def tty_put_def tty_advance_def)
  then have cells: "cell (mem u) = (\<lambda>i. if i < 1920 then (32, WHITE_ON_BLACK) else (0, 0))"
    using t(2) by (auto simp: tty_scroll_def fun_eq_iff)
  obtain v where "set_cursor 0 u = Ret () v" "mem v = mem u" "cursor (io_log v) = 0"
    using set_cursor_apply [of 0 u] by auto
  then show ?thesis using run cells unfolding clear_screen_def blank_loop
    by (intro exI [of _ v]) (simp add: get_screen_offset_def)
qed

lemma default_attr: "print_char c col row 0 = print_char c col row WHITE_ON_BLACK"
  by (rule ext) (simp add: print_char_def Let_def)

lemma WHITE_ON_BLACK_neq_0: "WHITE_ON_BLACK \<noteq> 0"
  by (simp add: WHITE_ON_BLACK_def TERMINAL_DEFAULT_COLOR_FG_def vga_attr_neq_0)

section \<open>Properties\<close>

text \<open>C17: the screen refines a terminal. On an adapter whose cursor registers hold what was
  written to them, printing bytes at the cursor puts them on the terminal one after the
  other in the requested colour (the default colour when that is black on black): each
  occupies one cell, a newline moves to the next row, the bottom of the screen scrolls, and
  the cursor stays on the screen.\<close>

theorem print_color_refines:
  assumes "crtc s" and "cursor (io_log s) < 2000" and "sz \<le> length data"
  shows "\<exists>t. print_color data sz fg s = Ret () t \<and> crtc t \<and> cursor (io_log t) < 2000 \<and>
    screen t = fold (tty_put (if fg = VGA_COLOR_BLACK then WHITE_ON_BLACK
      else vga_attr TERMINAL_DEFAULT_COLOR_BG fg)) (take sz data) (screen s)"
proof (cases "fg = VGA_COLOR_BLACK")
  case True
  then have "vga_attr TERMINAL_DEFAULT_COLOR_BG fg = 0"
    by (simp add: vga_attr_def TERMINAL_DEFAULT_COLOR_BG_def)
  then show ?thesis using True print_chars_refine [OF assms(1,2) WHITE_ON_BLACK_neq_0, of "take sz data"] assms(3)
    by (simp add: print_color_def default_attr)
next
  case False
  then show ?thesis
    using print_chars_refine [OF assms(1,2) vga_attr_neq_0, of fg "take sz data"] assms(3)
    by (simp add: print_color_def)
qed

theorem print_color_refines_witness:
  "\<exists>t. print_color [72, 10] 2 VGA_COLOR_GREEN
       (boot_console\<lparr>dev8 := \<lambda>log port. vga_reg (vga_index log) log\<rparr>) = Ret () t \<and>
     curs (screen t) = 80 \<and> cells (screen t) 0 = (72, 2)"
proof -
  let ?s = "boot_console\<lparr>dev8 := \<lambda>log port. vga_reg (vga_index log) log\<rparr>"
  have "crtc ?s" "cursor (io_log ?s) < 2000"
    by (simp_all add: crtc_def cursor_def boot_console_def)
  from print_color_refines [OF this, of 2 "[72, 10]" VGA_COLOR_GREEN]
  show ?thesis
    by (auto simp: tty_put_def tty_advance_def screen_def cursor_def boot_console_def vga_attr_def
        TERMINAL_DEFAULT_COLOR_BG_def)
qed

text \<open>What \<open>clear_screen\<close> leaves behind, from any state and for any device. The cursor
  is at the top left and the first 24 rows are blank characters in the default colour; but
  writing the last cell scrolls the screen, so the last row holds zero bytes with a zero
  attribute instead.\<close>

theorem clear_screen_spec:
  "\<exists>t. clear_screen s = Ret () t \<and> curs (screen t) = 0 \<and>
    cells (screen t) = (\<lambda>i. if i < 1920 then (32, WHITE_ON_BLACK) else (0, 0))"
  using clear_screen_cells [of s] by (auto simp: screen_def)

end
