(* ===== verification/Kbdmapus.thy ===== *)
theory Kbdmapus
  imports Prelude
begin

text \<open>
  Key codes and the scan code tables of the keyboard driver (\<^verbatim>\<open>kernel/drivers/kbd.h\<close>,
  \<^verbatim>\<open>kernel/drivers/kbdmapus.c\<close>). The value of an enumerator is its position in the
  enumeration. A table is a function of the index: entries without an initialiser are 0,
  which is the code of the space bar in the first table and the null pointer, \<open>None\<close>,
  in the other two.
\<close>

abbreviation (input) KBD_BREAKCODE_LIMIT :: nat where "KBD_BREAKCODE_LIMIT \<equiv> 0x80"

definition bkd_keycode :: "string list" where
  "bkd_keycode = [
     ''KEY_SPACE'', ''KEY_0'', ''KEY_1'', ''KEY_2'', ''KEY_3'', ''KEY_4'', ''KEY_5'', ''KEY_6'',
     ''KEY_7'', ''KEY_8'', ''KEY_9'', ''KEY_A'', ''KEY_B'', ''KEY_C'', ''KEY_D'', ''KEY_E'',
     ''KEY_F'', ''KEY_G'', ''KEY_H'', ''KEY_I'', ''KEY_J'', ''KEY_K'', ''KEY_L'', ''KEY_M'',
     ''KEY_N'', ''KEY_O'', ''KEY_P'', ''KEY_Q'', ''KEY_R'', ''KEY_S'', ''KEY_T'', ''KEY_U'',
     ''KEY_V'', ''KEY_W'', ''KEY_X'', ''KEY_Y'', ''KEY_Z'', ''KEY_RETURN'', ''KEY_ESCAPE'',
     ''KEY_BACKSPACE'', ''KEY_UP'', ''KEY_DOWN'', ''KEY_LEFT'', ''KEY_RIGHT'', ''KEY_F1'',
     ''KEY_F2'', ''KEY_F3'', ''KEY_F4'', ''KEY_F5'', ''KEY_F6'', ''KEY_F7'', ''KEY_F8'',
     ''KEY_F9'', ''KEY_F10'', ''KEY_F11'', ''KEY_F12'', ''KEY_F13'', ''KEY_F14'', ''KEY_F15'',
     ''KEY_DOT'', ''KEY_COMMA'', ''KEY_COLON'', ''KEY_SEMICOLON'', ''KEY_SLASH'',
     ''KEY_BACKSLASH'', ''KEY_PLUS'', ''KEY_MINUS'', ''KEY_ASTERISK'', ''KEY_EXCLAMATION'',
     ''KEY_QUESTION'', ''KEY_QUOTEDOUBLE'', ''KEY_QUOTE'', ''KEY_EQUAL'', ''KEY_HASH'',
     ''KEY_PERCENT'', ''KEY_AMPERSAND'', ''KEY_UNDERSCORE'', ''KEY_LEFTPARENTHESIS'',
     ''KEY_RIGHTPARENTHESIS'', ''KEY_LEFTBRACKET'', ''KEY_RIGHTBRACKET'', ''KEY_LEFTCURL'',
     ''KEY_RIGHTCURL'', ''KEY_DOLLAR'', ''KEY_POUND'', ''KEY_EURO'', ''KEY_LESS'', ''KEY_GREATER'',
     ''KEY_BAR'', ''KEY_GRAVE'', ''KEY_TILDE'', ''KEY_AT'', ''KEY_CARRET'', ''KEY_KP_0'',
     ''KEY_KP_1'', ''KEY_KP_2'', ''KEY_KP_3'', ''KEY_KP_4'', ''KEY_KP_5'', ''KEY_KP_6'',
     ''KEY_KP_7'', ''KEY_KP_8'', ''KEY_KP_9'', ''KEY_KP_PLUS'', ''KEY_KP_MINUS'',
     ''KEY_KP_DECIMAL'', ''KEY_KP_DIVIDE'', ''KEY_KP_ASTERISK'', ''KEY_KP_NUMLOCK'',
     ''KEY_KP_ENTER'', ''KEY_TAB'', ''KEY_CAPSLOCK'', ''KEY_LSHIFT'', ''KEY_LCTRL'', ''KEY_LALT'',
     ''KEY_LWIN'', ''KEY_RSHIFT'', ''KEY_RCTRL'', ''KEY_RALT'', ''KEY_RWIN'', ''KEY_INSERT'',
     ''KEY_DELETE'', ''KEY_HOME'', ''KEY_END'', ''KEY_PAGEUP'', ''KEY_PAGEDOWN'',
     ''KEY_SCROLLLOCK'', ''KEY_PAUSE'', ''KEY_NULL'', ''KEY_NUMKEYCODES'']"

definition KEY_NUMKEYCODES :: nat where "KEY_NUMKEYCODES = 129"

abbreviation (input) KEY_SPACE :: nat where "KEY_SPACE \<equiv> 0"
abbreviation (input) KEY_0 :: nat where "KEY_0 \<equiv> 1"
abbreviation (input) KEY_1 :: nat where "KEY_1 \<equiv> 2"
abbreviation (input) KEY_2 :: nat where "KEY_2 \<equiv> 3"
abbreviation (input) KEY_3 :: nat where "KEY_3 \<equiv> 4"
abbreviation (input) KEY_4 :: nat where "KEY_4 \<equiv> 5"
abbreviation (input) KEY_5 :: nat where "KEY_5 \<equiv> 6"
abbreviation (input) KEY_6 :: nat where "KEY_6 \<equiv> 7"
abbreviation (input) KEY_7 :: nat where "KEY_7 \<equiv> 8"
abbreviation (input) KEY_8 :: nat where "KEY_8 \<equiv> 9"
abbreviation (input) KEY_9 :: nat where "KEY_9 \<equiv> 10"
abbreviation (input) KEY_A :: nat where "KEY_A \<equiv> 11"
abbreviation (input) KEY_B :: nat where "KEY_B \<equiv> 12"
abbreviation (input) KEY_C :: nat where "KEY_C \<equiv> 13"
abbreviation (input) KEY_D :: nat where "KEY_D \<equiv> 14"
abbreviation (input) KEY_E :: nat where "KEY_E \<equiv> 15"
abbreviation (input) KEY_F :: nat where "KEY_F \<equiv> 16"
abbreviation (input) KEY_G :: nat where "KEY_G \<equiv> 17"
abbreviation (input) KEY_H :: nat where "KEY_H \<equiv> 18"
abbreviation (input) KEY_I :: nat where "KEY_I \<equiv> 19"
abbreviation (input) KEY_J :: nat where "KEY_J \<equiv> 20"
abbreviation (input) KEY_K :: nat where "KEY_K \<equiv> 21"
abbreviation (input) KEY_L :: nat where "KEY_L \<equiv> 22"
abbreviation (input) KEY_M :: nat where "KEY_M \<equiv> 23"
abbreviation (input) KEY_N :: nat where "KEY_N \<equiv> 24"
abbreviation (input) KEY_O :: nat where "KEY_O \<equiv> 25"
abbreviation (input) KEY_P :: nat where "KEY_P \<equiv> 26"
abbreviation (input) KEY_Q :: nat where "KEY_Q \<equiv> 27"
abbreviation (input) KEY_R :: nat where "KEY_R \<equiv> 28"
abbreviation (input) KEY_S :: nat where "KEY_S \<equiv> 29"
abbreviation (input) KEY_T :: nat where "KEY_T \<equiv> 30"
abbreviation (input) KEY_U :: nat where "KEY_U \<equiv> 31"
abbreviation (input) KEY_V :: nat where "KEY_V \<equiv> 32"
abbreviation (input) KEY_W :: nat where "KEY_W \<equiv> 33"
abbreviation (input) KEY_X :: nat where "KEY_X \<equiv> 34"
abbreviation (input) KEY_Y :: nat where "KEY_Y \<equiv> 35"
abbreviation (input) KEY_Z :: nat where "KEY_Z \<equiv> 36"
abbreviation (input) KEY_RETURN :: nat where "KEY_RETURN \<equiv> 37"
abbreviation (input) KEY_ESCAPE :: nat where "KEY_ESCAPE \<equiv> 38"
abbreviation (input) KEY_BACKSPACE :: nat where "KEY_BACKSPACE \<equiv> 39"
abbreviation (input) KEY_F1 :: nat where "KEY_F1 \<equiv> 44"
abbreviation (input) KEY_F2 :: nat where "KEY_F2 \<equiv> 45"
abbreviation (input) KEY_F3 :: nat where "KEY_F3 \<equiv> 46"
abbreviation (input) KEY_F4 :: nat where "KEY_F4 \<equiv> 47"
abbreviation (input) KEY_F5 :: nat where "KEY_F5 \<equiv> 48"
abbreviation (input) KEY_F6 :: nat where "KEY_F6 \<equiv> 49"
abbreviation (input) KEY_F7 :: nat where "KEY_F7 \<equiv> 50"
abbreviation (input) KEY_F8 :: nat where "KEY_F8 \<equiv> 51"
abbreviation (input) KEY_F9 :: nat where "KEY_F9 \<equiv> 52"
abbreviation (input) KEY_F10 :: nat where "KEY_F10 \<equiv> 53"
abbreviation (input) KEY_F11 :: nat where "KEY_F11 \<equiv> 54"
abbreviation (input) KEY_F12 :: nat where "KEY_F12 \<equiv> 55"
abbreviation (input) KEY_DOT :: nat where "KEY_DOT \<equiv> 59"
abbreviation (input) KEY_COMMA :: nat where "KEY_COMMA \<equiv> 60"
abbreviation (input) KEY_SEMICOLON :: nat where "KEY_SEMICOLON \<equiv> 62"
abbreviation (input) KEY_SLASH :: nat where "KEY_SLASH \<equiv> 63"
abbreviation (input) KEY_BACKSLASH :: nat where "KEY_BACKSLASH \<equiv> 64"
abbreviation (input) KEY_MINUS :: nat where "KEY_MINUS \<equiv> 66"
abbreviation (input) KEY_QUOTE :: nat where "KEY_QUOTE \<equiv> 71"
abbreviation (input) KEY_EQUAL :: nat where "KEY_EQUAL \<equiv> 72"
abbreviation (input) KEY_LEFTBRACKET :: nat where "KEY_LEFTBRACKET \<equiv> 79"
abbreviation (input) KEY_RIGHTBRACKET :: nat where "KEY_RIGHTBRACKET \<equiv> 80"
abbreviation (input) KEY_GRAVE :: nat where "KEY_GRAVE \<equiv> 89"
abbreviation (input) KEY_KP_0 :: nat where "KEY_KP_0 \<equiv> 93"
abbreviation (input) KEY_KP_2 :: nat where "KEY_KP_2 \<equiv> 95"
abbreviation (input) KEY_KP_3 :: nat where "KEY_KP_3 \<equiv> 96"
abbreviation (input) KEY_KP_8 :: nat where "KEY_KP_8 \<equiv> 101"
abbreviation (input) KEY_KP_9 :: nat where "KEY_KP_9 \<equiv> 102"
abbreviation (input) KEY_KP_DECIMAL :: nat where "KEY_KP_DECIMAL \<equiv> 105"
abbreviation (input) KEY_KP_ASTERISK :: nat where "KEY_KP_ASTERISK \<equiv> 107"
abbreviation (input) KEY_KP_NUMLOCK :: nat where "KEY_KP_NUMLOCK \<equiv> 108"
abbreviation (input) KEY_TAB :: nat where "KEY_TAB \<equiv> 110"
abbreviation (input) KEY_CAPSLOCK :: nat where "KEY_CAPSLOCK \<equiv> 111"
abbreviation (input) KEY_LSHIFT :: nat where "KEY_LSHIFT \<equiv> 112"
abbreviation (input) KEY_LCTRL :: nat where "KEY_LCTRL \<equiv> 113"
abbreviation (input) KEY_LALT :: nat where "KEY_LALT \<equiv> 114"
abbreviation (input) KEY_RSHIFT :: nat where "KEY_RSHIFT \<equiv> 116"
abbreviation (input) KEY_RCTRL :: nat where "KEY_RCTRL \<equiv> 117"
abbreviation (input) KEY_RALT :: nat where "KEY_RALT \<equiv> 118"
abbreviation (input) KEY_HOME :: nat where "KEY_HOME \<equiv> 122"
abbreviation (input) KEY_SCROLLLOCK :: nat where "KEY_SCROLLLOCK \<equiv> 126"
abbreviation (input) KEY_NULL :: nat where "KEY_NULL \<equiv> 128"

definition kbd_scanmap_set1 :: "nat \<Rightarrow> nat" where
  "kbd_scanmap_set1 i = (case map_of [
     (0x00, KEY_NULL), (0x01, KEY_ESCAPE), (0x02, KEY_1), (0x03, KEY_2), (0x04, KEY_3),
     (0x05, KEY_4), (0x06, KEY_5), (0x07, KEY_6), (0x08, KEY_7), (0x09, KEY_8), (0x0a, KEY_9),
     (0x0b, KEY_0), (0x0c, KEY_MINUS), (0x0d, KEY_EQUAL), (0x0e, KEY_BACKSPACE), (0x0f, KEY_TAB),
     (0x10, KEY_Q), (0x11, KEY_W), (0x12, KEY_E), (0x13, KEY_R), (0x14, KEY_T), (0x15, KEY_Y),
     (0x16, KEY_U), (0x17, KEY_I), (0x18, KEY_O), (0x19, KEY_P), (0x1a, KEY_LEFTBRACKET),
     (0x1b, KEY_RIGHTBRACKET), (0x1c, KEY_RETURN), (0x1d, KEY_LCTRL), (0x1e, KEY_A), (0x1f, KEY_S),
     (0x20, KEY_D), (0x21, KEY_F), (0x22, KEY_G), (0x23, KEY_H), (0x24, KEY_J), (0x25, KEY_K),
     (0x26, KEY_L), (0x27, KEY_SEMICOLON), (0x28, KEY_QUOTE), (0x29, KEY_GRAVE),
     (0x2a, KEY_LSHIFT), (0x2b, KEY_BACKSLASH), (0x2c, KEY_Z), (0x2d, KEY_X), (0x2e, KEY_C),
     (0x2f, KEY_V), (0x30, KEY_B), (0x31, KEY_N), (0x32, KEY_M), (0x33, KEY_COMMA),
     (0x34, KEY_DOT), (0x35, KEY_SLASH), (0x36, KEY_RSHIFT), (0x37, KEY_KP_ASTERISK),
     (0x38, KEY_LALT), (0x39, KEY_SPACE), (0x3a, KEY_CAPSLOCK), (0x3b, KEY_F1), (0x3c, KEY_F2),
     (0x3d, KEY_F3), (0x3e, KEY_F4), (0x3f, KEY_F5), (0x40, KEY_F6), (0x41, KEY_F7),
     (0x42, KEY_F8), (0x43, KEY_F9), (0x44, KEY_F10), (0x45, KEY_KP_NUMLOCK),
     (0x46, KEY_SCROLLLOCK), (0x47, KEY_HOME), (0x48, KEY_KP_8), (0x49, KEY_KP_9),
     (0x50, KEY_KP_2), (0x51, KEY_KP_3), (0x52, KEY_KP_0), (0x53, KEY_KP_DECIMAL),
     (0x54, KEY_NULL), (0x55, KEY_NULL), (0x56, KEY_NULL), (0x57, KEY_F11), (0x58, KEY_F12)] i
     of None \<Rightarrow> 0 | Some k \<Rightarrow> k)"

definition kbd_scanmap_ascii_regular :: "nat \<Rightarrow> string option" where
  "kbd_scanmap_ascii_regular i = (case map_of [
     (KEY_ESCAPE, Some [CHR 0x1B]), (KEY_1, Some ''1''), (KEY_2, Some ''2''), (KEY_3, Some ''3''),
     (KEY_4, Some ''4''), (KEY_5, Some ''5''), (KEY_6, Some ''6''), (KEY_7, Some ''7''),
     (KEY_8, Some ''8''), (KEY_9, Some ''9''), (KEY_0, Some ''0''), (KEY_MINUS, Some ''-''),
     (KEY_EQUAL, Some ''=''), (KEY_BACKSPACE, Some [CHR 0x08]), (KEY_TAB, Some [CHR 0x09]),
     (KEY_Q, Some ''q''), (KEY_W, Some ''w''), (KEY_E, Some ''e''), (KEY_R, Some ''r''),
     (KEY_T, Some ''t''), (KEY_Y, Some ''y''), (KEY_U, Some ''u''), (KEY_I, Some ''i''),
     (KEY_O, Some ''o''), (KEY_P, Some ''p''), (KEY_LEFTBRACKET, Some ''[''),
     (KEY_RIGHTBRACKET, Some '']''), (KEY_RETURN, Some [CHR 0x0A]), (KEY_LCTRL, None),
     (KEY_A, Some ''a''), (KEY_S, Some ''s''), (KEY_D, Some ''d''), (KEY_F, Some ''f''),
     (KEY_G, Some ''g''), (KEY_H, Some ''h''), (KEY_J, Some ''j''), (KEY_K, Some ''k''),
     (KEY_L, Some ''l''), (KEY_SEMICOLON, Some '';''), (KEY_QUOTE, Some [CHR 0x27]),
     (KEY_GRAVE, Some [CHR 0x60]), (KEY_LSHIFT, None), (KEY_BACKSLASH, Some [CHR 0x5C]),
     (KEY_Z, Some ''z''), (KEY_X, Some ''x''), (KEY_C, Some ''c''), (KEY_V, Some ''v''),
     (KEY_B, Some ''b''), (KEY_N, Some ''n''), (KEY_M, Some ''m''), (KEY_COMMA, Some '',''),
     (KEY_DOT, Some ''.''), (KEY_SLASH, Some ''/''), (KEY_RSHIFT, None),
     (KEY_KP_ASTERISK, Some ''*''), (KEY_LALT, None), (KEY_SPACE, Some '' ''),
     (KEY_CAPSLOCK, None), (KEY_F1, Some [CHR 0x1B, CHR ''O'', CHR ''P'']),
     (KEY_F2, Some [CHR 0x1B, CHR ''O'', CHR ''Q'']),
     (KEY_F3, Some [CHR 0x1B, CHR ''O'', CHR ''R'']),
     (KEY_F4, Some [CHR 0x1B, CHR ''O'', CHR ''S'']),
     (KEY_F5, Some [CHR 0x1B, CHR ''['', CHR ''1'', CHR ''5'', CHR ''~'']),
     (KEY_F6, Some [CHR 0x1B, CHR ''['', CHR ''1'', CHR ''7'', CHR ''~'']),
     (KEY_F7, Some [CHR 0x1B, CHR ''['', CHR ''1'', CHR ''8'', CHR ''~'']),
     (KEY_F8, Some [CHR 0x1B, CHR ''['', CHR ''1'', CHR ''9'', CHR ''~'']),
     (KEY_F9, Some [CHR 0x1B, CHR ''['', CHR ''2'', CHR ''0'', CHR ''~'']),
     (KEY_F10, Some [CHR 0x1B, CHR ''['', CHR ''2'', CHR ''1'', CHR ''~'']),
     (KEY_KP_NUMLOCK, None), (KEY_SCROLLLOCK, None), (KEY_HOME, None), (KEY_KP_8, Some ''8''),
     (KEY_KP_9, Some ''9''), (KEY_KP_2, Some ''2''), (KEY_KP_3, Some ''3''),
     (KEY_KP_0, Some ''0''), (KEY_KP_DECIMAL, Some ''.''),
     (KEY_F11, Some [CHR 0x1B, CHR ''['', CHR ''2'', CHR ''3'', CHR ''~'']),
     (KEY_F12, Some [CHR 0x1B, CHR ''['', CHR ''2'', CHR ''4'', CHR ''~''])] i
     of None \<Rightarrow> None | Some p \<Rightarrow> p)"

definition kbd_scanmap_ascii_shift :: "nat \<Rightarrow> string option" where
  "kbd_scanmap_ascii_shift i = (case map_of [
     (KEY_ESCAPE, None), (KEY_1, Some ''!''), (KEY_2, Some ''@''), (KEY_3, Some ''#''),
     (KEY_4, Some ''$''), (KEY_5, Some ''%''), (KEY_6, Some ''^''), (KEY_7, Some ''&''),
     (KEY_8, Some ''*''), (KEY_9, Some ''(''), (KEY_0, Some '')''), (KEY_MINUS, Some ''_''),
     (KEY_EQUAL, Some ''+''), (KEY_BACKSPACE, Some [CHR 0x08]),
     (KEY_TAB, Some [CHR 0x1B, CHR ''['', CHR ''Z'']), (KEY_Q, Some ''Q''), (KEY_W, Some ''W''),
     (KEY_E, Some ''E''), (KEY_R, Some ''R''), (KEY_T, Some ''T''), (KEY_Y, Some ''Y''),
     (KEY_U, Some ''U''), (KEY_I, Some ''I''), (KEY_O, Some ''O''), (KEY_P, Some ''P''),
     (KEY_LEFTBRACKET, Some ''{''), (KEY_RIGHTBRACKET, Some ''}''), (KEY_RETURN, Some [CHR 0x0A]),
     (KEY_LCTRL, None), (KEY_A, Some ''A''), (KEY_S, Some ''S''), (KEY_D, Some ''D''),
     (KEY_F, Some ''F''), (KEY_G, Some ''G''), (KEY_H, Some ''H''), (KEY_J, Some ''J''),
     (KEY_K, Some ''K''), (KEY_L, Some ''L''), (KEY_SEMICOLON, Some '':''),
     (KEY_QUOTE, Some [CHR 0x22]), (KEY_GRAVE, Some ''~''), (KEY_LSHIFT, None),
     (KEY_BACKSLASH, Some ''|''), (KEY_Z, Some ''Z''), (KEY_X, Some ''X''), (KEY_C, Some ''C''),
     (KEY_V, Some ''V''), (KEY_B, Some ''B''), (KEY_N, Some ''N''), (KEY_M, Some ''M''),
     (KEY_COMMA, Some ''<''), (KEY_DOT, Some ''>''), (KEY_SLASH, Some ''?''), (KEY_RSHIFT, None),
     (KEY_KP_ASTERISK, None), (KEY_LALT, None), (KEY_SPACE, Some '' ''), (KEY_CAPSLOCK, None),
     (KEY_F1, Some [CHR 0x1B, CHR ''O'', CHR ''P'']),
     (KEY_F2, Some [CHR 0x1B, CHR ''O'', CHR ''Q'']),
     (KEY_F3, Some [CHR 0x1B, CHR ''O'', CHR ''R'']),
     (KEY_F4, Some [CHR 0x1B, CHR ''O'', CHR ''S'']),
     (KEY_F5, Some [CHR 0x1B, CHR ''['', CHR ''1'', CHR ''5'', CHR ''~'', CHR '';'', CHR ''2'', CHR ''~'']),
     (KEY_F6, Some [CHR 0x1B, CHR ''['', CHR ''1'', CHR ''7'', CHR ''~'', CHR '';'', CHR ''2'', CHR ''~'']),
     (KEY_F7, Some [CHR 0x1B, CHR ''['', CHR ''1'', CHR ''8'', CHR ''~'', CHR '';'', CHR ''2'', CHR ''~'']),
     (KEY_F8, Some [CHR 0x1B, CHR ''['', CHR ''1'', CHR ''9'', CHR ''~'', CHR '';'', CHR ''2'', CHR ''~'']),
     (KEY_F9, Some [CHR 0x1B, CHR ''['', CHR ''2'', CHR ''0'', CHR ''~'', CHR '';'', CHR ''2'', CHR ''~'']),
     (KEY_F10, Some [CHR 0x1B, CHR ''['', CHR ''2'', CHR ''1'', CHR ''~'', CHR '';'', CHR ''2'', CHR ''~'']),
     (KEY_KP_NUMLOCK, None), (KEY_SCROLLLOCK, None), (KEY_HOME, None), (KEY_KP_8, Some ''8''),
     (KEY_KP_9, Some ''9''), (KEY_KP_2, Some ''2''), (KEY_KP_3, Some ''3''),
     (KEY_KP_0, Some ''0''), (KEY_KP_DECIMAL, Some ''.''),
     (KEY_F11, Some [CHR 0x1B, CHR ''['', CHR ''2'', CHR ''3'', CHR ''~'', CHR '';'', CHR ''2'', CHR ''~'']),
     (KEY_F12, Some [CHR 0x1B, CHR ''['', CHR ''2'', CHR ''4'', CHR ''~'', CHR '';'', CHR ''2'', CHR ''~''])] i
     of None \<Rightarrow> None | Some p \<Rightarrow> p)"

text \<open>The numbers used for the keys are their positions in the enumeration.\<close>

lemma keycode_positions:
  "list_all (\<lambda>(i, n). i < length bkd_keycode \<and> bkd_keycode ! i = n) [
     (KEY_SPACE, ''KEY_SPACE''), (KEY_0, ''KEY_0''), (KEY_1, ''KEY_1''), (KEY_2, ''KEY_2''),
     (KEY_3, ''KEY_3''), (KEY_4, ''KEY_4''), (KEY_5, ''KEY_5''), (KEY_6, ''KEY_6''),
     (KEY_7, ''KEY_7''), (KEY_8, ''KEY_8''), (KEY_9, ''KEY_9''), (KEY_A, ''KEY_A''),
     (KEY_B, ''KEY_B''), (KEY_C, ''KEY_C''), (KEY_D, ''KEY_D''), (KEY_E, ''KEY_E''),
     (KEY_F, ''KEY_F''), (KEY_G, ''KEY_G''), (KEY_H, ''KEY_H''), (KEY_I, ''KEY_I''),
     (KEY_J, ''KEY_J''), (KEY_K, ''KEY_K''), (KEY_L, ''KEY_L''), (KEY_M, ''KEY_M''),
     (KEY_N, ''KEY_N''), (KEY_O, ''KEY_O''), (KEY_P, ''KEY_P''), (KEY_Q, ''KEY_Q''),
     (KEY_R, ''KEY_R''), (KEY_S, ''KEY_S''), (KEY_T, ''KEY_T''), (KEY_U, ''KEY_U''),
     (KEY_V, ''KEY_V''), (KEY_W, ''KEY_W''), (KEY_X, ''KEY_X''), (KEY_Y, ''KEY_Y''),
     (KEY_Z, ''KEY_Z''), (KEY_RETURN, ''KEY_RETURN''), (KEY_ESCAPE, ''KEY_ESCAPE''),
     (KEY_BACKSPACE, ''KEY_BACKSPACE''), (KEY_F1, ''KEY_F1''), (KEY_F2, ''KEY_F2''),
     (KEY_F3, ''KEY_F3''), (KEY_F4, ''KEY_F4''), (KEY_F5, ''KEY_F5''), (KEY_F6, ''KEY_F6''),
     (KEY_F7, ''KEY_F7''), (KEY_F8, ''KEY_F8''), (KEY_F9, ''KEY_F9''), (KEY_F10, ''KEY_F10''),
     (KEY_F11, ''KEY_F11''), (KEY_F12, ''KEY_F12''), (KEY_DOT, ''KEY_DOT''),
     (KEY_COMMA, ''KEY_COMMA''), (KEY_SEMICOLON, ''KEY_SEMICOLON''), (KEY_SLASH, ''KEY_SLASH''),
     (KEY_BACKSLASH, ''KEY_BACKSLASH''), (KEY_MINUS, ''KEY_MINUS''), (KEY_QUOTE, ''KEY_QUOTE''),
     (KEY_EQUAL, ''KEY_EQUAL''), (KEY_LEFTBRACKET, ''KEY_LEFTBRACKET''),
     (KEY_RIGHTBRACKET, ''KEY_RIGHTBRACKET''), (KEY_GRAVE, ''KEY_GRAVE''),
     (KEY_KP_0, ''KEY_KP_0''), (KEY_KP_2, ''KEY_KP_2''), (KEY_KP_3, ''KEY_KP_3''),
     (KEY_KP_8, ''KEY_KP_8''), (KEY_KP_9, ''KEY_KP_9''), (KEY_KP_DECIMAL, ''KEY_KP_DECIMAL''),
     (KEY_KP_ASTERISK, ''KEY_KP_ASTERISK''), (KEY_KP_NUMLOCK, ''KEY_KP_NUMLOCK''),
     (KEY_TAB, ''KEY_TAB''), (KEY_CAPSLOCK, ''KEY_CAPSLOCK''), (KEY_LSHIFT, ''KEY_LSHIFT''),
     (KEY_LCTRL, ''KEY_LCTRL''), (KEY_LALT, ''KEY_LALT''), (KEY_RSHIFT, ''KEY_RSHIFT''),
     (KEY_RCTRL, ''KEY_RCTRL''), (KEY_RALT, ''KEY_RALT''), (KEY_HOME, ''KEY_HOME''),
     (KEY_SCROLLLOCK, ''KEY_SCROLLLOCK''), (KEY_NULL, ''KEY_NULL'')]"
  by (simp add: bkd_keycode_def)

end
