(* ===== verification/Kalloc.thy ===== *)
theory Kalloc
  imports Console Layout
begin

text \<open>
  The frame allocator (\<^verbatim>\<open>kernel/kalloc.c\<close>): a singly linked list threaded through the free
  4096-byte frames themselves. \<open>kmem_sentinel\<close> is the link-time address \<open>&kmem.freelist\<close>
  that ends the list; a structure read there has the list head itself as its \<open>next\<close>
  field. The two unbounded loops have fuel for every page of the address space
  (\<open>2^20\<close>); running out of it is the outcome \<open>Hang\<close>.

  The list in memory is abstracted to the list of free frames (\<open>kmem_ok\<close>), every operation
  is shown to refine the corresponding list operation, and the contract clients rely on is
  the interface \<open>frame_allocator\<close>.
\<close>

section \<open>Definitions\<close>

record kmem = console +
  kmem_use_lock :: int
  kmem_freelist :: addr
  kheap_start :: u32
  kheap_end :: u32
  kmem_sentinel :: addr

definition kmem_enter :: "(unit, 'z kmem_scheme) kern" where
  "kmem_enter = bindK (getK kmem_use_lock) (\<lambda>u. whenK (u \<noteq> 0) (acquire KmemLock))"

definition kmem_leave :: "(unit, 'z kmem_scheme) kern" where
  "kmem_leave = bindK (getK kmem_use_lock) (\<lambda>u. whenK (u \<noteq> 0) (release KmemLock))"

definition kfree :: "addr \<Rightarrow> (unit, 'z kmem_scheme) kern" where
  "kfree v = bindK (getK (\<lambda>s. v mod PGSIZE \<noteq> 0 \<or> v < kheap_start s \<or> V2P v \<ge> kheap_end s)) (\<lambda>bad.
     if bad then panicK ''kfree''
     else seqK [
       upd_mem (\<lambda>m. snd (memset m v 1 PGSIZE)),
       kmem_enter,
       modK (\<lambda>s. s\<lparr>mem := write32 (mem s) v (kmem_freelist s)\<rparr>),
       modK (\<lambda>s. s\<lparr>kmem_freelist := v\<rparr>),
       kmem_leave])"

definition kalloc :: "(addr, 'z kmem_scheme) kern" where
  "kalloc = thenK kmem_enter
     (bindK (getK (\<lambda>s. (kmem_freelist s, kmem_sentinel s))) (\<lambda>(r, sentinel).
      bindK (if r = sentinel then retK 0
             else thenK (modK (\<lambda>s. s\<lparr>kmem_freelist := read32 (mem s) r\<rparr>)) (retK r)) (\<lambda>r.
      thenK kmem_leave (retK r))))"

primrec freerange_loop :: "nat \<Rightarrow> addr \<Rightarrow> addr \<Rightarrow> (unit, 'z kmem_scheme) kern" where
  "freerange_loop 0 p vend = hangK"
| "freerange_loop (Suc n) p vend =
     (if p + PGSIZE \<le> vend then thenK (kfree p) (freerange_loop n (p + PGSIZE) vend) else retK ())"

definition freerange :: "addr \<Rightarrow> addr \<Rightarrow> (unit, 'z kmem_scheme) kern" where
  "freerange vstart vend = freerange_loop 1048577 (PGROUNDUP vstart) vend"

definition frame_next :: "'z kmem_scheme \<Rightarrow> addr \<Rightarrow> addr" where
  "frame_next s p = (if p = kmem_sentinel s then kmem_freelist s else read32 (mem s) p)"

primrec dump_loop :: "nat \<Rightarrow> addr \<Rightarrow> u32 \<Rightarrow> (addr \<times> u32, 'z kmem_scheme) kern" where
  "dump_loop 0 p nframes = hangK"
| "dump_loop (Suc n) p nframes = bindK (getK (\<lambda>s. (frame_next s p, kmem_sentinel s))) (\<lambda>(nxt, sentinel).
     if nxt \<noteq> sentinel then dump_loop n nxt (nframes + 1) else retK (p, nframes))"

definition dump_freelist :: "(unit, 'z kmem_scheme) kern" where
  "dump_freelist = bindK (getK kmem_freelist) (\<lambda>p.
     thenK (cprintf (Some ''kernel heap: start=0x%p'') [CWord p])
     (bindK (dump_loop 1048577 p 0) (\<lambda>(p, nframes).
     cprintf (Some '' end=0x%p, number of free frames: %d\<newline>'') [CWord p, CWord nframes])))"

definition kinit1 :: "addr \<Rightarrow> addr \<Rightarrow> (unit, 'z kmem_scheme) kern" where
  "kinit1 vstart vend = seqK [
     modK (\<lambda>s. s\<lparr>kheap_start := vstart\<rparr>),
     modK (\<lambda>s. s\<lparr>kmem_freelist := kmem_sentinel s\<rparr>),
     initlock KmemLock ''kmem'',
     modK (\<lambda>s. s\<lparr>kmem_use_lock := 0\<rparr>),
     freerange vstart vend]"

definition kinit2 :: "addr \<Rightarrow> addr \<Rightarrow> (unit, 'z kmem_scheme) kern" where
  "kinit2 vstart vend = seqK [
     modK (\<lambda>s. s\<lparr>kheap_end := vend\<rparr>),
     freerange vstart vend,
     modK (\<lambda>s. s\<lparr>kmem_use_lock := 1\<rparr>),
     dump_freelist]"

section \<open>The free list\<close>

text \<open>
  \<open>chain m p fs q\<close>: following the links in \<open>m\<close> from \<open>p\<close> visits the frames \<open>fs\<close> and ends
  at \<open>q\<close>. \<open>kmem_ok s fs\<close>: the free list of \<open>s\<close> is \<open>fs\<close>, its frames are distinct and
  aligned and lie above the kernel's link address, hence clear of the video memory.
\<close>

primrec chain :: "memory \<Rightarrow> addr \<Rightarrow> addr list \<Rightarrow> addr \<Rightarrow> bool" where
  "chain m p [] q \<longleftrightarrow> p = q"
| "chain m p (f # fs) q \<longleftrightarrow> p = f \<and> chain m (read32 m f) fs q"

definition frame_ok :: "addr \<Rightarrow> bool" where
  "frame_ok f \<longleftrightarrow> aligned 4096 f \<and> 0x80100000 \<le> f"

definition kmem_ok :: "'z kmem_scheme \<Rightarrow> addr list \<Rightarrow> bool" where
  "kmem_ok s fs \<longleftrightarrow> chain (mem s) (kmem_freelist s) fs (kmem_sentinel s) \<and> distinct fs \<and>
     (\<forall>f \<in> set fs. frame_ok f) \<and> kmem_sentinel s \<notin> set fs"

definition kmem_ready :: "'z kmem_scheme \<Rightarrow> bool" where
  "kmem_ready s \<longleftrightarrow> kmem_use_lock s = 0 \<or> cli_ok s \<and> lock_free KmemLock s"

definition kmem_frame :: "'z kmem_scheme \<Rightarrow> 'z kmem_scheme \<Rightarrow> bool" where
  "kmem_frame s t \<longleftrightarrow> same_sync s t \<and> cr3 t = cr3 s \<and> kstk t = kstk s \<and> io_log t = io_log s \<and>
     dev8 t = dev8 s \<and> dev16 t = dev16 s \<and> dev32 t = dev32 s \<and>
     cons_locking t = cons_locking s \<and> uart t = uart s \<and> kmem_use_lock t = kmem_use_lock s \<and>
     kheap_start t = kheap_start s \<and> kheap_end t = kheap_end s \<and>
     kmem_sentinel t = kmem_sentinel s \<and> kmem.more t = kmem.more s"

lemma kmem_frame_refl [simp]: "kmem_frame s s"
  by (simp add: kmem_frame_def)

lemma kmem_frame_trans: "kmem_frame s t \<Longrightarrow> kmem_frame t u \<Longrightarrow> kmem_frame s u"
  by (auto simp: kmem_frame_def intro: same_sync_trans)

lemma same_sync_ready:
  "same_sync s t \<Longrightarrow> cli_ok t = cli_ok s" "same_sync s t \<Longrightarrow> lock_free lk t = lock_free lk s"
  using same_sync_ncli [of s t 0] by (simp_all add: same_sync_def cli_ok_def IF_on_def)

lemma kmem_ready_frame: "kmem_frame s t \<Longrightarrow> kmem_ready t = kmem_ready s"
  using same_sync_ready [of s t] by (auto simp: kmem_frame_def kmem_ready_def)

lemma kmem_ok_cong:
  assumes "kmem_freelist t = kmem_freelist s" "kmem_sentinel t = kmem_sentinel s"
    and "\<And>f i. f \<in> set fs \<Longrightarrow> i < 4 \<Longrightarrow> mem t (f + of_nat i) = mem s (f + of_nat i)"
  shows "kmem_ok t fs = kmem_ok s fs"
proof -
  have "read32 (mem t) f = read32 (mem s) f" if "f \<in> set fs" for f
    using assms(3) [OF that] by (rule read32_cong)
  then have "chain (mem t) p fs q = chain (mem s) p fs q" for p q
    by (induction fs arbitrary: p) auto
  then show ?thesis using assms(1,2) by (simp add: kmem_ok_def)
qed

text \<open>Both operations update memory and list head under the (optional) lock.\<close>

lemma kmem_section:
  fixes s :: "'z kmem_scheme" and m :: memory and h :: addr
  assumes "kmem_ready s"
  obtains a t where "kmem_enter s = Ret () a" "mem a = mem s" "kmem_freelist a = kmem_freelist s"
    "kmem_sentinel a = kmem_sentinel s"
    "kmem_leave (a\<lparr>mem := m, kmem_freelist := h\<rparr>) = Ret () t" "kmem_frame s t"
    "mem t = m" "kmem_freelist t = h"
proof (cases "kmem_use_lock s = 0")
  case True
  show thesis
  proof (rule that)
    show "kmem_enter s = Ret () s" using True by (simp add: kmem_enter_def)
    show "kmem_leave (s\<lparr>mem := m, kmem_freelist := h\<rparr>) = Ret () (s\<lparr>mem := m, kmem_freelist := h\<rparr>)"
      using True by (simp add: kmem_leave_def)
    show "kmem_frame s (s\<lparr>mem := m, kmem_freelist := h\<rparr>)" by (simp add: kmem_frame_def same_sync_eq)
  qed simp_all
next
  case False
  then have ok: "cli_ok s" "lock_free KmemLock s" using assms by (auto simp: kmem_ready_def)
  let ?a = "acquired KmemLock s"
  let ?b = "?a\<lparr>mem := m, kmem_freelist := h\<rparr>"
  have held: "lock_held KmemLock ?b" using acquired_simps(12) [of KmemLock s] by (simp add: lock_held_def)
  have ncli: "0 < ncli (cpus ?b 0)" using ok(1) by (simp add: cli_ok_def)
  then have "cli_ok ?b" using acquired_simps(9) [of KmemLock s] by (simp add: cli_ok_def IF_on_def)
  then have rel: "release KmemLock ?b = Ret () (released KmemLock ?b)" using held ncli by (rule release_held)
  show thesis
  proof (rule that)
    show "kmem_enter s = Ret () ?a" using False ok by (simp add: kmem_enter_def acquire_free)
    show "kmem_leave ?b = Ret () (released KmemLock ?b)"
      using False rel by (simp add: kmem_leave_def acquired_def pushed_def)
    show "kmem_frame s (released KmemLock ?b)"
      using section_same_sync [OF ok, of ?b]
      by (simp add: kmem_frame_def) (simp add: released_def acquired_def pushed_def)
  qed (simp_all add: released_def acquired_def pushed_def)
qed

section \<open>Allocation\<close>

lemma kalloc_empty:
  assumes "kmem_ok s []" "kmem_ready s"
  shows "\<exists>t. kalloc s = Ret 0 t \<and> kmem_frame s t \<and> mem t = mem s \<and> kmem_ok t []"
proof -
  obtain a t where a: "kmem_enter s = Ret () a" "mem a = mem s" "kmem_freelist a = kmem_freelist s"
      "kmem_sentinel a = kmem_sentinel s"
    and t: "kmem_leave (a\<lparr>mem := mem s, kmem_freelist := kmem_freelist s\<rparr>) = Ret () t" "kmem_frame s t"
      "mem t = mem s" "kmem_freelist t = kmem_freelist s"
    using kmem_section [OF assms(2)] by metis
  have eq: "a\<lparr>mem := mem s, kmem_freelist := kmem_freelist s\<rparr> = a"
    unfolding a(2) [symmetric] a(3) [symmetric] by simp
  moreover have "kmem_freelist s = kmem_sentinel s" using assms(1) by (simp add: kmem_ok_def)
  ultimately have "kalloc s = Ret 0 t" using a t(1) [unfolded eq] by (simp add: kalloc_def)
  moreover have "kmem_ok t []" using assms(1) t by (simp add: kmem_ok_def kmem_frame_def)
  ultimately show ?thesis using t by blast
qed

lemma kalloc_frame:
  assumes "kmem_ok s (f # fs)" "kmem_ready s"
  shows "\<exists>t. kalloc s = Ret f t \<and> kmem_frame s t \<and> mem t = mem s \<and> kmem_ok t fs"
proof -
  obtain a t where a: "kmem_enter s = Ret () a" "mem a = mem s" "kmem_freelist a = kmem_freelist s"
      "kmem_sentinel a = kmem_sentinel s"
    and t: "kmem_leave (a\<lparr>mem := mem s, kmem_freelist := read32 (mem s) f\<rparr>) = Ret () t" "kmem_frame s t"
      "mem t = mem s" "kmem_freelist t = read32 (mem s) f"
    using kmem_section [OF assms(2)] by metis
  have eq: "a\<lparr>mem := mem s, kmem_freelist := read32 (mem s) f\<rparr> = a\<lparr>kmem_freelist := read32 (mem s) f\<rparr>"
    unfolding a(2) [symmetric] by simp
  moreover have "kmem_freelist s = f" "f \<noteq> kmem_sentinel s" using assms(1) by (auto simp: kmem_ok_def)
  ultimately have "kalloc s = Ret f t" using a t(1) [unfolded eq] by (simp add: kalloc_def)
  moreover have "kmem_ok t fs" using assms(1) t by (auto simp: kmem_ok_def kmem_frame_def)
  ultimately show ?thesis using t by blast
qed

section \<open>Freeing\<close>

lemma mod_4096_iff: "(v :: addr) mod 4096 = 0 \<longleftrightarrow> aligned 4096 v"
proof -
  have "unat (v mod 4096) = unat v mod 4096" by (simp add: unat_mod)
  then show ?thesis using unat_eq_zero [of "v mod 4096"] by (auto simp: aligned_def dvd_eq_mod_eq_0)
qed

text \<open>The frame contents after it was freed, and what that leaves of the other frames.\<close>

definition freed_mem :: "memory \<Rightarrow> addr \<Rightarrow> addr \<Rightarrow> memory" where
  "freed_mem m v nxt = write32 (snd (memset m v 1 4096)) v nxt"

lemma freed_mem_other: "\<not> in_region v 4096 a \<Longrightarrow> freed_mem m v nxt a = m a"
  unfolding freed_mem_def
  by (subst write32_other) (auto simp: memset_eq dest: in_region_mono [of _ 4 _ 4096])

lemma freed_mem_next [simp]: "read32 (freed_mem m v nxt) v = nxt"
  by (simp add: freed_mem_def)

lemma frame_disjoint:
  assumes "aligned 4096 f" "aligned 4096 v" "f \<noteq> v" "i < 4096"
  shows "\<not> in_region v 4096 (f + of_nat i)"
proof -
  have "disjoint_regions v 4096 f 4096" using assms by (intro aligned_disjoint) simp_all
  then show ?thesis by (rule disjoint_regionsD) (use assms(4) in \<open>simp add: in_region_offset\<close>)
qed

lemma chain_freed:
  assumes "\<forall>f \<in> set fs. aligned 4096 f" "v \<notin> set fs" "aligned 4096 v"
  shows "chain (freed_mem m v nxt) p fs q = chain m p fs q"
  using assms
proof (induction fs arbitrary: p)
  case (Cons f fs)
  have "read32 (freed_mem m v nxt) f = read32 m f"
  proof (rule read32_cong)
    fix i :: nat
    assume "i < 4"
    then have "\<not> in_region v 4096 (f + of_nat i)" using Cons.prems by (intro frame_disjoint) auto
    then show "freed_mem m v nxt (f + of_nat i) = m (f + of_nat i)" by (rule freed_mem_other)
  qed
  then show ?case using Cons by simp
qed simp

lemma kfree_bad:
  "v mod 4096 \<noteq> 0 \<or> v < kheap_start s \<or> kheap_end s \<le> V2P v \<Longrightarrow> kfree v s = Panic ''kfree'' s"
  by (auto simp: kfree_def)

lemma kfree_returns:
  assumes "kmem_ready s" "aligned 4096 v" "kheap_start s \<le> v" "V2P v < kheap_end s"
  shows "\<exists>t. kfree v s = Ret () t \<and> kmem_frame s t \<and> mem t = freed_mem (mem s) v (kmem_freelist s) \<and>
    kmem_freelist t = v"
proof -
  let ?s = "s\<lparr>mem := snd (memset (mem s) v 1 4096)\<rparr>"
  let ?m = "freed_mem (mem s) v (kmem_freelist s)"
  have fr: "kmem_frame s ?s" by (simp add: kmem_frame_def same_sync_eq)
  have "kmem_ready ?s" using assms(1) kmem_ready_frame [OF fr] by simp
  then obtain a t where a: "kmem_enter ?s = Ret () a" "mem a = mem ?s" "kmem_freelist a = kmem_freelist ?s"
    and t: "kmem_leave (a\<lparr>mem := ?m, kmem_freelist := v\<rparr>) = Ret () t" "kmem_frame ?s t"
      "mem t = ?m" "kmem_freelist t = v"
    by (rule kmem_section)
  have "v mod 4096 = 0" using assms(2) by (simp add: mod_4096_iff)
  moreover have "\<not> v < kheap_start s" "\<not> kheap_end s \<le> V2P v" using assms(3,4) by simp_all
  ultimately have "kfree v s = Ret () t" using a t(1) by (simp add: kfree_def freed_mem_def)
  then show ?thesis using t kmem_frame_trans [OF fr t(2)] by blast
qed

lemma kfree_frame:
  assumes "kmem_ok s fs" "kmem_ready s" "frame_ok v" "v \<notin> set fs" "v \<noteq> kmem_sentinel s"
    and "kheap_start s \<le> v" "V2P v < kheap_end s"
  shows "\<exists>t. kfree v s = Ret () t \<and> kmem_frame s t \<and> mem t = freed_mem (mem s) v (kmem_freelist s) \<and>
    kmem_ok t (v # fs)"
proof -
  obtain t where t: "kfree v s = Ret () t" "kmem_frame s t" "kmem_freelist t = v"
    "mem t = freed_mem (mem s) v (kmem_freelist s)"
    using kfree_returns assms by (metis frame_ok_def)
  moreover have "kmem_ok t (v # fs)"
    using assms t(2) unfolding kmem_ok_def t(3,4)
    by (auto simp: chain_freed frame_ok_def kmem_frame_def)
  ultimately show ?thesis by blast
qed

section \<open>Putting a range on the free list\<close>

primrec frames_from :: "addr \<Rightarrow> nat \<Rightarrow> addr list" where
  "frames_from p 0 = []"
| "frames_from p (Suc n) = p # frames_from (p + 4096) n"

lemma set_frames_from: "set (frames_from p n) = (\<lambda>i. p + of_nat (4096 * i)) ` {..< n}"
proof (induction n arbitrary: p)
  case (Suc n)
  have "{..< Suc n} = insert 0 (Suc ` {..< n})" by (simp add: lessThan_Suc_eq_insert_0)
  then show ?case using Suc [of "p + 4096"] by (simp add: image_image add.assoc)
qed simp

lemma frames_from_ge:
  assumes "unat p + 4096 * n \<le> 4294967296" "v \<in> set (frames_from p n)"
  shows "unat p \<le> unat v" "unat v + 4096 \<le> unat p + 4096 * n"
proof -
  obtain i where i: "i < n" "v = p + of_nat (4096 * i)" using assms(2) by (auto simp: set_frames_from)
  then have "unat v = unat p + 4096 * i"
    using assms(1) by (simp add: unat_add32 unat_of_nat32 del: of_nat_mult)
  then show "unat p \<le> unat v" "unat v + 4096 \<le> unat p + 4096 * n" using i(1) by auto
qed

definition may_free :: "'z kmem_scheme \<Rightarrow> addr list \<Rightarrow> addr \<Rightarrow> bool" where
  "may_free s fs v \<longleftrightarrow> frame_ok v \<and> v \<notin> set fs \<and> v \<noteq> kmem_sentinel s \<and> kheap_start s \<le> v \<and>
     V2P v < kheap_end s"

lemma freerange_loop_returns:
  assumes "kmem_ok s fs" "kmem_ready s" "\<And>v. v \<in> set (frames_from p n) \<Longrightarrow> may_free s fs v"
    and "unat p + 4096 * n \<le> unat vend" "unat vend < unat p + 4096 * Suc n" "unat vend < 4294963200"
    and "n < fuel"
  shows "\<exists>t. freerange_loop fuel p vend s = Ret () t \<and> kmem_frame s t \<and>
    kmem_ok t (rev (frames_from p n) @ fs) \<and>
    (\<forall>a. \<not> in_region p (4096 * n) a \<longrightarrow> mem t a = mem s a)"
  using assms
proof (induction n arbitrary: p s fs fuel)
  case 0
  then obtain k where "fuel = Suc k" by (cases fuel) auto
  moreover have "\<not> p + 4096 \<le> vend"
    using "0.prems" by (simp add: word_le_nat_alt unat_add32)
  ultimately show ?case using "0.prems" by auto
next
  case (Suc n)
  note prems = Suc.prems
  obtain k where fuel: "fuel = Suc k" "n < k" using prems(7) by (cases fuel) auto
  have le: "p + 4096 \<le> vend" and next_p: "unat (p + 4096) = unat p + 4096"
    using prems(4,6) by (simp_all add: word_le_nat_alt unat_add32)
  have p: "may_free s fs p" using prems(3) by simp
  then obtain t where t: "kfree p s = Ret () t" "kmem_frame s t"
    "mem t = freed_mem (mem s) p (kmem_freelist s)" "kmem_ok t (p # fs)"
    using kfree_frame [OF prems(1,2), of p] by (auto simp: may_free_def)
  have "may_free t (p # fs) v" if v: "v \<in> set (frames_from (p + 4096) n)" for v
  proof -
    have "unat (p + 4096) \<le> unat v"
      using frames_from_ge [OF _ v] next_p prems(4,6) by simp
    then have "v \<noteq> p" using next_p by auto
    then show ?thesis using prems(3) [of v] v t(2) by (simp add: may_free_def kmem_frame_def)
  qed
  then obtain u where u: "freerange_loop k (p + 4096) vend t = Ret () u" "kmem_frame t u"
    "kmem_ok u (rev (frames_from (p + 4096) n) @ p # fs)"
    "\<forall>a. \<not> in_region (p + 4096) (4096 * n) a \<longrightarrow> mem u a = mem t a"
    using Suc.IH [of t "p # fs" "p + 4096" k] t(2,4) prems next_p fuel(2) kmem_ready_frame [OF t(2)] by auto
  have "mem u a = mem s a" if "\<not> in_region p (4096 * Suc n) a" for a
  proof -
    have "in_region p (4096 + 4096 * n) a \<longleftrightarrow> in_region p 4096 a \<or> in_region (p + of_nat 4096) (4096 * n) a"
      using prems(4,6) by (intro in_region_split) simp
    then show ?thesis using that u(4) t(3) freed_mem_other [of p a] by simp
  qed
  then show ?case using u t(1) le kmem_frame_trans [OF t(2) u(2)] by (auto simp: fuel(1))
qed

section \<open>Console output and the free list\<close>

lemma console_more_eqD:
  fixes s t :: "'z kmem_scheme"
  assumes "console.more t = console.more s"
  shows "kmem_use_lock t = kmem_use_lock s" "kmem_freelist t = kmem_freelist s"
    "kheap_start t = kheap_start s" "kheap_end t = kheap_end s"
    "kmem_sentinel t = kmem_sentinel s" "kmem.more t = kmem.more s"
proof -
  have eq: "t = s\<lparr>mem := mem t, eflags := eflags t, cr3 := cr3 t, kstk := kstk t, io_log := io_log t,
    dev8 := dev8 t, dev16 := dev16 t, dev32 := dev32 t, cpus := cpus t, locks := locks t,
    cons_locking := cons_locking t, uart := uart t\<rparr>"
    using assms by (intro console.equality) simp_all
  show "kmem_use_lock t = kmem_use_lock s" using arg_cong [OF eq, of kmem_use_lock] by simp
  show "kmem_freelist t = kmem_freelist s" using arg_cong [OF eq, of kmem_freelist] by simp
  show "kheap_start t = kheap_start s" using arg_cong [OF eq, of kheap_start] by simp
  show "kheap_end t = kheap_end s" using arg_cong [OF eq, of kheap_end] by simp
  show "kmem_sentinel t = kmem_sentinel s" using arg_cong [OF eq, of kmem_sentinel] by simp
  show "kmem.more t = kmem.more s" using arg_cong [OF eq, of kmem.more] by simp
qed

lemma frame_not_video:
  assumes "frame_ok f" "i < 4096"
  shows "\<not> in_region vidmem 131072 (f + of_nat i)"
proof -
  have f: "2148532224 \<le> unat f" "4096 dvd unat f"
    using assms(1) by (simp_all add: frame_ok_def aligned_def word_le_nat_alt)
  obtain k where "unat f = 4096 * k" using f(2) by (elim dvdE)
  then have "unat f + i < 4294967296" using unat_lt32 [of f] assms(2) by auto
  then have "unat (f + of_nat i) = unat f + i" using assms(2) by (simp add: unat_add32 unat_of_nat32)
  moreover have "unat vidmem = 2148237312" by (simp add: vidmem_def P2V_def)
  ultimately show ?thesis using f(1) by (simp add: in_region_def unat_sub32)
qed

lemma kmem_ok_cprintf:
  assumes "cprintf_frame s t"
  shows "kmem_ok s fs \<Longrightarrow> kmem_ok t fs"
proof -
  assume ok: "kmem_ok s fs"
  note m = console_more_eqD [of t s]
  have "mem t (f + of_nat i) = mem s (f + of_nat i)" if "f \<in> set fs" "i < 4" for f i
    using assms frame_not_video [of f i] ok that by (auto simp: cprintf_frame_def kmem_ok_def)
  then show ?thesis using ok m assms kmem_ok_cong [of t s fs] by (auto simp: cprintf_frame_def)
qed

section \<open>Walking the list\<close>

lemma frames_bound:
  assumes "distinct fs" "\<forall>f \<in> set fs. aligned 4096 f"
  shows "length fs \<le> 1048576"
proof -
  have "inj_on (\<lambda>f. unat f div 4096) (set fs)"
  proof (rule inj_onI)
    fix x y
    assume "x \<in> set fs" "y \<in> set fs" "unat x div 4096 = unat y div 4096"
    moreover from this have "4096 dvd unat x" "4096 dvd unat y" using assms(2) by (simp_all add: aligned_def)
    ultimately have "unat x = unat y" by (metis dvd_div_mult_self)
    then show "x = y" by (simp only: word_unat_eq_iff)
  qed
  then have card: "card ((\<lambda>f. unat f div 4096) ` set fs) = length fs"
    using assms(1) by (simp add: card_image distinct_card)
  have "unat f div 4096 < 1048576" for f :: addr
    by (rule less_mult_imp_div_less) (use unat_lt32 [of f] in simp)
  then have "(\<lambda>f. unat f div 4096) ` set fs \<subseteq> {..< 1048576}" by blast
  from card_mono [OF finite_lessThan this] show ?thesis by (simp only: card card_lessThan)
qed

lemma dump_loop_chain:
  "chain (mem s) p (f # fs) (kmem_sentinel s) \<Longrightarrow> kmem_sentinel s \<notin> set (f # fs) \<Longrightarrow> length fs < fuel \<Longrightarrow>
    dump_loop fuel p k s = Ret (last (f # fs), k + of_nat (length fs)) s"
proof (induction fs arbitrary: p f k fuel)
  case Nil
  then show ?case by (cases fuel) (auto simp: frame_next_def)
next
  case (Cons g gs)
  then obtain n where "fuel = Suc n" by (cases fuel) auto
  moreover have "dump_loop n g (k + 1) s = Ret (last (g # gs), k + 1 + of_nat (length gs)) s"
    using Cons.prems \<open>fuel = Suc n\<close> by (intro Cons.IH) auto
  ultimately show ?case using Cons.prems by (auto simp: frame_next_def algebra_simps)
qed

definition dump_end :: "'z kmem_scheme \<Rightarrow> addr list \<Rightarrow> addr" where
  "dump_end s fs = (if fs = [] then kmem_sentinel s else last fs)"

lemma dump_loop_ok:
  assumes "kmem_ok s fs"
  shows "dump_loop 1048577 (kmem_freelist s) 0 s = Ret (dump_end s fs, of_nat (length fs - 1)) s"
proof (cases fs)
  case Nil
  then have "kmem_freelist s = kmem_sentinel s" using assms by (simp add: kmem_ok_def)
  then have "dump_loop (Suc 1048576) (kmem_freelist s) 0 s = Ret (kmem_sentinel s, 0) s"
    by (simp only: dump_loop.simps) (simp add: frame_next_def)
  then show ?thesis using Nil by (simp add: dump_end_def)
next
  case (Cons f gs)
  have "length fs \<le> 1048576"
    using assms by (intro frames_bound) (auto simp: kmem_ok_def frame_ok_def)
  then have "dump_loop 1048577 (kmem_freelist s) 0 s = Ret (last (f # gs), 0 + of_nat (length gs)) s"
    using assms Cons by (intro dump_loop_chain) (simp_all add: kmem_ok_def)
  then show ?thesis using Cons by (simp add: dump_end_def)
qed

definition dump_text :: "'z kmem_scheme \<Rightarrow> addr list \<Rightarrow> string" where
  "dump_text s fs = ''kernel heap: start=0x'' @ num_text 16 (unat (kmem_freelist s)) @
     '' end=0x'' @ num_text 16 (unat (dump_end s fs)) @
     '', number of free frames: '' @ dec_text (int (length fs - 1)) @ ''\<newline>''"

lemma sint_small:
  assumes "n < 2147483648"
  shows "sint (of_nat n :: u32) = int n"
  using assms by (simp add: signed_of_nat signed_take_bit_int_eq_self)

lemma dump_freelist_returns:
  assumes ok: "kmem_ok s fs" and ready: "cons_ready s"
  shows "\<exists>t. dump_freelist s = Ret () t \<and> cprintf_frame s t \<and> kmem_ok t fs \<and>
    serial_out (io_log t) = serial_out (io_log s) @ (if uart s \<noteq> 0 then text_bytes (dump_text s fs) else [])"
proof -
  have "format_text ''kernel heap: start=0x%p'' [CWord (kmem_freelist s)] =
      Some (''kernel heap: start=0x'' @ num_text 16 (unat (kmem_freelist s)))" by simp
  then obtain a where a: "cprintf (Some ''kernel heap: start=0x%p'') [CWord (kmem_freelist s)] s = Ret () a"
    "cprintf_frame s a" "serial_out (io_log a) = serial_out (io_log s) @ (if uart s \<noteq> 0 then
       text_bytes (''kernel heap: start=0x'' @ num_text 16 (unat (kmem_freelist s))) else [])"
    using cprintf_returns [OF ready] by blast
  have oka: "kmem_ok a fs" using kmem_ok_cprintf [OF a(2) ok] .
  have fa: "kmem_freelist a = kmem_freelist s" "kmem_sentinel a = kmem_sentinel s" "uart a = uart s"
    using a(2) console_more_eqD [of a s] by (auto simp: cprintf_frame_def)
  then have ea: "dump_end a fs = dump_end s fs" by (simp add: dump_end_def)
  have len: "length fs \<le> 1048576"
    using ok by (intro frames_bound) (auto simp: kmem_ok_def frame_ok_def)
  let ?n = "of_nat (length fs - 1) :: u32"
  let ?out = "'' end=0x'' @ num_text 16 (unat (dump_end s fs)) @ '', number of free frames: '' @
      dec_text (int (length fs - 1)) @ ''\<newline>''"
  have "sint ?n = int (length fs - 1)" using len by (intro sint_small) simp
  then have "format_text '' end=0x%p, number of free frames: %d\<newline>'' [CWord (dump_end s fs), CWord ?n] = Some ?out"
    by simp
  then obtain b where b: "cprintf (Some '' end=0x%p, number of free frames: %d\<newline>'')
        [CWord (dump_end s fs), CWord ?n] a = Ret () b" "cprintf_frame a b"
      "serial_out (io_log b) = serial_out (io_log a) @ (if uart a \<noteq> 0 then text_bytes ?out else [])"
    using cprintf_returns [of a] ready cons_ready_frame [OF a(2)] by blast
  have "dump_freelist s = Ret () b"
    using a(1) b(1) dump_loop_ok [OF oka] by (simp add: dump_freelist_def fa ea)
  then show ?thesis using cprintf_frame_trans [OF a(2) b(2)] kmem_ok_cprintf [OF b(2) oka] a(3) b(3) fa(3)
    by (auto simp: dump_text_def)
qed

section \<open>Initialisation\<close>

lemma freerange_returns:
  assumes "kmem_ok s fs" "kmem_ready s" "unat vstart \<le> 4294963200" "PGROUNDUP vstart \<le> vend"
    and n: "n = (unat vend - unat (PGROUNDUP vstart)) div 4096"
    and "unat vend < 4294963200" "\<And>v. v \<in> set (frames_from (PGROUNDUP vstart) n) \<Longrightarrow> may_free s fs v"
  shows "\<exists>t. freerange vstart vend s = Ret () t \<and> kmem_frame s t \<and>
    kmem_ok t (rev (frames_from (PGROUNDUP vstart) n) @ fs) \<and>
    (\<forall>a. \<not> in_region (PGROUNDUP vstart) (4096 * n) a \<longrightarrow> mem t a = mem s a)"
proof -
  let ?d = "unat vend - unat (PGROUNDUP vstart)"
  have le: "unat (PGROUNDUP vstart) \<le> unat vend" using assms(4) by (simp add: word_le_nat_alt)
  have "4096 * n + ?d mod 4096 = ?d" unfolding n by simp
  moreover have "?d mod 4096 < 4096" by simp
  ultimately have "4096 * n \<le> ?d" "?d < 4096 * n + 4096" by linarith+
  moreover have "n < 1048577" using assms(6) unfolding n by auto
  ultimately show ?thesis
    unfolding freerange_def using assms(1,2,6,7) le by (intro freerange_loop_returns) auto
qed

lemma frames_from_aligned: "aligned 4096 p \<Longrightarrow> v \<in> set (frames_from p n) \<Longrightarrow> aligned 4096 v"
  unfolding set_frames_from
  by (auto intro!: aligned_add aligned_of_nat_mult simp del: of_nat_mult)

lemma unat_V2P: "0x80000000 \<le> v \<Longrightarrow> unat (V2P v) = unat v - 2147483648"
  by (simp add: V2P_def unat_sub32 word_le_nat_alt)

lemma range_frame:
  assumes p: "aligned 4096 p" "0x80100000 \<le> p" and n: "unat p + 4096 * n \<le> unat vend"
    and v: "v \<in> set (frames_from p n)"
  shows "frame_ok v" "p \<le> v" "v < vend" "unat (V2P v) < unat vend - 2147483648"
proof -
  have b: "unat p \<le> unat v" "unat v + 4096 \<le> unat p + 4096 * n"
    using frames_from_ge [OF _ v] n unat_lt32 [of vend] by simp_all
  then show pv: "p \<le> v" "v < vend" using n by (simp_all add: word_le_nat_alt word_less_nat_alt)
  show "frame_ok v" using p pv(1) frames_from_aligned [OF p(1) v] by (auto simp: frame_ok_def)
  have "0x80000000 \<le> v" using p(2) b(1) by (simp add: word_le_nat_alt)
  then show "unat (V2P v) < unat vend - 2147483648"
    using b n p(2) by (simp add: unat_V2P word_le_nat_alt)
qed

lemma kinit1_returns:
  assumes start: "0x80100000 \<le> vstart" "unat vstart \<le> 4294963200" "PGROUNDUP vstart \<le> vend"
    and vend: "unat vend < 4294963200" "unat vend - 2147483648 \<le> unat (kheap_end s)"
    and sent: "kmem_sentinel s < vstart"
    and n: "n = (unat vend - unat (PGROUNDUP vstart)) div 4096"
  shows "\<exists>t. kinit1 vstart vend s = Ret () t \<and> kmem_ok t (rev (frames_from (PGROUNDUP vstart) n)) \<and>
    kmem_use_lock t = 0 \<and> kheap_start t = vstart \<and> kheap_end t = kheap_end s \<and> lock_free KmemLock t \<and>
    kmem_sentinel t = kmem_sentinel s \<and> kmem.more t = kmem.more s"
proof -
  let ?l = "(locks s)(KmemLock := (locks s KmemLock)\<lparr>lk_name := ''kmem'', locked := 0, lk_cpu := None\<rparr>)"
  let ?s = "s\<lparr>kheap_start := vstart, kmem_freelist := kmem_sentinel s, locks := ?l, kmem_use_lock := 0\<rparr>"
  let ?p = "PGROUNDUP vstart"
  have ge: "vstart \<le> ?p" using start(2) by (rule PGROUNDUP_ge)
  have bound: "unat ?p + 4096 * n \<le> unat vend" using start(3) by (simp add: n word_le_nat_alt)
  have free: "may_free ?s [] v" if v: "v \<in> set (frames_from ?p n)" for v
  proof -
    have "0x80100000 \<le> ?p" using start(1) ge by order
    from range_frame [OF PGROUNDUP_aligned this bound v] show ?thesis
      using ge sent vend(2) by (auto simp: may_free_def word_less_nat_alt word_le_nat_alt)
  qed
  have "kmem_ok ?s []" "kmem_ready ?s" by (simp_all add: kmem_ok_def kmem_ready_def)
  then obtain t where t: "freerange vstart vend ?s = Ret () t" "kmem_frame ?s t"
    "kmem_ok t (rev (frames_from ?p n))"
    using freerange_returns [OF _ _ start(2,3) n vend(1) free] by auto
  have "kinit1 vstart vend s = Ret () t"
    using t(1) by (simp add: kinit1_def initlock_def upd_lock_def)
  then show ?thesis using t(2,3)
    by (auto simp: kmem_frame_def same_sync_def lock_free_def)
qed

lemma kinit2_returns:
  assumes ok: "kmem_ok s fs" "kmem_ready s" "cons_ready s"
    and start: "0x80100000 \<le> vstart" "unat vstart \<le> 4294963200" "PGROUNDUP vstart \<le> vend" "kheap_start s \<le> vstart"
    and vend: "unat vend < 4294963200" and sent: "kmem_sentinel s < vstart" and fs: "\<forall>f \<in> set fs. f < vstart"
    and n: "n = (unat vend - unat (PGROUNDUP vstart)) div 4096"
  shows "\<exists>t. kinit2 vstart vend s = Ret () t \<and> kmem_ok t (rev (frames_from (PGROUNDUP vstart) n) @ fs) \<and>
    kmem_use_lock t = 1 \<and> kheap_start t = kheap_start s \<and> kheap_end t = vend \<and> same_sync s t \<and>
    kmem_sentinel t = kmem_sentinel s \<and> kmem.more t = kmem.more s"
proof -
  let ?s = "s\<lparr>kheap_end := vend\<rparr>" and ?p = "PGROUNDUP vstart"
  have ge: "vstart \<le> ?p" using start(2) by (rule PGROUNDUP_ge)
  have bound: "unat ?p + 4096 * n \<le> unat vend" using start(3) by (simp add: n word_le_nat_alt)
  have free: "may_free ?s fs v" if v: "v \<in> set (frames_from ?p n)" for v
  proof -
    have "0x80100000 \<le> ?p" using start(1) ge by order
    from range_frame [OF PGROUNDUP_aligned this bound v] show ?thesis
      using ge sent start(4) fs by (auto simp: may_free_def word_less_nat_alt word_le_nat_alt)
  qed
  have "kmem_ok ?s fs" "kmem_ready ?s"
    using ok by (simp_all add: kmem_ok_def kmem_ready_def cli_ok_def IF_on_def lock_free_def)
  then obtain t where t: "freerange vstart vend ?s = Ret () t" "kmem_frame ?s t"
    "kmem_ok t (rev (frames_from ?p n) @ fs)"
    using freerange_returns [OF _ _ start(2,3) n vend free] by auto
  let ?t = "t\<lparr>kmem_use_lock := 1\<rparr>"
  have "same_sync s ?s" "same_sync ?s t" "same_sync t ?t"
    using t(2) by (simp_all add: kmem_frame_def same_sync_eq)
  then have sync: "same_sync s ?t" by (blast intro: same_sync_trans)
  have "cons_ready ?t" using ok(3) same_sync_ok [OF sync] sync t(2)
    by (auto simp: cons_ready_def kmem_frame_def same_sync_def)
  moreover have "kmem_ok ?t (rev (frames_from ?p n) @ fs)" using t(3) by (simp add: kmem_ok_def)
  ultimately obtain u where u: "dump_freelist ?t = Ret () u" "cprintf_frame ?t u"
    "kmem_ok u (rev (frames_from ?p n) @ fs)" using dump_freelist_returns by blast
  have "kinit2 vstart vend s = Ret () u" using t(1) u(1) by (simp add: kinit2_def)
  moreover have "same_sync s u" using sync u(2) by (auto simp: cprintf_frame_def intro: same_sync_trans)
  moreover have "console.more u = console.more ?t" using u(2) by (simp add: cprintf_frame_def)
  ultimately show ?thesis using u(3) t(2) console_more_eqD [of u ?t] by (auto simp: kmem_frame_def)
qed

section \<open>The allocator interface\<close>

text \<open>
  What page tables, kernel stacks and user memory rely on: allocation takes the first free
  frame or reports failure by 0 without an effect, freeing a frame puts it in front, and
  free frames are distinct and never at address 0. \<open>gives s fs\<close> says that \<open>s\<close> can give
  out \<open>fs\<close>; \<open>takes s fs v\<close> that the frame \<open>v\<close> may be returned.
\<close>

primrec allocs :: "('a, 's) kern \<Rightarrow> nat \<Rightarrow> ('a list, 's) kern" where
  "allocs m 0 = retK []"
| "allocs m (Suc n) = bindK m (\<lambda>x. bindK (allocs m n) (\<lambda>xs. retK (x # xs)))"

locale frame_allocator =
  fixes alloc :: "(addr, 's) kern"
    and free :: "addr \<Rightarrow> (unit, 's) kern"
    and gives :: "'s \<Rightarrow> addr list \<Rightarrow> bool"
    and takes :: "'s \<Rightarrow> addr list \<Rightarrow> addr \<Rightarrow> bool"
    and data :: "'s \<Rightarrow> memory"
  assumes alloc_none: "gives s [] \<Longrightarrow> \<exists>t. alloc s = Ret 0 t \<and> gives t [] \<and> data t = data s"
    and alloc_some: "gives s (f # fs) \<Longrightarrow> \<exists>t. alloc s = Ret f t \<and> gives t fs \<and> data t = data s"
    and free_frame: "gives s fs \<Longrightarrow> takes s fs v \<Longrightarrow> \<exists>t. free v s = Ret () t \<and> gives t (v # fs) \<and>
      (\<forall>a. \<not> in_region v 4096 a \<longrightarrow> data t a = data s a)"
    and gives_distinct: "gives s fs \<Longrightarrow> distinct fs \<and> 0 \<notin> set fs"
begin

text \<open>Repeated allocation hands out the free frames in order, each once.\<close>

lemma alloc_many:
  "gives s (fs @ gs) \<Longrightarrow> \<exists>t. allocs alloc (length fs) s = Ret fs t \<and> gives t gs \<and> data t = data s"
proof (induction fs arbitrary: s)
  case (Cons f fs)
  obtain t where t: "alloc s = Ret f t" "gives t (fs @ gs)" "data t = data s"
    using alloc_some [of s f "fs @ gs"] Cons.prems by auto
  then obtain u where "allocs alloc (length fs) t = Ret fs u" "gives u gs" "data u = data s"
    using Cons.IH [of t] by auto
  then show ?case using t(1) by auto
qed simp

text \<open>When the frames are used up, the next allocation fails cleanly.\<close>

lemma alloc_exhausted:
  assumes "gives s fs"
  shows "\<exists>t. allocs alloc (Suc (length fs)) s = Ret (fs @ [0]) t \<and> gives t [] \<and> data t = data s"
  using assms
proof (induction fs arbitrary: s)
  case Nil
  then obtain t where "alloc s = Ret 0 t" "gives t []" "data t = data s" using alloc_none by blast
  then show ?case by auto
next
  case (Cons f fs)
  obtain t where t: "alloc s = Ret f t" "gives t fs" "data t = data s"
    using alloc_some [OF Cons.prems] by auto
  then obtain u where "allocs alloc (Suc (length fs)) t = Ret (fs @ [0]) u" "gives u []" "data u = data s"
    using Cons.IH [of t] by auto
  then show ?case using t(1) by simp
qed

text \<open>A frame that was returned is the next one given out.\<close>

lemma free_alloc:
  assumes "gives s fs" "takes s fs v"
  shows "\<exists>t. thenK (free v) alloc s = Ret v t \<and> gives t fs \<and>
    (\<forall>a. \<not> in_region v 4096 a \<longrightarrow> data t a = data s a)"
proof -
  obtain t where t: "free v s = Ret () t" "gives t (v # fs)"
    "\<forall>a. \<not> in_region v 4096 a \<longrightarrow> data t a = data s a"
    using free_frame [OF assms] by blast
  then obtain u where "alloc t = Ret v u" "gives u fs" "data u = data t" using alloc_some by blast
  then show ?thesis using t by auto
qed

end

definition kmem_gives :: "'z kmem_scheme \<Rightarrow> addr list \<Rightarrow> bool" where
  "kmem_gives s fs \<longleftrightarrow> kmem_ok s fs \<and> kmem_ready s"

interpretation kheap: frame_allocator kalloc kfree kmem_gives may_free mem
proof
  fix s :: "'z kmem_scheme" and f v fs
  have keep: "kmem_ready t" if "kmem_frame s t" "kmem_gives s gs" for t gs
    using that kmem_ready_frame by (auto simp: kmem_gives_def)
  show "\<exists>t. kalloc s = Ret 0 t \<and> kmem_gives t [] \<and> mem t = mem s" if g: "kmem_gives s []"
    using g keep [OF _ g] kalloc_empty [of s] unfolding kmem_gives_def by blast
  show "\<exists>t. kalloc s = Ret f t \<and> kmem_gives t fs \<and> mem t = mem s" if g: "kmem_gives s (f # fs)"
    using g keep [OF _ g] kalloc_frame [of s f fs] unfolding kmem_gives_def by blast
  show "\<exists>t. kfree v s = Ret () t \<and> kmem_gives t (v # fs) \<and>
      (\<forall>a. \<not> in_region v 4096 a \<longrightarrow> mem t a = mem s a)" if g: "kmem_gives s fs" and m: "may_free s fs v"
  proof -
    obtain t where "kfree v s = Ret () t" "kmem_frame s t" "kmem_ok t (v # fs)"
      "mem t = freed_mem (mem s) v (kmem_freelist s)"
      using g m kfree_frame [of s fs v] unfolding kmem_gives_def may_free_def by blast
    then show ?thesis using keep [OF _ g] by (auto simp: kmem_gives_def freed_mem_other)
  qed
  show "distinct fs \<and> 0 \<notin> set fs" if "kmem_gives s fs"
    using that by (auto simp: kmem_gives_def kmem_ok_def frame_ok_def)
qed

section \<open>A concrete heap\<close>

definition boot_kmem :: kmem where
  "boot_kmem = \<lparr>mem = (\<lambda>_. 0), eflags = 2, cr3 = 0, kstk = 0x80104000, io_log = [],
     dev8 = (\<lambda>_ _. 0), dev16 = (\<lambda>_ _. 0), dev32 = (\<lambda>_ _. 0),
     cpus = (\<lambda>_. zero_cpu), locks = (\<lambda>_. zero_lock), cons_locking = 1, uart = 1,
     kmem_use_lock = 0, kmem_freelist = 0x8010e004, kheap_start = 0x80110000,
     kheap_end = 0x07fe0000, kmem_sentinel = 0x8010e004\<rparr>"

lemma boot_kmem_free: "lock_free lk boot_kmem"
  by (simp add: lock_free_def boot_kmem_def zero_lock_def)

lemma boot_kmem_sync: "sync_ok boot_kmem"
  by (auto simp: sync_ok_def boot_kmem_free held_locks_none)
     (simp_all add: cli_ok_def boot_kmem_def zero_cpu_def)

lemma boot_kmem_empty: "kmem_ok boot_kmem []" "kmem_ready boot_kmem"
  by (simp_all add: kmem_ok_def kmem_ready_def boot_kmem_def)

lemma boot_kmem_may_free: "may_free boot_kmem [] 0x80200000"
  by (simp add: may_free_def frame_ok_def aligned_def V2P_def boot_kmem_def)

lemma frames_from_2: "frames_from p 2 = [p, p + 4096]"
  by (simp add: numeral_2_eq_2)

section \<open>Properties\<close>

text \<open>C31: \<open>kalloc\<close> refines taking the head of the list of free frames. With a free frame it
  returns the first one and keeps the rest; with none it returns 0. Memory, interrupt state,
  locks and all other data are unchanged.\<close>

theorem kalloc_spec:
  assumes "kmem_ok s fs" and "kmem_ready s"
  shows "\<exists>t. kalloc s = Ret (case fs of [] \<Rightarrow> 0 | f # _ \<Rightarrow> f) t \<and> kmem_ok t (tl fs) \<and>
    mem t = mem s \<and> kmem_frame s t"
proof (cases fs)
  case Nil
  then show ?thesis using kalloc_empty assms by auto
next
  case (Cons f gs)
  then show ?thesis using kalloc_frame [of s f gs] assms by auto
qed

theorem kalloc_spec_witness: "\<exists>t. kalloc boot_kmem = Ret 0 t \<and> kmem_ok t []"
  using kalloc_spec [OF boot_kmem_empty] by auto

text \<open>C18: \<open>kfree\<close> on every branch. A page-aligned frame of the heap that is not yet free is
  put in front of the list, its old contents are overwritten and no other memory changes;
  a misaligned address, one below the heap or one whose physical address is at or above
  \<open>kheap_end\<close> panics before anything is written.\<close>

theorem kfree_spec:
  assumes "kmem_ok s fs" and "kmem_ready s"
  shows "(may_free s fs v \<longrightarrow> (\<exists>t. kfree v s = Ret () t \<and> kmem_ok t (v # fs) \<and> kmem_frame s t \<and>
      (\<forall>a. \<not> in_region v 4096 a \<longrightarrow> mem t a = mem s a) \<and>
      (\<forall>i. 4 \<le> i \<and> i < 4096 \<longrightarrow> mem t (v + of_nat i) = 1))) \<and>
    (\<not> aligned 4096 v \<or> v < kheap_start s \<or> kheap_end s \<le> V2P v \<longrightarrow> kfree v s = Panic ''kfree'' s)"
proof (intro conjI impI)
  assume m: "may_free s fs v"
  then obtain t where t: "kfree v s = Ret () t" "kmem_frame s t" "kmem_ok t (v # fs)"
    "mem t = freed_mem (mem s) v (kmem_freelist s)"
    using kfree_frame [OF assms] by (auto simp: may_free_def)
  have "mem t (v + of_nat i) = 1" if "4 \<le> i \<and> i < 4096" for i
  proof -
    have "\<not> in_region v 4 (v + of_nat i)" "in_region v 4096 (v + of_nat i)"
      using that by (simp_all add: in_region_def unat_of_nat32)
    then show ?thesis by (simp add: t(4) freed_mem_def write32_other memset_eq)
  qed
  then show "\<exists>t. kfree v s = Ret () t \<and> kmem_ok t (v # fs) \<and> kmem_frame s t \<and>
      (\<forall>a. \<not> in_region v 4096 a \<longrightarrow> mem t a = mem s a) \<and>
      (\<forall>i. 4 \<le> i \<and> i < 4096 \<longrightarrow> mem t (v + of_nat i) = 1)"
    using t by (auto simp: freed_mem_other)
next
  assume "\<not> aligned 4096 v \<or> v < kheap_start s \<or> kheap_end s \<le> V2P v"
  then show "kfree v s = Panic ''kfree'' s" by (intro kfree_bad) (auto simp: mod_4096_iff)
qed

theorem kfree_spec_witness:
  "(\<exists>t. kfree 0x80200000 boot_kmem = Ret () t \<and> kmem_ok t [0x80200000]) \<and>
   kfree 0x80200004 boot_kmem = Panic ''kfree'' boot_kmem"
  using kfree_spec [OF boot_kmem_empty, of "0x80200000"] kfree_spec [OF boot_kmem_empty, of "0x80200004"]
    boot_kmem_may_free by (auto simp: aligned_def)

text \<open>C6: the allocator never hands out a frame twice. From a free list \<open>fs\<close>, as many
  allocations as there are free frames return exactly \<open>fs\<close>, whose members are distinct,
  page-aligned and nonzero; the next one returns 0; nothing is written meanwhile.\<close>

theorem kalloc_exhausts:
  assumes "kmem_ok s fs" and "kmem_ready s"
  shows "(\<exists>t. allocs kalloc (Suc (length fs)) s = Ret (fs @ [0]) t \<and> mem t = mem s) \<and>
    distinct fs \<and> 0 \<notin> set fs \<and> (\<forall>f \<in> set fs. aligned 4096 f)"
proof -
  have "kmem_gives s fs" using assms by (simp add: kmem_gives_def)
  note g = kheap.alloc_exhausted [OF this] kheap.gives_distinct [OF this]
  have "\<forall>f \<in> set fs. aligned 4096 f" using assms(1) by (simp add: kmem_ok_def frame_ok_def)
  then show ?thesis using g by blast
qed

theorem kalloc_exhausts_witness:
  "\<exists>(s :: kmem) t. kmem_ok s [0x80200000] \<and> allocs kalloc 2 s = Ret [0x80200000, 0] t"
proof -
  obtain s where s: "kfree 0x80200000 boot_kmem = Ret () s" "kmem_frame boot_kmem s" "kmem_ok s [0x80200000]"
    using kfree_frame [OF boot_kmem_empty, of "0x80200000"] boot_kmem_may_free by (auto simp: may_free_def)
  have "kmem_ready s" using kmem_ready_frame [OF s(2)] boot_kmem_empty by simp
  from kalloc_exhausts [OF s(3) this] obtain t
    where "allocs kalloc (Suc (length [0x80200000 :: addr])) s = Ret ([0x80200000] @ [0]) t" by blast
  moreover have "Suc (length [0x80200000 :: addr]) = 2" by simp
  ultimately have "allocs kalloc 2 s = Ret [0x80200000, 0] t" by (simp only: append.simps)
  then show ?thesis using s(3) by blast
qed

text \<open>C32: \<open>kinit1\<close> builds the free list. Called with the range between the end of the kernel
  and the end of the memory mapped at boot, it leaves every whole page of that range on the
  list, each once, the highest first, and the lock switched off.\<close>

theorem kinit1_spec:
  assumes "0x80100000 \<le> vstart" and "PGROUNDUP vstart \<le> vend" and "vstart \<le> 0xfffff000"
    and "unat vend < 4294963200" and "unat vend - 2147483648 \<le> unat (kheap_end s)"
    and "kmem_sentinel s < vstart"
  shows "\<exists>t. kinit1 vstart vend s = Ret () t \<and> kmem_use_lock t = 0 \<and> kheap_start t = vstart \<and>
    kmem_ok t (rev (frames_from (PGROUNDUP vstart) ((unat vend - unat (PGROUNDUP vstart)) div 4096)))"
  using kinit1_returns [OF assms(1) _ assms(2,4,5,6) refl] assms(3) by (auto simp: word_le_nat_alt)

theorem kinit1_spec_witness:
  "\<exists>t. kinit1 0x8010f123 0x80112000 boot_kmem = Ret () t \<and> kmem_ok t [0x80111000, 0x80110000]"
proof -
  have p: "PGROUNDUP 0x8010f123 = 0x80110000" by (simp add: PGROUNDUP_def)
  have n: "(unat (0x80112000 :: addr) - unat (0x80110000 :: addr)) div 4096 = 2" by simp
  have "kheap_end boot_kmem = 0x07fe0000" "kmem_sentinel boot_kmem = 0x8010e004"
    by (simp_all add: boot_kmem_def)
  then show ?thesis
    using kinit1_spec [of "0x8010f123" "0x80112000" boot_kmem] unfolding p n frames_from_2 by auto
qed

text \<open>C33: \<open>kinit2\<close> extends the heap. It adds every whole page of the new range in front of
  the frames already free, switches the lock on, and returns with interrupts and locks as
  they were, after reporting the heap on the console.\<close>

theorem kinit2_spec:
  assumes "kmem_ok s fs" and "kmem_ready s" and "cons_ready s"
    and "0x80100000 \<le> vstart" and "vstart \<le> 0xfffff000" and "PGROUNDUP vstart \<le> vend"
    and "kheap_start s \<le> vstart" and "unat vend < 4294963200" and "kmem_sentinel s < vstart"
    and "\<forall>f \<in> set fs. f < vstart"
  shows "\<exists>t. kinit2 vstart vend s = Ret () t \<and> kmem_use_lock t = 1 \<and> kheap_end t = vend \<and> same_sync s t \<and>
    kmem_ok t (rev (frames_from (PGROUNDUP vstart) ((unat vend - unat (PGROUNDUP vstart)) div 4096)) @ fs)"
  using kinit2_returns [OF assms(1-4) _ assms(6-10) refl] assms(5) by (auto simp: word_le_nat_alt)

theorem kinit2_spec_witness:
  "\<exists>t. kinit2 0x80400000 0x80402000 boot_kmem = Ret () t \<and> kmem_ok t [0x80401000, 0x80400000]"
proof -
  have p: "PGROUNDUP 0x80400000 = 0x80400000" by (simp add: PGROUNDUP_def)
  have "cons_ready boot_kmem" by (simp add: cons_ready_def boot_kmem_sync boot_kmem_free)
  moreover have n: "(unat (0x80402000 :: addr) - unat (0x80400000 :: addr)) div 4096 = 2" by simp
  moreover have "kheap_start boot_kmem = 0x80110000" "kmem_sentinel boot_kmem = 0x8010e004"
    by (simp_all add: boot_kmem_def)
  ultimately show ?thesis
    using kinit2_spec [OF boot_kmem_empty, of "0x80400000" "0x80402000"] unfolding p n frames_from_2 by auto
qed

text \<open>C34: the number of free frames that \<open>dump_freelist\<close> reports. It counts links between
  frames rather than frames: with a nonempty list it prints one less than the number of free
  frames. The call changes no allocator state.\<close>

theorem dump_freelist_undercounts:
  assumes "kmem_ok s fs" and "cons_ready s" and "uart s \<noteq> 0" and "fs \<noteq> []"
  shows "\<exists>t. dump_freelist s = Ret () t \<and> kmem_ok t fs \<and>
    serial_out (io_log t) = serial_out (io_log s) @ text_bytes (
      ''kernel heap: start=0x'' @ num_text 16 (unat (hd fs)) @ '' end=0x'' @ num_text 16 (unat (last fs)) @
      '', number of free frames: '' @ dec_text (int (length fs) - 1) @ ''\<newline>'')"
proof -
  obtain f gs where fs: "fs = f # gs" using assms(4) by (cases fs) auto
  then have "kmem_freelist s = hd fs" "dump_end s fs = last fs" "int (length fs - 1) = int (length fs) - 1"
    using assms(1) by (simp_all add: kmem_ok_def dump_end_def)
  then show ?thesis using dump_freelist_returns [OF assms(1,2)] assms(3)
    unfolding dump_text_def by auto
qed

theorem dump_freelist_undercounts_witness:
  "\<exists>s t :: kmem. kmem_ok s [0x80200000] \<and> dump_freelist s = Ret () t \<and> serial_out (io_log t) =
     text_bytes ''kernel heap: start=0x80200000 end=0x80200000, number of free frames: 0\<newline>''"
proof -
  obtain s where s: "kfree 0x80200000 boot_kmem = Ret () s" "kmem_frame boot_kmem s" "kmem_ok s [0x80200000]"
    using kfree_frame [OF boot_kmem_empty, of "0x80200000"] boot_kmem_may_free by (auto simp: may_free_def)
  have u: "uart s \<noteq> 0" "io_log s = []" using s(2) by (simp_all add: kmem_frame_def boot_kmem_def)
  have "same_sync boot_kmem s" using s(2) by (simp add: kmem_frame_def)
  then have "cons_ready s"
    using same_sync_ok [of boot_kmem s] boot_kmem_sync same_sync_ready(2) [of boot_kmem s ConsLock]
    by (simp add: cons_ready_def boot_kmem_free)
  from dump_freelist_undercounts [OF s(3) this u(1)] obtain t where "dump_freelist s = Ret () t"
    "serial_out (io_log t) = text_bytes (
      ''kernel heap: start=0x'' @ num_text 16 (unat (0x80200000 :: addr)) @ '' end=0x'' @
      num_text 16 (unat (0x80200000 :: addr)) @ '', number of free frames: '' @ dec_text 0 @ ''\<newline>'')"
    using u(2) by auto
  then show ?thesis using s(3)
    by (auto simp: num_text_def dec_text_def int_digits.simps digits_def)
qed

text \<open>Once \<open>kinit2\<close> has set \<open>kheap_end\<close> to a virtual address, the upper bound check of
  \<open>kfree\<close> lets frames beyond the end of the heap through.\<close>

lemma kfree_beyond_heap_end:
  assumes "kmem_ready s" "aligned 4096 v" "kheap_start s \<le> v" "kheap_end s = P2V phys" "P2V phys \<le> v" "phys < KERNBASE"
  shows "\<exists>t. kfree v s = Ret () t"
proof -
  have "V2P v < kheap_end s"
  proof -
    have "unat (P2V phys) = unat phys + 2147483648"
      using assms(6) by (simp add: P2V_def unat_add32 word_less_nat_alt)
    moreover have "unat (P2V phys) \<le> unat v" using assms(5) by (simp add: word_le_nat_alt)
    ultimately show ?thesis using unat_lt32 [of v] unat_V2P [of v] assms(4)
      by (simp add: word_less_nat_alt word_le_nat_alt)
  qed
  then show ?thesis using kfree_returns [OF assms(1-3)] by blast
qed

end
