(* ===== verification/Debug.thy ===== *)
theory Debug
  imports Console
begin

text \<open>
  The diagnostic macros of \<^verbatim>\<open>kernel/lib/debug.h\<close> and the stack protector's failure routine of
  \<^verbatim>\<open>kernel/lib/debug.c\<close>. The position that the preprocessor fills in (\<open>__FUNCTION__\<close>,
  \<open>__FILE__\<close>, \<open>__LINE__\<close>) is given by the caller.
\<close>

section \<open>Definitions\<close>

definition where_am_i :: "string \<Rightarrow> string \<Rightarrow> nat \<Rightarrow> (unit, 'z console_scheme) kern" where
  "where_am_i func file line =
     cprintf (Some ''function '%s', file '%s': line %d\<newline>'') [CStr (Some func), CStr (Some file), CWord (of_nat line)]"

definition assertK :: "string \<Rightarrow> string \<Rightarrow> nat \<Rightarrow> bool \<Rightarrow> (unit, 'z console_scheme) kern" where
  "assertK func file line condition =
     whenK (\<not> condition) (thenK (where_am_i func file line) (panicK ''assertion failed''))"

definition errorK :: "string \<Rightarrow> string \<Rightarrow> nat \<Rightarrow> string \<Rightarrow> carg list \<Rightarrow> (unit, 'z console_scheme) kern" where
  "errorK func file line fmt args = seqK [
     cprintf (Some (''ERROR: '' @ fmt @ ''\<newline>'')) args,
     where_am_i func file line,
     panicK ''error occurred'']"

definition warn :: "string \<Rightarrow> carg list \<Rightarrow> (unit, 'z console_scheme) kern" where
  "warn fmt args = cprintf (Some (''WARN: '' @ fmt @ ''\<newline>'')) args"

definition info :: "string \<Rightarrow> carg list \<Rightarrow> (unit, 'z console_scheme) kern" where
  "info fmt args = cprintf (Some (''INFO: '' @ fmt @ ''\<newline>'')) args"

definition stack_chk_fail :: "(unit, 'z console_scheme) kern" where
  "stack_chk_fail = panicK ''stack smashing detected''"

section \<open>Effects\<close>

text \<open>Output in several pieces, and what a failed assertion comes to.\<close>

lemma cprintf_seq:
  assumes "cons_ready s" "format_text fmt args = Some out"
  obtains t where "cprintf (Some fmt) args s = Ret () t" "cprintf_frame s t" "cons_ready t"
    "serial_out (io_log t) = serial_out (io_log s) @ (if uart s \<noteq> 0 then text_bytes out else [])"
  using cprintf_returns [OF assms] cons_ready_frame [of s] assms(1) by auto

lemma where_am_i_returns:
  assumes "cons_ready s"
  obtains t where "where_am_i func file line s = Ret () t" "cprintf_frame s t" "cons_ready t"
proof -
  have "format_text ''function '%s', file '%s': line %d\<newline>''
      [CStr (Some func), CStr (Some file), CWord (of_nat line)] \<noteq> None" by simp
  then show thesis using that cprintf_seq [OF assms] unfolding where_am_i_def by blast
qed

lemma assertK_True [simp]: "assertK func file line True s = Ret () s"
  by (simp add: assertK_def)

lemma assertK_False:
  assumes "cons_ready s"
  shows "\<exists>t. assertK func file line False s = Panic ''assertion failed'' t \<and> cprintf_frame s t"
proof -
  obtain t where "where_am_i func file line s = Ret () t" "cprintf_frame s t"
    by (rule where_am_i_returns [OF assms])
  then show ?thesis by (simp add: assertK_def)
qed

lemma errorK_panics:
  assumes "cons_ready s" "format_text (''ERROR: '' @ fmt @ ''\<newline>'') args \<noteq> None"
  shows "\<exists>t. errorK func file line fmt args s = Panic ''error occurred'' t \<and> cprintf_frame s t"
proof -
  obtain out where "format_text (''ERROR: '' @ fmt @ ''\<newline>'') args = Some out" using assms(2) by auto
  then obtain t where t: "cprintf (Some (''ERROR: '' @ fmt @ ''\<newline>'')) args s = Ret () t" "cprintf_frame s t" "cons_ready t"
    by (rule cprintf_seq [OF assms(1)])
  obtain u where "where_am_i func file line t = Ret () u" "cprintf_frame t u"
    by (rule where_am_i_returns [OF t(3)])
  then show ?thesis using t cprintf_frame_trans by (auto simp: errorK_def)
qed

end
