(* ===== verification/Idt.thy ===== *)
theory Idt
  imports Kalloc Debug
begin

text \<open>
  The interrupt descriptor table and the table of service routines (\<^verbatim>\<open>kernel/idt.h\<close>,
  \<^verbatim>\<open>kernel/idt.c\<close>). A function pointer stored in \<open>isr_table\<close> is a value of \<open>handler\<close>,
  one per routine the kernel registers, \<open>None\<close> for null. The addresses of the assembly
  entry stubs, of the table and of \<open>cpus[0].gdt\<close> are fixed by the linker and so fields of
  the state; \<open>idtr_reg\<close>, \<open>gdtr_reg\<close> and \<open>task_reg\<close> are the processor registers that
  \<open>lidt\<close>, \<open>lgdt\<close> and \<open>ltr\<close> load. The dispatcher \<open>isr_handler\<close> calls routines of
  every component and is in the theory \<open>Trap\<close>.
\<close>

section \<open>Definitions\<close>

abbreviation (input) IDT_SIZE_MAX :: nat where "IDT_SIZE_MAX \<equiv> 256"
abbreviation (input) IDT_INT_GPFLT :: u8 where "IDT_INT_GPFLT \<equiv> 13"
abbreviation (input) IDT_INT_PGFLT :: u8 where "IDT_INT_PGFLT \<equiv> 14"
abbreviation (input) IDT_IRQ_BASE :: nat where "IDT_IRQ_BASE \<equiv> 32"
abbreviation (input) IDT_IRQ_TIMER :: nat where "IDT_IRQ_TIMER \<equiv> 0"
abbreviation (input) IDT_IRQ_KEYBOARD :: nat where "IDT_IRQ_KEYBOARD \<equiv> 1"
abbreviation (input) IDT_IRQ_COM1 :: nat where "IDT_IRQ_COM1 \<equiv> 4"
abbreviation (input) IDT_IRQ_IDE1 :: nat where "IDT_IRQ_IDE1 \<equiv> 14"
abbreviation (input) IDT_IRQ_SIZE_MAX :: nat where "IDT_IRQ_SIZE_MAX \<equiv> 48"
abbreviation (input) IDT_TRAP_SYSCALL :: nat where "IDT_TRAP_SYSCALL \<equiv> 64"
abbreviation (input) SEG_KCODE :: u16 where "SEG_KCODE \<equiv> 1"

definition IDT_DESCRIPTOR_X32_INTERRUPT :: u8 where "IDT_DESCRIPTOR_X32_INTERRUPT = 0x0E"
definition IDT_DESCRIPTOR_X32_TRAP :: u8 where "IDT_DESCRIPTOR_X32_TRAP = 0x0F"
definition IDT_DESCRIPTOR_RING3 :: u8 where "IDT_DESCRIPTOR_RING3 = 0x60"
definition IDT_DESCRIPTOR_PRESENT :: u8 where "IDT_DESCRIPTOR_PRESENT = 0x80"

definition IDT_DESCRIPTOR_EXCEPTION :: u8 where
  "IDT_DESCRIPTOR_EXCEPTION = IDT_DESCRIPTOR_X32_INTERRUPT OR IDT_DESCRIPTOR_PRESENT"

definition IDT_DESCRIPTOR_EXTERNAL :: u8 where
  "IDT_DESCRIPTOR_EXTERNAL = IDT_DESCRIPTOR_X32_INTERRUPT OR IDT_DESCRIPTOR_PRESENT"

definition IDT_DESCRIPTOR_CALL :: u8 where
  "IDT_DESCRIPTOR_CALL = IDT_DESCRIPTOR_X32_TRAP OR IDT_DESCRIPTOR_PRESENT OR IDT_DESCRIPTOR_RING3"

record idt_entry =
  ig_base_lo :: u16
  ig_selector :: u16
  ig_zero :: u8
  ig_type_attr :: u8
  ig_base_hi :: u16

record desc_reg =
  dr_limit :: u16
  dr_base :: u32

record interrupt_state =
  is_ds :: u32
  is_edi :: u32
  is_esi :: u32
  is_ebp :: u32
  is_useless :: u32
  is_ebx :: u32
  is_edx :: u32
  is_ecx :: u32
  is_eax :: u32
  is_int_no :: u32
  is_err_code :: u32
  is_eip :: u32
  is_cs :: u32
  is_eflags :: u32
  is_esp :: u32
  is_ss :: u32

datatype handler = ProtectionFaultHandler | PageFaultHandler | TimerHandler | KbdHandler
  | Com1Handler | IdeHandler | SyscallHandler

record irq = kmem +
  idt :: "idt_entry list"
  idtr :: desc_reg
  isr_table :: "u8 \<Rightarrow> handler option"
  isr_stub_table :: "nat \<Rightarrow> u32"
  idt_addr :: u32
  gdt_addr :: u32
  tss_addr :: u32
  idtr_reg :: desc_reg
  gdtr_reg :: desc_reg
  task_reg :: u16

definition idt_set_descriptor :: "nat \<Rightarrow> u32 \<Rightarrow> u16 \<Rightarrow> u8 \<Rightarrow> (unit, 'z irq_scheme) kern" where
  "idt_set_descriptor idx base selector flags = bindK (getK (\<lambda>s. length (idt s))) (\<lambda>n.
     if n \<le> idx then faultK
     else modK (\<lambda>s. s\<lparr>idt := (idt s)[idx := \<lparr>
       ig_base_lo = ucast (base AND 0xffff),
       ig_selector = selector,
       ig_zero = 0,
       ig_type_attr = flags,
       ig_base_hi = ucast (drop_bit 16 base AND 0xffff)\<rparr>]\<rparr>))"

definition isr_register :: "u8 \<Rightarrow> handler \<Rightarrow> (unit, 'z irq_scheme) kern" where
  "isr_register int_no handler = bindK (getK (\<lambda>s. isr_table s int_no)) (\<lambda>old.
     if old \<noteq> None then
       cprintf (Some ''isr: handler already registered for interrupt # %d'') [CWord (ucast int_no)]
     else modK (\<lambda>s. s\<lparr>isr_table := (isr_table s)(int_no := Some handler)\<rparr>))"

definition idt_load :: "desc_reg \<Rightarrow> (unit, 'z irq_scheme) kern" where
  "idt_load r = modK (\<lambda>s. s\<lparr>idtr_reg := r\<rparr>)"

definition set_gate :: "u8 \<Rightarrow> nat \<Rightarrow> (unit, 'z irq_scheme) kern" where
  "set_gate flags vector = bindK (getK (\<lambda>s. isr_stub_table s vector)) (\<lambda>stub.
     idt_set_descriptor vector stub (push_bit 3 SEG_KCODE) flags)"

definition idt_init :: "(unit, 'z irq_scheme) kern" where
  "idt_init = seqK [
     forK [0 ..< IDT_IRQ_BASE] (set_gate IDT_DESCRIPTOR_EXCEPTION),
     forK [IDT_IRQ_BASE ..< IDT_IRQ_SIZE_MAX] (set_gate IDT_DESCRIPTOR_EXTERNAL),
     set_gate IDT_DESCRIPTOR_CALL IDT_TRAP_SYSCALL,
     modK (\<lambda>s. s\<lparr>idtr := (idtr s)\<lparr>dr_base := idt_addr s\<rparr>\<rparr>),
     modK (\<lambda>s. s\<lparr>idtr := (idtr s)\<lparr>dr_limit := 8 * 256 - 1\<rparr>\<rparr>),
     bindK (getK idtr) idt_load]"

section \<open>Gates\<close>

text \<open>What the processor reads from a gate.\<close>

definition gate_base :: "idt_entry \<Rightarrow> u32" where
  "gate_base g = ucast (ig_base_lo g) OR push_bit 16 (ucast (ig_base_hi g))"

definition gate_present :: "idt_entry \<Rightarrow> bool" where
  "gate_present g \<longleftrightarrow> bit (ig_type_attr g) 7"

definition gate_dpl :: "idt_entry \<Rightarrow> nat" where
  "gate_dpl g = unat (drop_bit 5 (ig_type_attr g) AND 3)"

definition mk_gate :: "u32 \<Rightarrow> u8 \<Rightarrow> idt_entry" where
  "mk_gate base flags = \<lparr>ig_base_lo = ucast (base AND 0xffff), ig_selector = 8, ig_zero = 0,
     ig_type_attr = flags, ig_base_hi = ucast (drop_bit 16 base AND 0xffff)\<rparr>"

lemma gate_base_mk_gate [simp]: "gate_base (mk_gate base flags) = base"
proof -
  have m: "(0xffff :: u32) = mask 16" by (simp add: mask_eq_exp_minus_1)
  show ?thesis unfolding gate_base_def mk_gate_def m
    by (rule bit_word_eqI) (auto simp: bit_simps)
qed

lemma set_gate_apply:
  "v < length (idt s) \<Longrightarrow> set_gate flags v s = Ret () (s\<lparr>idt := (idt s)[v := mk_gate (isr_stub_table s v) flags]\<rparr>)"
  by (simp add: set_gate_def idt_set_descriptor_def mk_gate_def)

text \<open>The table with the gates from \<open>lo\<close> up to \<open>hi\<close> filled in.\<close>

definition fill_gates :: "nat \<Rightarrow> nat \<Rightarrow> u8 \<Rightarrow> (nat \<Rightarrow> u32) \<Rightarrow> idt_entry list \<Rightarrow> idt_entry list" where
  "fill_gates lo hi flags stub gs =
     map (\<lambda>i. if lo \<le> i \<and> i < hi then mk_gate (stub i) flags else gs ! i) [0 ..< length gs]"

lemma length_fill_gates [simp]: "length (fill_gates lo hi flags stub gs) = length gs"
  by (simp add: fill_gates_def)

lemma nth_fill_gates [simp]:
  "i < length gs \<Longrightarrow> fill_gates lo hi flags stub gs ! i = (if lo \<le> i \<and> i < hi then mk_gate (stub i) flags else gs ! i)"
  by (simp add: fill_gates_def)

lemma fill_gates_empty [simp]: "fill_gates lo lo flags stub gs = gs"
  by (intro nth_equalityI) auto

lemma fill_gates_Suc:
  "lo \<le> n \<Longrightarrow> n < length gs \<Longrightarrow>
     fill_gates lo (Suc n) flags stub gs = (fill_gates lo n flags stub gs)[n := mk_gate (stub n) flags]"
  by (intro nth_equalityI) (auto simp: nth_list_update)

lemma set_gates_apply:
  assumes "lo \<le> hi" "hi \<le> length (idt s)"
  shows "forK [lo ..< hi] (set_gate flags) s = Ret () (s\<lparr>idt := fill_gates lo hi flags (isr_stub_table s) (idt s)\<rparr>)"
  using assms
proof (induction hi rule: dec_induct)
  case (step n)
  then show ?case by (simp add: forK_append set_gate_apply thenK_skip fill_gates_Suc)
qed simp

text \<open>The table after initialisation.\<close>

definition init_gates :: "(nat \<Rightarrow> u32) \<Rightarrow> idt_entry list \<Rightarrow> idt_entry list" where
  "init_gates stub gs = (fill_gates 32 48 IDT_DESCRIPTOR_EXTERNAL stub
     (fill_gates 0 32 IDT_DESCRIPTOR_EXCEPTION stub gs))[64 := mk_gate (stub 64) IDT_DESCRIPTOR_CALL]"

lemma idt_init_apply:
  assumes "length (idt s) = 256"
  shows "idt_init s = Ret () (s\<lparr>idt := init_gates (isr_stub_table s) (idt s),
    idtr := \<lparr>dr_limit = 2047, dr_base = idt_addr s\<rparr>, idtr_reg := \<lparr>dr_limit = 2047, dr_base = idt_addr s\<rparr>\<rparr>)"
proof -
  let ?a = "fill_gates 0 32 IDT_DESCRIPTOR_EXCEPTION (isr_stub_table s) (idt s)"
  let ?b = "fill_gates 32 48 IDT_DESCRIPTOR_EXTERNAL (isr_stub_table s) ?a"
  have a: "forK [0 ..< 32] (set_gate IDT_DESCRIPTOR_EXCEPTION) s = Ret () (s\<lparr>idt := ?a\<rparr>)"
    using assms by (intro set_gates_apply) simp_all
  have b: "forK [32 ..< 48] (set_gate IDT_DESCRIPTOR_EXTERNAL) (s\<lparr>idt := ?a\<rparr>) = Ret () (s\<lparr>idt := ?b\<rparr>)"
    using set_gates_apply [of 32 48 "s\<lparr>idt := ?a\<rparr>"] assms by (simp del: upt_rec_numeral)
  have c: "set_gate IDT_DESCRIPTOR_CALL 64 (s\<lparr>idt := ?b\<rparr>) = Ret () (s\<lparr>idt := init_gates (isr_stub_table s) (idt s)\<rparr>)"
    using assms by (simp add: set_gate_apply init_gates_def)
  have R: "idtr s\<lparr>dr_base := b, dr_limit := l\<rparr> = \<lparr>dr_limit = l, dr_base = b\<rparr>" for b l
    by (cases "idtr s") simp
  have "idt_init s = thenK (modK (\<lambda>s. s\<lparr>idtr := (idtr s)\<lparr>dr_base := idt_addr s\<rparr>\<rparr>)) (thenK
     (modK (\<lambda>s. s\<lparr>idtr := (idtr s)\<lparr>dr_limit := 8 * 256 - 1\<rparr>\<rparr>))
     (thenK (bindK (getK idtr) idt_load) (retK ()))) (s\<lparr>idt := init_gates (isr_stub_table s) (idt s)\<rparr>)"
    using a b c by (simp only: idt_init_def seqK.simps thenK_Ret)
  also have "\<dots> = Ret () (s\<lparr>idt := init_gates (isr_stub_table s) (idt s),
    idtr := (idtr s)\<lparr>dr_base := idt_addr s, dr_limit := 2047\<rparr>, idtr_reg := (idtr s)\<lparr>dr_base := idt_addr s, dr_limit := 2047\<rparr>\<rparr>)"
    by (simp add: idt_load_def)
  finally show ?thesis unfolding R .
qed

lemma isr_register_free [simp]:
  "isr_table s v = None \<Longrightarrow> isr_register v h s = Ret () (s\<lparr>isr_table := (isr_table s)(v \<mapsto> h)\<rparr>)"
  by (simp add: isr_register_def)

lemma sint_ucast_u8: "sint (ucast (v :: u8) :: u32) = uint v"
proof -
  have "uint (ucast v :: u32) = uint v" using uint_u8_bound [of v] by (simp add: unsigned_ucast_eq take_bit_int_eq_self_iff)
  moreover have "0 \<le> uint v" "uint v < 256" using uint_u8_bound [of v] by simp_all
  ultimately show ?thesis by (simp add: sint_uint signed_take_bit_int_eq_self_iff order_trans [of _ 0])
qed

text \<open>Equality of the fields added here follows from equality of everything after the console.\<close>

lemma irq_more_eqD:
  fixes s t :: "'z irq_scheme"
  assumes "console.more t = console.more s"
  shows "isr_table t = isr_table s" "idt t = idt s" "irq.more t = irq.more s"
proof -
  have eq: "t = s\<lparr>mem := mem t, eflags := eflags t, cr3 := cr3 t, kstk := kstk t, io_log := io_log t,
    dev8 := dev8 t, dev16 := dev16 t, dev32 := dev32 t, cpus := cpus t, locks := locks t,
    cons_locking := cons_locking t, uart := uart t\<rparr>"
    using assms by (intro console.equality) simp_all
  show "isr_table t = isr_table s" using arg_cong [OF eq, of isr_table] by simp
  show "idt t = idt s" using arg_cong [OF eq, of idt] by simp
  show "irq.more t = irq.more s" using arg_cong [OF eq, of irq.more] by simp
qed

section \<open>A concrete machine\<close>

definition zero_gate :: idt_entry where
  "zero_gate = \<lparr>ig_base_lo = 0, ig_selector = 0, ig_zero = 0, ig_type_attr = 0, ig_base_hi = 0\<rparr>"

definition boot_irq :: irq where
  "boot_irq = kmem.extend boot_kmem \<lparr>idt = replicate 256 zero_gate, idtr = \<lparr>dr_limit = 0, dr_base = 0\<rparr>,
     isr_table = (\<lambda>_. None), isr_stub_table = (\<lambda>v. 0x80102000 + 16 * of_nat v), idt_addr = 0x8010a000,
     gdt_addr = 0x8010b070, tss_addr = 0x8010b008, idtr_reg = \<lparr>dr_limit = 0x3ff, dr_base = 0\<rparr>,
     gdtr_reg = \<lparr>dr_limit = 23, dr_base = 0x7c2a\<rparr>, task_reg = 0\<rparr>"

lemma cons_ready_unlocked:
  assumes "\<And>lk. lock_free lk s" "ncli (cpus s 0) = 0"
  shows "cons_ready s"
  using assms by (simp add: cons_ready_def sync_ok_def held_locks_none cli_ok_def)

lemma boot_irq_ready: "cons_ready (boot_irq\<lparr>isr_table := h\<rparr>)"
  by (rule cons_ready_unlocked)
     (simp_all add: lock_free_def boot_irq_def kmem.defs boot_kmem_def zero_lock_def zero_cpu_def)

section \<open>Properties\<close>

text \<open>C24: \<open>idt_init\<close> installs exactly the 49 gates of the kernel. Reading the table back the way the
  processor does, the gate of every exception and device interrupt (vectors 0 to 47) and of the
  system call (vector 64) leads to that vector's entry stub in the kernel code segment; only
  the system call may be raised from user mode; every other vector is as before. The table
  register describes the whole table.\<close>

theorem idt_init_spec:
  assumes "length (idt s) = 256"
  shows "\<exists>t. idt_init s = Ret () t \<and> length (idt t) = 256 \<and>
    (\<forall>v < 256. (v < 48 \<or> v = 64 \<longrightarrow> gate_base (idt t ! v) = isr_stub_table s v \<and> ig_selector (idt t ! v) = 8 \<and>
        gate_present (idt t ! v) \<and> gate_dpl (idt t ! v) = (if v = 64 then 3 else 0)) \<and>
      (48 \<le> v \<and> v \<noteq> 64 \<longrightarrow> idt t ! v = idt s ! v)) \<and>
    idtr_reg t = \<lparr>dr_limit = 2047, dr_base = idt_addr s\<rparr> \<and> isr_table t = isr_table s \<and> mem t = mem s"
proof -
  have flags: "bit (IDT_DESCRIPTOR_EXCEPTION) 7" "bit (IDT_DESCRIPTOR_EXTERNAL) 7" "bit (IDT_DESCRIPTOR_CALL) 7"
    "drop_bit 5 IDT_DESCRIPTOR_EXCEPTION AND 3 = 0" "drop_bit 5 IDT_DESCRIPTOR_EXTERNAL AND 3 = 0"
    "drop_bit 5 IDT_DESCRIPTOR_CALL AND 3 = 3"
    by code_simp+
  have attr: "ig_type_attr (mk_gate b f) = f" "ig_selector (mk_gate b f) = 8" for b f by (simp_all add: mk_gate_def)
  show ?thesis
    unfolding idt_init_apply [OF assms] gate_present_def gate_dpl_def
    using assms by (auto simp: init_gates_def attr flags nth_list_update)
qed

theorem idt_init_spec_witness:
  "\<exists>t. idt_init boot_irq = Ret () t \<and> gate_base (idt t ! 64) = 0x80102400 \<and> gate_dpl (idt t ! 64) = 3 \<and>
     gate_dpl (idt t ! 14) = 0 \<and> idt t ! 100 = zero_gate"
proof -
  have s: "length (idt boot_irq) = 256" "isr_stub_table boot_irq 64 = 0x80102400" "idt boot_irq ! 100 = zero_gate"
    by (simp_all add: boot_irq_def kmem.defs boot_kmem_def)
  obtain t where "idt_init boot_irq = Ret () t"
    "\<forall>v < 256. (v < 48 \<or> v = 64 \<longrightarrow> gate_base (idt t ! v) = isr_stub_table boot_irq v \<and> ig_selector (idt t ! v) = 8 \<and>
        gate_present (idt t ! v) \<and> gate_dpl (idt t ! v) = (if v = 64 then 3 else 0)) \<and>
      (48 \<le> v \<and> v \<noteq> 64 \<longrightarrow> idt t ! v = idt boot_irq ! v)"
    using idt_init_spec [OF s(1)] by blast
  then show ?thesis using s by (intro exI [of _ t]) (auto dest: spec [of _ 64] spec [of _ 14] spec [of _ 100])
qed

text \<open>C35: \<open>isr_register\<close> never replaces a service routine. A free vector gets the routine; for a
  vector in use the call only reports the conflict on the console and returns, so the new
  routine is silently left out.\<close>

theorem isr_register_spec:
  assumes "cons_ready s"
  shows "(isr_table s v = None \<longrightarrow> isr_register v h s = Ret () (s\<lparr>isr_table := (isr_table s)(v \<mapsto> h)\<rparr>)) \<and>
    (isr_table s v \<noteq> None \<longrightarrow> (\<exists>t. isr_register v h s = Ret () t \<and> isr_table t = isr_table s \<and>
      serial_out (io_log t) = serial_out (io_log s) @ (if uart s \<noteq> 0
        then text_bytes (''isr: handler already registered for interrupt # '' @ dec_text (uint v)) else [])))"
proof (intro conjI impI)
  assume used: "isr_table s v \<noteq> None"
  have "sint (ucast v :: u32) = uint v" by (rule sint_ucast_u8)
  then have "format_text ''isr: handler already registered for interrupt # %d'' [CWord (ucast v)] =
      Some (''isr: handler already registered for interrupt # '' @ dec_text (uint v))" by simp
  then obtain t where t: "cprintf (Some ''isr: handler already registered for interrupt # %d'') [CWord (ucast v)] s = Ret () t"
    "cprintf_frame s t" "serial_out (io_log t) = serial_out (io_log s) @ (if uart s \<noteq> 0
        then text_bytes (''isr: handler already registered for interrupt # '' @ dec_text (uint v)) else [])"
    by (rule cprintf_seq [OF assms])
  have "isr_table t = isr_table s" using t(2) by (intro irq_more_eqD) (simp add: cprintf_frame_def)
  then show "\<exists>t. isr_register v h s = Ret () t \<and> isr_table t = isr_table s \<and>
      serial_out (io_log t) = serial_out (io_log s) @ (if uart s \<noteq> 0
        then text_bytes (''isr: handler already registered for interrupt # '' @ dec_text (uint v)) else [])"
    using t used by (intro exI [of _ t]) (simp add: isr_register_def)
qed simp

theorem isr_register_spec_witness:
  "\<exists>t :: irq. isr_register 33 TimerHandler (boot_irq\<lparr>isr_table := [33 \<mapsto> KbdHandler]\<rparr>) = Ret () t \<and>
     isr_table t 33 = Some KbdHandler"
proof -
  let ?s = "boot_irq\<lparr>isr_table := [33 \<mapsto> KbdHandler]\<rparr>"
  have "cons_ready ?s" by (rule boot_irq_ready)
  from isr_register_spec [OF this, of 33 TimerHandler] show ?thesis by fastforce
qed

end
