(* ===== verification/Gdt.thy ===== *)
theory Gdt
  imports Idt
begin

text \<open>
  Segment descriptors (\<^verbatim>\<open>kernel/gdt.h\<close>, \<^verbatim>\<open>kernel/gdt.c\<close>). \<open>gdt_set_entry\<close> overwrites every
  field of the descriptor it is given, so it is a function of the other arguments.
\<close>

section \<open>Definitions\<close>

abbreviation (input) KCODE_IX :: nat where "KCODE_IX \<equiv> 1"
abbreviation (input) KDATA_IX :: nat where "KDATA_IX \<equiv> 2"
abbreviation (input) UCODE_IX :: nat where "UCODE_IX \<equiv> 3"
abbreviation (input) UDATA_IX :: nat where "UDATA_IX \<equiv> 4"
abbreviation (input) TSS_IX :: nat where "TSS_IX \<equiv> 5"

definition SEG_PRESENT :: u8 where "SEG_PRESENT = 0x80"
definition SEG_RING0 :: u8 where "SEG_RING0 = 0x00"
definition SEG_RING3 :: u8 where "SEG_RING3 = 0x60"
definition SEG_APP :: u8 where "SEG_APP = 0x10"
definition SEG_CODE :: u8 where "SEG_CODE = 0x08"
definition SEG_RW :: u8 where "SEG_RW = 0x02"
definition SEG_TSS32_AVAIL :: u8 where "SEG_TSS32_AVAIL = 0x09"
definition SEG_32BIT :: u8 where "SEG_32BIT = 0x40"
definition SEG_4K :: u8 where "SEG_4K = 0x80"

lemmas seg_consts = SEG_PRESENT_def SEG_RING0_def SEG_RING3_def SEG_APP_def SEG_CODE_def SEG_RW_def
  SEG_TSS32_AVAIL_def SEG_32BIT_def SEG_4K_def

definition protection_fault_handler :: "interrupt_state \<Rightarrow> (unit, 'z irq_scheme) kern" where
  "protection_fault_handler state = (let selector = is_err_code state in
     thenK (warn (''Caught protection fault {\<newline>'' @ ''  eip = 0x%x\<newline>'' @ ''  external: %d\<newline>'' @
         ''  table:    %d\<newline>'' @ ''  index:    %d\<newline>'' @ ''}'')
       [CWord (is_eip state), CWord (selector AND 1), CWord (drop_bit 1 selector AND 0x3),
        CWord (drop_bit 3 selector AND 0x1FFF)])
     (panicK ''protection fault not handled!''))"

definition gdt_set_entry :: "u32 \<Rightarrow> u32 \<Rightarrow> u8 \<Rightarrow> u8 \<Rightarrow> segdesc" where
  "gdt_set_entry base limit acc flags = \<lparr>
     limit_lo = ucast ((if flags AND SEG_4K \<noteq> 0 then drop_bit 12 limit else limit) AND 0xffff),
     base_lo = ucast (base AND 0xffff),
     base_mi = ucast (drop_bit 16 base AND 0xff),
     access = acc,
     seg_flags = ucast (if flags AND SEG_4K \<noteq> 0 then drop_bit 28 limit else drop_bit 16 limit) OR (flags AND 0xf0),
     base_hi = ucast (drop_bit 24 base)\<rparr>"

definition set_gdt :: "nat \<Rightarrow> nat \<Rightarrow> segdesc \<Rightarrow> (unit, 'z irq_scheme) kern" where
  "set_gdt c i d = upd_cpu c (\<lambda>p. p\<lparr>cpu_gdt := (cpu_gdt p)[i := d]\<rparr>)"

definition gdt_load :: "desc_reg \<Rightarrow> (unit, 'z irq_scheme) kern" where
  "gdt_load r = modK (\<lambda>s. s\<lparr>gdtr_reg := r\<rparr>)"

definition gdt_init :: "(unit, 'z irq_scheme) kern" where
  "gdt_init = seqK [
     isr_register IDT_INT_GPFLT ProtectionFaultHandler,
     set_gdt 0 KCODE_IX (gdt_set_entry 0 0xffffffff
       (SEG_APP OR SEG_CODE OR SEG_RING0 OR SEG_RW OR SEG_PRESENT) (SEG_32BIT OR SEG_4K)),
     set_gdt 0 KDATA_IX (gdt_set_entry 0 0xffffffff
       (SEG_APP OR SEG_RING0 OR SEG_RW OR SEG_PRESENT) (SEG_32BIT OR SEG_4K)),
     set_gdt 0 UCODE_IX (gdt_set_entry 0 0xffffffff
       (SEG_APP OR SEG_CODE OR SEG_RING3 OR SEG_RW OR SEG_PRESENT) (SEG_32BIT OR SEG_4K)),
     set_gdt 0 UDATA_IX (gdt_set_entry 0 0xffffffff
       (SEG_APP OR SEG_RING3 OR SEG_RW OR SEG_PRESENT) (SEG_32BIT OR SEG_4K)),
     bindK (getK gdt_addr) (\<lambda>a. gdt_load \<lparr>dr_limit = 48, dr_base = a\<rparr>)]"

section \<open>What the processor reads from a descriptor\<close>

definition seg_base :: "segdesc \<Rightarrow> u32" where
  "seg_base d = ucast (base_lo d) OR push_bit 16 (ucast (base_mi d)) OR push_bit 24 (ucast (base_hi d))"

definition seg_raw_limit :: "segdesc \<Rightarrow> u32" where
  "seg_raw_limit d = ucast (limit_lo d) OR push_bit 16 (ucast (seg_flags d AND 0xf))"

definition seg_limit :: "segdesc \<Rightarrow> u32" where
  "seg_limit d = (if bit (seg_flags d) 7 then push_bit 12 (seg_raw_limit d) OR 0xfff else seg_raw_limit d)"

definition seg_dpl :: "segdesc \<Rightarrow> nat" where
  "seg_dpl d = unat (drop_bit 5 (access d) AND 3)"

lemma masks32: "(0xffff :: u32) = mask 16" "(0xff :: u32) = mask 8" "(0xfff :: u32) = mask 12"
  by (simp_all add: mask_eq_exp_minus_1)

lemma masks8: "(0xf :: u8) = mask 4" "(0xf0 :: u8) = push_bit 4 (mask 4)"
  by (simp_all add: mask_eq_exp_minus_1)

lemma seg_base_entry: "seg_base (gdt_set_entry base limit acc flags) = base"
proof (rule bit_word_eqI)
  fix n
  show "bit (seg_base (gdt_set_entry base limit acc flags)) n = bit base n" if "n < LENGTH(32)"
    unfolding seg_base_def gdt_set_entry_def masks32 using that
    by (cases "24 \<le> n"; cases "16 \<le> n") (auto simp: bit_simps)
qed

lemma SEG_4K_bit: "flags AND SEG_4K \<noteq> 0 \<longleftrightarrow> bit flags 7"
  using and_exp_eq_0_iff_not_bit [of flags 7] by (simp add: SEG_4K_def)

lemma bit_below_1M:
  assumes "(x :: u32) < 0x100000" "bit x n"
  shows "n < 20"
proof -
  have "take_bit 20 x = x" using assms(1)
    by (simp add: take_bit_eq_mod word_unat_eq_iff unat_mod word_less_nat_alt)
  then show ?thesis using assms(2) by (metis bit_take_bit_iff)
qed

lemma seg_limit_4K:
  assumes "bit flags 7"
  shows "seg_limit (gdt_set_entry base limit acc flags) = limit OR 0xfff"
proof -
  have "push_bit 12 (seg_raw_limit (gdt_set_entry base limit acc flags)) OR 0xfff = limit OR 0xfff"
  proof (rule bit_word_eqI)
    fix n
    show "bit (push_bit 12 (seg_raw_limit (gdt_set_entry base limit acc flags)) OR 0xfff) n = bit (limit OR 0xfff) n"
      if "n < LENGTH(32)"
      unfolding seg_raw_limit_def gdt_set_entry_def masks32 masks8 SEG_4K_bit using assms that
      by (cases "28 \<le> n"; cases "12 \<le> n") (auto simp: bit_simps)
  qed
  moreover have "bit (seg_flags (gdt_set_entry base limit acc flags)) 7"
    using assms by (simp add: gdt_set_entry_def masks8 bit_simps)
  ultimately show ?thesis by (simp add: seg_limit_def)
qed

lemma seg_limit_bytes:
  assumes "\<not> bit flags 7" "limit < 0x100000"
  shows "seg_limit (gdt_set_entry base limit acc flags) = limit"
proof -
  note b = bit_below_1M [OF assms(2)]
  have "seg_raw_limit (gdt_set_entry base limit acc flags) = limit"
  proof (rule bit_word_eqI)
    fix n
    show "bit (seg_raw_limit (gdt_set_entry base limit acc flags)) n = bit limit n" if "n < LENGTH(32)"
      unfolding seg_raw_limit_def gdt_set_entry_def masks32 masks8 SEG_4K_bit using assms that b [of n]
      by (cases "16 \<le> n") (auto simp: bit_simps)
  qed
  moreover have "\<not> bit (seg_flags (gdt_set_entry base limit acc flags)) 7"
    using assms(1) b [of 23] by (auto simp: gdt_set_entry_def SEG_4K_bit masks8 bit_simps)
  ultimately show ?thesis by (simp add: seg_limit_def)
qed

lemma gdt_init_apply:
  assumes "isr_table s 13 = None" "length (cpu_gdt (cpus s 0)) = 6"
  shows "\<exists>t. gdt_init s = Ret () t \<and> isr_table t = (isr_table s)(13 \<mapsto> ProtectionFaultHandler) \<and>
    gdtr_reg t = \<lparr>dr_limit = 48, dr_base = gdt_addr s\<rparr> \<and>
    cpu_gdt (cpus t 0) = (cpu_gdt (cpus s 0))[
      1 := gdt_set_entry 0 0xffffffff 0x9a 0xc0, 2 := gdt_set_entry 0 0xffffffff 0x92 0xc0,
      3 := gdt_set_entry 0 0xffffffff 0xfa 0xc0, 4 := gdt_set_entry 0 0xffffffff 0xf2 0xc0]"
proof -
  have c: "SEG_APP OR SEG_CODE OR SEG_RING0 OR SEG_RW OR SEG_PRESENT = 0x9a"
    "SEG_APP OR SEG_RING0 OR SEG_RW OR SEG_PRESENT = 0x92"
    "SEG_APP OR SEG_CODE OR SEG_RING3 OR SEG_RW OR SEG_PRESENT = 0xfa"
    "SEG_APP OR SEG_RING3 OR SEG_RW OR SEG_PRESENT = 0xf2" "SEG_32BIT OR SEG_4K = 0xc0"
    by (simp_all add: seg_consts)
  show ?thesis unfolding gdt_init_def c
    using assms(1) by (simp add: set_gdt_def upd_cpu_def gdt_load_def)
qed

section \<open>Properties\<close>

text \<open>C25: a descriptor packed by \<open>gdt_set_entry\<close> is read back by the processor as the requested
  segment: the base address and access byte are exact; a page-granular limit is rounded up to
  the last byte of its page, and a byte-granular limit below 1 MiB is exact.\<close>

theorem gdt_set_entry_roundtrip:
  "seg_base (gdt_set_entry base limit acc flags) = base \<and> access (gdt_set_entry base limit acc flags) = acc \<and>
   (bit flags 7 \<longrightarrow> seg_limit (gdt_set_entry base limit acc flags) = limit OR 0xfff) \<and>
   (\<not> bit flags 7 \<and> limit < 0x100000 \<longrightarrow> seg_limit (gdt_set_entry base limit acc flags) = limit)"
  using seg_base_entry seg_limit_4K seg_limit_bytes by (simp add: gdt_set_entry_def)

theorem gdt_set_entry_roundtrip_witness:
  "seg_base (gdt_set_entry 0x8010b008 103 0x89 0) = 0x8010b008 \<and> seg_limit (gdt_set_entry 0x8010b008 103 0x89 0) = 103 \<and>
   seg_limit (gdt_set_entry 0 0xffffffff 0x9a 0xc0) = 0xffffffff"
  using gdt_set_entry_roundtrip [of "0x8010b008" 103 "0x89" 0] gdt_set_entry_roundtrip [of 0 "0xffffffff" "0x9a" "0xc0"]
  by simp

text \<open>C36: \<open>gdt_init\<close> installs four flat segments spanning the whole 4 GiB address space: kernel
  code and data at privilege 0, user code and data at privilege 3, code segments executable
  and data segments not. The null and task segments are untouched and the protection fault
  routine is registered. The table register gets the size of the table as its limit, one more than the offset of
  the last byte.\<close>

theorem gdt_init_spec:
  assumes "isr_table s 13 = None" and "length (cpu_gdt (cpus s 0)) = 6"
  shows "\<exists>t. gdt_init s = Ret () t \<and> isr_table t 13 = Some ProtectionFaultHandler \<and>
    (\<forall>i. 1 \<le> i \<and> i \<le> 4 \<longrightarrow> (let d = cpu_gdt (cpus t 0) ! i in
      seg_base d = 0 \<and> seg_limit d = 0xffffffff \<and> bit (access d) 7 \<and>
      seg_dpl d = (if i \<le> 2 then 0 else 3) \<and> (bit (access d) 3 \<longleftrightarrow> i = 1 \<or> i = 3))) \<and>
    cpu_gdt (cpus t 0) ! 0 = cpu_gdt (cpus s 0) ! 0 \<and> cpu_gdt (cpus t 0) ! 5 = cpu_gdt (cpus s 0) ! 5 \<and>
    unat (dr_limit (gdtr_reg t)) = 8 * length (cpu_gdt (cpus t 0)) \<and> dr_base (gdtr_reg t) = gdt_addr s"
proof -
  obtain t where t: "gdt_init s = Ret () t" "isr_table t = (isr_table s)(13 \<mapsto> ProtectionFaultHandler)"
    "gdtr_reg t = \<lparr>dr_limit = 48, dr_base = gdt_addr s\<rparr>"
    "cpu_gdt (cpus t 0) = (cpu_gdt (cpus s 0))[
      1 := gdt_set_entry 0 0xffffffff 0x9a 0xc0, 2 := gdt_set_entry 0 0xffffffff 0x92 0xc0,
      3 := gdt_set_entry 0 0xffffffff 0xfa 0xc0, 4 := gdt_set_entry 0 0xffffffff 0xf2 0xc0]"
    using gdt_init_apply [OF assms] by blast
  have acc: "access (gdt_set_entry b l a f) = a" for b l a f by (simp add: gdt_set_entry_def)
  have "seg_base d = 0 \<and> seg_limit d = 0xffffffff \<and> bit (access d) 7 \<and>
      seg_dpl d = (if i \<le> 2 then 0 else 3) \<and> (bit (access d) 3 \<longleftrightarrow> i = 1 \<or> i = 3)"
    if i: "1 \<le> i" "i \<le> 4" and d: "d = cpu_gdt (cpus t 0) ! i" for i d
  proof -
    consider "i = 1" | "i = 2" | "i = 3" | "i = 4" using i by linarith
    then show ?thesis
      using assms(2) by cases (simp_all add: d t(4) seg_base_entry seg_limit_4K seg_dpl_def acc)
  qed
  then show ?thesis using t assms(2) by (intro exI [of _ t]) (simp add: Let_def)
qed

theorem gdt_init_spec_witness:
  "\<exists>t. gdt_init boot_irq = Ret () t \<and> seg_dpl (cpu_gdt (cpus t 0) ! 1) = 0 \<and> seg_dpl (cpu_gdt (cpus t 0) ! 3) = 3"
proof -
  have s: "isr_table boot_irq 13 = None" "length (cpu_gdt (cpus boot_irq 0)) = 6"
    by (simp_all add: boot_irq_def kmem.defs boot_kmem_def zero_cpu_def)
  then show ?thesis using gdt_init_spec [OF s] by (fastforce simp: Let_def)
qed

end
