(* ===== verification/Pic.thy ===== *)
theory Pic
  imports LowLevel
begin

text \<open>
  The 8259 interrupt controllers (\<^verbatim>\<open>kernel/pic.h\<close>, \<^verbatim>\<open>kernel/pic.c\<close>). The theory works on the
  access history: a mask read from a controller is whatever the device answers.
\<close>

section \<open>Definitions\<close>

abbreviation (input) IO_PORT_PIC1_COMMAND :: u16 where "IO_PORT_PIC1_COMMAND \<equiv> 0x20"
abbreviation (input) IO_PORT_PIC1_DATA :: u16 where "IO_PORT_PIC1_DATA \<equiv> 0x21"
abbreviation (input) IO_PORT_PIC2_COMMAND :: u16 where "IO_PORT_PIC2_COMMAND \<equiv> 0xA0"
abbreviation (input) IO_PORT_PIC2_DATA :: u16 where "IO_PORT_PIC2_DATA \<equiv> 0xA1"
abbreviation (input) PIC_EOI :: u8 where "PIC_EOI \<equiv> 0x20"
abbreviation (input) ICW1_ICW4 :: u8 where "ICW1_ICW4 \<equiv> 0x01"
abbreviation (input) ICW1_INIT :: u8 where "ICW1_INIT \<equiv> 0x10"
abbreviation (input) ICW4_8086 :: u8 where "ICW4_8086 \<equiv> 0x01"
abbreviation (input) PIC1_INTERRUPT_START :: u8 where "PIC1_INTERRUPT_START \<equiv> 0x20"
abbreviation (input) PIC2_INTERRUPT_START :: u8 where "PIC2_INTERRUPT_START \<equiv> 0x28"
abbreviation (input) PIC_INT_TIMER :: nat where "PIC_INT_TIMER \<equiv> 0"
abbreviation (input) PIC_INT_KEYBOARD :: nat where "PIC_INT_KEYBOARD \<equiv> 1"

definition pic_send_eoi :: "u8 \<Rightarrow> (unit, 'z machine_scheme) kern" where
  "pic_send_eoi irq = thenK (whenK (irq \<ge> 8) (outb IO_PORT_PIC2_COMMAND PIC_EOI)) (outb IO_PORT_PIC1_COMMAND PIC_EOI)"

definition pic_enable_irq_line :: "nat \<Rightarrow> (unit, 'z machine_scheme) kern" where
  "pic_enable_irq_line numirq = (let
       port = if numirq < 8 then IO_PORT_PIC1_DATA else IO_PORT_PIC2_DATA;
       numirq = if numirq < 8 then numirq else numirq - 8
     in bindK (inb port) (\<lambda>mask. outb port (mask AND NOT (push_bit numirq 1))))"

definition pic_disable_irq_line :: "nat \<Rightarrow> (unit, 'z machine_scheme) kern" where
  "pic_disable_irq_line numirq = (let
       port = if numirq < 8 then IO_PORT_PIC1_DATA else IO_PORT_PIC2_DATA;
       numirq = if numirq < 8 then numirq else numirq - 8
     in bindK (inb port) (\<lambda>mask. outb port (mask OR push_bit numirq 1)))"

definition pic_init :: "(unit, 'z machine_scheme) kern" where
  "pic_init = bindK (inb IO_PORT_PIC1_DATA) (\<lambda>mask1. bindK (inb IO_PORT_PIC2_DATA) (\<lambda>mask2. seqK [
     outb IO_PORT_PIC1_COMMAND (ICW1_INIT OR ICW1_ICW4),
     outb IO_PORT_PIC2_COMMAND (ICW1_INIT OR ICW1_ICW4),
     outb IO_PORT_PIC1_DATA PIC1_INTERRUPT_START,
     outb IO_PORT_PIC2_DATA PIC2_INTERRUPT_START,
     outb IO_PORT_PIC1_DATA 4,
     outb IO_PORT_PIC2_DATA 2,
     outb IO_PORT_PIC1_DATA ICW4_8086,
     outb IO_PORT_PIC2_DATA ICW4_8086,
     outb IO_PORT_PIC1_DATA mask1,
     outb IO_PORT_PIC2_DATA mask2,
     pic_disable_irq_line PIC_INT_TIMER]))"

section \<open>Writes\<close>

text \<open>The bytes written to ports, oldest first.\<close>

primrec out_byte :: "io_event \<Rightarrow> (u16 \<times> u8) list" where
  "out_byte (InB p b) = []"
| "out_byte (OutB p b) = [(p, b)]"
| "out_byte (InW p w) = []"
| "out_byte (OutW p w) = []"
| "out_byte (InL p w) = []"
| "out_byte (OutL p w) = []"
| "out_byte (MmioRead a w) = []"
| "out_byte (MmioWrite a w) = []"

definition outs :: "io_event list \<Rightarrow> (u16 \<times> u8) list" where
  "outs l = concat (map out_byte (rev l))"

lemma outs_simps [simp]:
  "outs [] = []" "outs (e # l) = outs l @ out_byte e"
  by (simp_all add: outs_def)

lemma only_log_refl [simp]: "only_log s s"
  by (simp add: only_log_def)

lemma only_log_io [simp]: "only_log s (s\<lparr>io_log := l\<rparr>)"
  by (simp add: only_log_def)

text \<open>The controller a line belongs to and its bit there.\<close>

definition line_port :: "nat \<Rightarrow> u16" where
  "line_port n = (if n < 8 then IO_PORT_PIC1_DATA else IO_PORT_PIC2_DATA)"

lemma enable_line:
  assumes "n < 16"
  shows "\<exists>w t. pic_enable_irq_line n s = Ret () t \<and> only_log s t \<and>
    outs (io_log t) = outs (io_log s) @ [(line_port n, w)] \<and>
    (\<forall>k < 8. bit w k \<longleftrightarrow> bit (dev8 s (io_log s) (line_port n)) k \<and> k \<noteq> n mod 8)"
proof -
  have "n mod 8 = (if n < 8 then n else n - 8)" using assms by (simp add: le_mod_geq)
  then show ?thesis
    by (intro exI [of _ "dev8 s (io_log s) (line_port n) AND NOT (push_bit (n mod 8) 1)"])
       (simp add: pic_enable_irq_line_def Let_def line_port_def bit_simps)
qed

lemma disable_line:
  assumes "n < 16"
  shows "\<exists>w t. pic_disable_irq_line n s = Ret () t \<and> only_log s t \<and>
    outs (io_log t) = outs (io_log s) @ [(line_port n, w)] \<and>
    (\<forall>k < 8. bit w k \<longleftrightarrow> bit (dev8 s (io_log s) (line_port n)) k \<or> k = n mod 8)"
proof -
  have "n mod 8 = (if n < 8 then n else n - 8)" using assms by (simp add: le_mod_geq)
  then show ?thesis
    by (intro exI [of _ "dev8 s (io_log s) (line_port n) OR push_bit (n mod 8) 1"])
       (auto simp: pic_disable_irq_line_def Let_def line_port_def bit_simps)
qed

lemma pic_init_returns: "\<exists>t. pic_init s = Ret () t \<and> only_log s t"
  by (simp add: pic_init_def pic_disable_irq_line_def Let_def)

lemma pic_send_eoi_apply:
  "\<exists>t. pic_send_eoi irq s = Ret () t \<and> only_log s t \<and>
     outs (io_log t) = outs (io_log s) @ (if irq \<ge> 8 then [(0xA0, 0x20), (0x20, 0x20)] else [(0x20, 0x20)])"
  by (simp add: pic_send_eoi_def)

section \<open>Properties\<close>

text \<open>Masking is per line. Enabling or disabling one of the sixteen interrupt lines writes one
  byte, to the mask register of the controller the line belongs to, and that byte differs
  from the mask the controller reported at most in the bit of that line.\<close>

theorem pic_line_masks:
  assumes "n < 16"
  shows "(\<exists>w t. pic_enable_irq_line n s = Ret () t \<and> outs (io_log t) = outs (io_log s) @ [(line_port n, w)] \<and>
      (\<forall>k < 8. bit w k \<longleftrightarrow> bit (dev8 s (io_log s) (line_port n)) k \<and> k \<noteq> n mod 8)) \<and>
    (\<exists>w t. pic_disable_irq_line n s = Ret () t \<and> outs (io_log t) = outs (io_log s) @ [(line_port n, w)] \<and>
      (\<forall>k < 8. bit w k \<longleftrightarrow> bit (dev8 s (io_log s) (line_port n)) k \<or> k = n mod 8))"
  using enable_line [OF assms] disable_line [OF assms] by blast

theorem pic_line_masks_witness:
  "\<exists>w t. pic_enable_irq_line 9 \<lparr>mem = (\<lambda>_. 0), eflags = 2, cr3 = 0, kstk = 0, io_log = [],
      dev8 = (\<lambda>_ _. 0xff), dev16 = (\<lambda>_ _. 0), dev32 = (\<lambda>_ _. 0)\<rparr> = Ret () t \<and>
     outs (io_log t) = [(0xA1, w)] \<and> \<not> bit w 1"
proof -
  let ?s = "\<lparr>mem = (\<lambda>_. 0), eflags = 2, cr3 = 0, kstk = 0, io_log = [],
      dev8 = (\<lambda>_ _. 0xff), dev16 = (\<lambda>_ _. 0), dev32 = (\<lambda>_ _. 0)\<rparr> :: machine"
  obtain w t where "pic_enable_irq_line 9 ?s = Ret () t" "outs (io_log t) = [(line_port 9, w)]"
    "\<forall>k < 8. bit w k \<longleftrightarrow> bit (dev8 ?s (io_log ?s) (line_port 9)) k \<and> k \<noteq> 9 mod 8"
    using pic_line_masks [of 9 ?s] by auto
  then show ?thesis by (auto simp: line_port_def)
qed

end
