(* ===== verification/Timer.thy ===== *)
theory Timer
  imports Gdt Pic
begin

text \<open>The interval timer (\<^verbatim>\<open>kernel/drivers/timer.h\<close>, \<^verbatim>\<open>kernel/drivers/timer.c\<close>): a 64-bit tick counter,
  incremented by the interrupt routine.\<close>

record timer = irq +
  ticks :: "64 word"

definition TIMER_FREQ_BASE_HZ :: int where "TIMER_FREQ_BASE_HZ = 1193182"
definition TIMER_FREQ_HZ :: int where "TIMER_FREQ_HZ = 100"
abbreviation (input) IO_PORT_TIMER_DATA0 :: u16 where "IO_PORT_TIMER_DATA0 \<equiv> 0x40"
abbreviation (input) IO_PORT_TIMER_CMD :: u16 where "IO_PORT_TIMER_CMD \<equiv> 0x43"

definition timer_interrupt_handler :: "interrupt_state \<Rightarrow> (unit, 'z timer_scheme) kern" where
  "timer_interrupt_handler state = modK (\<lambda>s. s\<lparr>ticks := ticks s + 1\<rparr>)"

definition timer_init :: "(unit, 'z timer_scheme) kern" where
  "timer_init = (let divisor = of_int (TIMER_FREQ_BASE_HZ div TIMER_FREQ_HZ) :: u16 in seqK [
     isr_register (of_nat (IDT_IRQ_BASE + IDT_IRQ_TIMER)) TimerHandler,
     outb IO_PORT_TIMER_CMD 0x34,
     outb IO_PORT_TIMER_DATA0 (ucast (divisor AND 0xFF)),
     outb IO_PORT_TIMER_DATA0 (ucast (drop_bit 8 divisor AND 0xFF)),
     pic_enable_irq_line PIC_INT_TIMER])"

text \<open>The divisor fits its 16-bit register, and the two bytes written make it up again.\<close>

lemma timer_divisor:
  "(of_int (TIMER_FREQ_BASE_HZ div TIMER_FREQ_HZ) :: u16) = 11931"
  "TIMER_FREQ_BASE_HZ div TIMER_FREQ_HZ < 65536"
  by (simp_all add: TIMER_FREQ_BASE_HZ_def TIMER_FREQ_HZ_def)

lemma timer_init_apply:
  assumes "isr_table s 32 = None"
  shows "\<exists>w t. timer_init s = Ret () t \<and> isr_table t = (isr_table s)(32 \<mapsto> TimerHandler) \<and> ticks t = ticks s \<and>
    outs (io_log t) = outs (io_log s) @ [(0x43, 0x34), (0x40, 0x9b), (0x40, 0x2e), (0x21, w)] \<and> \<not> bit w 0"
proof -
  have "(ucast ((11931 :: u16) AND 0xFF) :: u8) = 0x9b" "(ucast (drop_bit 8 (11931 :: u16) AND 0xFF) :: u8) = 0x2e"
    by code_simp+
  note bytes = this
  let ?s = "s\<lparr>isr_table := (isr_table s)(32 \<mapsto> TimerHandler),
    io_log := OutB 0x40 0x2e # OutB 0x40 0x9b # OutB 0x43 0x34 # io_log s\<rparr>"
  have "(0 :: nat) < 16" by simp
  then obtain w t where t: "pic_enable_irq_line 0 ?s = Ret () t" "only_log ?s t"
    "outs (io_log t) = outs (io_log ?s) @ [(line_port 0, w)]"
    "\<forall>k < 8. bit w k \<longleftrightarrow> bit (dev8 ?s (io_log ?s) (line_port 0)) k \<and> k \<noteq> 0 mod 8"
    using enable_line [of 0 ?s] by blast
  have w: "\<not> bit w 0" using t(4) by simp
  have "timer_init s = Ret () t"
    using assms t(1) by (simp add: timer_init_def timer_divisor Let_def bytes)
  moreover have "isr_table t = (isr_table s)(32 \<mapsto> TimerHandler)" "ticks t = ticks s"
    using t(2) by (auto simp: only_log_def dest: arg_cong [of _ _ isr_table] arg_cong [of _ _ ticks])
  ultimately show ?thesis using t(3) w by (auto simp: line_port_def)
qed

end
