(* ===== verification/Kbd.thy ===== *)
theory Kbd
  imports Kbdmapus Timer
begin

text \<open>
  The keyboard driver (\<^verbatim>\<open>kernel/drivers/kbd.c\<close>). The three modifier flags are its state; typed
  text goes to the console. \<open>kbd_key\<close> and \<open>kbd_text\<close> describe what one key event means,
  and the interrupt routine is shown to implement them.
\<close>

section \<open>Definitions\<close>

record kbd = timer +
  shift :: bool
  alt :: bool
  ctrl :: bool

abbreviation (input) IO_PORT_KBD_DATA :: u16 where "IO_PORT_KBD_DATA \<equiv> 0x60"
abbreviation (input) KBD_EXTENDED_SCANCODE :: u8 where "KBD_EXTENDED_SCANCODE \<equiv> 0xE0"

definition KBD_IS_MAKECODE :: "u8 \<Rightarrow> bool" where
  "KBD_IS_MAKECODE c \<longleftrightarrow> unat c < KBD_BREAKCODE_LIMIT"

definition BOOL_TOGGLE :: "bool \<Rightarrow> bool" where
  "BOOL_TOGGLE a = (if a then False else True)"

definition kbd_interrupt_handler :: "interrupt_state \<Rightarrow> (unit, 'z kbd_scheme) kern" where
  "kbd_interrupt_handler state = bindK (inb IO_PORT_KBD_DATA) (\<lambda>first.
     bindK (if first = KBD_EXTENDED_SCANCODE \<or> first = 0xE1 then inb IO_PORT_KBD_DATA else retK first) (\<lambda>scancode.
     let idx = (if KBD_IS_MAKECODE scancode then unat scancode else unat scancode - KBD_BREAKCODE_LIMIT);
         key = kbd_scanmap_set1 idx
     in if key = KEY_LCTRL \<or> key = KEY_RCTRL then modK (\<lambda>s. s\<lparr>ctrl := BOOL_TOGGLE (ctrl s)\<rparr>)
        else if key = KEY_LSHIFT \<or> key = KEY_RSHIFT then modK (\<lambda>s. s\<lparr>shift := BOOL_TOGGLE (shift s)\<rparr>)
        else if key = KEY_LALT \<or> key = KEY_RALT then modK (\<lambda>s. s\<lparr>alt := BOOL_TOGGLE (alt s)\<rparr>)
        else whenK (key \<noteq> KEY_NULL \<and> KBD_IS_MAKECODE scancode)
          (bindK (getK shift) (\<lambda>sh. print (if sh then kbd_scanmap_ascii_shift key else kbd_scanmap_ascii_regular key)))))"

definition kbd_init :: "(unit, 'z kbd_scheme) kern" where
  "kbd_init = seqK [
     modK (\<lambda>s. s\<lparr>ctrl := False\<rparr>), modK (\<lambda>s. s\<lparr>alt := False\<rparr>), modK (\<lambda>s. s\<lparr>shift := False\<rparr>),
     isr_register (of_nat (IDT_IRQ_BASE + IDT_IRQ_KEYBOARD)) KbdHandler,
     pic_enable_irq_line PIC_INT_KEYBOARD]"

section \<open>Key events\<close>

text \<open>The key of a scan code, pressed or released, and the text a press produces.\<close>

definition kbd_key :: "u8 \<Rightarrow> nat" where
  "kbd_key c = kbd_scanmap_set1 (unat c mod 128)"

definition is_ctrl :: "nat \<Rightarrow> bool" where "is_ctrl k \<longleftrightarrow> k = KEY_LCTRL \<or> k = KEY_RCTRL"
definition is_shift :: "nat \<Rightarrow> bool" where "is_shift k \<longleftrightarrow> k = KEY_LSHIFT \<or> k = KEY_RSHIFT"
definition is_alt :: "nat \<Rightarrow> bool" where "is_alt k \<longleftrightarrow> k = KEY_LALT \<or> k = KEY_RALT"

definition kbd_text :: "u8 \<Rightarrow> bool \<Rightarrow> string" where
  "kbd_text c sh = (let k = kbd_key c in
     if 128 \<le> unat c \<or> is_ctrl k \<or> is_shift k \<or> is_alt k \<or> k = KEY_NULL then []
     else c_string (if sh then kbd_scanmap_ascii_shift k else kbd_scanmap_ascii_regular k))"

text \<open>The scan code the routine acts on: the byte after a prefix \<open>0xE0\<close> or \<open>0xE1\<close>.\<close>

definition scan_log :: "'z machine_scheme \<Rightarrow> io_event list" where
  "scan_log s = (let a = dev8 s (io_log s) 0x60 in
     if a = 0xE0 \<or> a = 0xE1 then InB 0x60 (dev8 s (InB 0x60 a # io_log s) 0x60) # InB 0x60 a # io_log s
     else InB 0x60 a # io_log s)"

definition scan_code :: "'z machine_scheme \<Rightarrow> u8" where
  "scan_code s = (let a = dev8 s (io_log s) 0x60 in
     if a = 0xE0 \<or> a = 0xE1 then dev8 s (InB 0x60 a # io_log s) 0x60 else a)"

lemma serial_out_scan [simp]: "serial_out (scan_log s) = serial_out (io_log s)"
  by (simp add: scan_log_def Let_def)

lemma unat_lt8: "unat (c :: u8) < 256"
  using unsigned_less [of c] by simp

lemma kbd_idx: "(if KBD_IS_MAKECODE c then unat c else unat c - 128) = unat c mod 128"
  using unat_lt8 [of c] by (simp add: KBD_IS_MAKECODE_def le_mod_geq)

lemma kbd_handler_step:
  "kbd_interrupt_handler st s = (let k = kbd_key (scan_code s); u = s\<lparr>io_log := scan_log s\<rparr> in
     if is_ctrl k then Ret () (u\<lparr>ctrl := \<not> ctrl s\<rparr>)
     else if is_shift k then Ret () (u\<lparr>shift := \<not> shift s\<rparr>)
     else if is_alt k then Ret () (u\<lparr>alt := \<not> alt s\<rparr>)
     else if k \<noteq> KEY_NULL \<and> unat (scan_code s) < 128
       then print (if shift s then kbd_scanmap_ascii_shift k else kbd_scanmap_ascii_regular k) u
     else Ret () u)"
proof -
  have first: "kbd_interrupt_handler st s = (\<lambda>scancode. let key = kbd_scanmap_set1 (unat scancode mod 128)
     in if key = KEY_LCTRL \<or> key = KEY_RCTRL then modK (\<lambda>s. s\<lparr>ctrl := BOOL_TOGGLE (ctrl s)\<rparr>)
        else if key = KEY_LSHIFT \<or> key = KEY_RSHIFT then modK (\<lambda>s. s\<lparr>shift := BOOL_TOGGLE (shift s)\<rparr>)
        else if key = KEY_LALT \<or> key = KEY_RALT then modK (\<lambda>s. s\<lparr>alt := BOOL_TOGGLE (alt s)\<rparr>)
        else whenK (key \<noteq> KEY_NULL \<and> KBD_IS_MAKECODE scancode)
          (bindK (getK shift) (\<lambda>sh. print (if sh then kbd_scanmap_ascii_shift key else kbd_scanmap_ascii_regular key))))
     (scan_code s) (s\<lparr>io_log := scan_log s\<rparr>)"
    unfolding kbd_interrupt_handler_def kbd_idx by (simp add: scan_code_def scan_log_def Let_def)
  have tog: "BOOL_TOGGLE b = (\<not> b)" for b by (simp add: BOOL_TOGGLE_def)
  show ?thesis unfolding first kbd_key_def [symmetric]
    by (simp add: Let_def is_ctrl_def is_shift_def is_alt_def tog KBD_IS_MAKECODE_def)
qed

text \<open>Equality of the fields added here follows from equality of everything after the console.\<close>

lemma kbd_more_eqD:
  fixes s t :: "'z kbd_scheme"
  assumes "console.more t = console.more s"
  shows "shift t = shift s" "alt t = alt s" "ctrl t = ctrl s" "isr_table t = isr_table s" "ticks t = ticks s"
    "kbd.more t = kbd.more s"
proof -
  have eq: "t = s\<lparr>mem := mem t, eflags := eflags t, cr3 := cr3 t, kstk := kstk t, io_log := io_log t,
    dev8 := dev8 t, dev16 := dev16 t, dev32 := dev32 t, cpus := cpus t, locks := locks t,
    cons_locking := cons_locking t, uart := uart t\<rparr>"
    using assms by (intro console.equality) simp_all
  show "shift t = shift s" using arg_cong [OF eq, of shift] by simp
  show "alt t = alt s" using arg_cong [OF eq, of alt] by simp
  show "ctrl t = ctrl s" using arg_cong [OF eq, of ctrl] by simp
  show "isr_table t = isr_table s" using arg_cong [OF eq, of isr_table] by simp
  show "ticks t = ticks s" using arg_cong [OF eq, of ticks] by simp
  show "kbd.more t = kbd.more s" using arg_cong [OF eq, of kbd.more] by simp
qed

lemma cons_ready_same_sync: "same_sync s t \<Longrightarrow> cons_locking t = cons_locking s \<Longrightarrow> cons_ready t = cons_ready s"
  using same_sync_ok [of s t] by (auto simp: cons_ready_def same_sync_def)

lemma cons_ready_log [simp]: "cons_ready (s\<lparr>io_log := l\<rparr>) = cons_ready s"
  by (rule cons_ready_same_sync) (simp_all add: same_sync_eq)

lemma print_returns:
  assumes "cons_ready s"
  obtains t where "print p s = Ret () t" "cprintf_frame s t"
    "serial_out (io_log t) = serial_out (io_log s) @ (if uart s \<noteq> 0 then text_bytes (c_string p) else [])"
proof -
  have "format_text ''%s'' [CStr p] = Some (c_string p)" by simp
  then show thesis using that cprintf_seq [OF assms] unfolding print_def by blast
qed

lemma kbd_handler_returns:
  assumes "cons_ready s"
  shows "\<exists>t. kbd_interrupt_handler st s = Ret () t \<and>
    ctrl t = (ctrl s \<noteq> is_ctrl (kbd_key (scan_code s))) \<and>
    shift t = (shift s \<noteq> is_shift (kbd_key (scan_code s))) \<and>
    alt t = (alt s \<noteq> is_alt (kbd_key (scan_code s))) \<and>
    serial_out (io_log t) = serial_out (io_log s) @ (if uart s \<noteq> 0 then text_bytes (kbd_text (scan_code s) (shift s)) else []) \<and>
    cons_ready t \<and> dev8 t = dev8 s \<and> uart t = uart s"
proof -
  let ?c = "scan_code s" and ?k = "kbd_key (scan_code s)" and ?u = "s\<lparr>io_log := scan_log s\<rparr>"
  have ex: "is_ctrl k \<Longrightarrow> \<not> is_shift k" "is_ctrl k \<Longrightarrow> \<not> is_alt k" "is_shift k \<Longrightarrow> \<not> is_alt k" for k
    by (auto simp: is_ctrl_def is_shift_def is_alt_def)
  have ready: "cons_ready ?u" using assms by simp
  note step = kbd_handler_step [of st s]
  show ?thesis
  proof (cases "is_ctrl ?k \<or> is_shift ?k \<or> is_alt ?k \<or> ?k = KEY_NULL \<or> 128 \<le> unat ?c")
    case True
    then have quiet: "kbd_text ?c (shift s) = []" by (auto simp: kbd_text_def Let_def)
    have "cons_ready (?u\<lparr>ctrl := a\<rparr>) \<and> cons_ready (?u\<lparr>shift := a\<rparr>) \<and> cons_ready (?u\<lparr>alt := a\<rparr>)" for a
      by (intro conjI; subst cons_ready_same_sync [of s]) (use assms in \<open>simp_all add: same_sync_eq\<close>)
    then show ?thesis unfolding step using True quiet ex [of ?k] ready by (auto simp: Let_def)
  next
    case False
    obtain t where t: "print (if shift s then kbd_scanmap_ascii_shift ?k else kbd_scanmap_ascii_regular ?k) ?u = Ret () t"
      "cprintf_frame ?u t" "serial_out (io_log t) = serial_out (io_log ?u) @ (if uart ?u \<noteq> 0
        then text_bytes (c_string (if shift s then kbd_scanmap_ascii_shift ?k else kbd_scanmap_ascii_regular ?k)) else [])"
      by (rule print_returns [OF ready])
    have "kbd_interrupt_handler st s = Ret () t" unfolding step using False t(1) by (simp add: Let_def)
    moreover have "c_string (if shift s then kbd_scanmap_ascii_shift ?k else kbd_scanmap_ascii_regular ?k) =
        kbd_text ?c (shift s)" using False by (simp add: kbd_text_def Let_def)
    moreover have "cons_ready t" using t(2) ready cons_ready_frame by blast
    moreover have "console.more t = console.more ?u" using t(2) by (simp add: cprintf_frame_def)
    note kbd_more_eqD [OF this]
    ultimately show ?thesis using t(2,3) False by (intro exI [of _ t]) (simp add: cprintf_frame_def)
  qed
qed

section \<open>A concrete machine\<close>

definition boot_kbd :: "u8 \<Rightarrow> kbd" where
  "boot_kbd c = timer.extend (irq.extend (boot_irq\<lparr>dev8 := (\<lambda>_ p. if p = 0x60 then c else 0x20)\<rparr>) \<lparr>ticks = 0\<rparr>)
     \<lparr>shift = False, alt = False, ctrl = False\<rparr>"

definition zero_state :: interrupt_state where
  "zero_state = \<lparr>is_ds = 0, is_edi = 0, is_esi = 0, is_ebp = 0, is_useless = 0, is_ebx = 0, is_edx = 0, is_ecx = 0,
     is_eax = 0, is_int_no = 0, is_err_code = 0, is_eip = 0, is_cs = 0, is_eflags = 0, is_esp = 0, is_ss = 0\<rparr>"

lemmas boot_kbd_defs = boot_kbd_def timer.defs irq.defs boot_irq_def kmem.defs boot_kmem_def

lemma boot_kbd_ready: "cons_ready (boot_kbd c)"
  by (rule cons_ready_unlocked) (simp_all add: lock_free_def boot_kbd_defs zero_lock_def zero_cpu_def)

lemma boot_kbd_simps [simp]:
  "shift (boot_kbd c) = False" "uart (boot_kbd c) = 1" "io_log (boot_kbd c) = []" "dev8 (boot_kbd c) l 0x60 = c"
  by (simp_all add: boot_kbd_defs)

section \<open>Properties\<close>

text \<open>C26: the keyboard interrupt routine implements one key event. It reads the scan code (the
  second byte after a prefix), toggles the modifier the key stands for, if any, and prints
  exactly the text of the key, in the shift state before the event, when the code is a key
  press; releases and modifier keys print nothing. Codes missing from the table mean the
  space bar, and a key without text prints \<open>(null)\<close>.\<close>

theorem kbd_handler_spec:
  assumes "cons_ready s"
  shows "\<exists>t. kbd_interrupt_handler st s = Ret () t \<and>
    ctrl t = (ctrl s \<noteq> is_ctrl (kbd_key (scan_code s))) \<and>
    shift t = (shift s \<noteq> is_shift (kbd_key (scan_code s))) \<and>
    alt t = (alt s \<noteq> is_alt (kbd_key (scan_code s))) \<and>
    serial_out (io_log t) = serial_out (io_log s) @
      (if uart s \<noteq> 0 then text_bytes (kbd_text (scan_code s) (shift s)) else [])"
  using kbd_handler_returns [OF assms] by blast

theorem kbd_handler_spec_witness:
  "(\<exists>t. kbd_interrupt_handler zero_state (boot_kbd 0x1e) = Ret () t \<and> serial_out (io_log t) = text_bytes ''a'') \<and>
   (\<exists>t. kbd_interrupt_handler zero_state (boot_kbd 0x59) = Ret () t \<and> serial_out (io_log t) = text_bytes '' '') \<and>
   (\<exists>t. kbd_interrupt_handler zero_state (boot_kbd 0x3a) = Ret () t \<and> serial_out (io_log t) = text_bytes ''(null)'')"
proof -
  have run: "\<exists>t. kbd_interrupt_handler zero_state (boot_kbd c) = Ret () t \<and> serial_out (io_log t) = text_bytes x"
    if x: "kbd_text c False = x" and c: "c \<noteq> 0xE0" "c \<noteq> 0xE1" for c x
  proof -
    have "scan_code (boot_kbd c) = c" using c by (simp add: scan_code_def Let_def)
    moreover have "serial_out [] = []" by simp
    ultimately show ?thesis
      using kbd_handler_spec [OF boot_kbd_ready [of c], of zero_state] x by (simp only: boot_kbd_simps) auto
  qed
  have k: "kbd_key 0x1e = KEY_A" "kbd_key 0x59 = KEY_SPACE" "kbd_key 0x3a = KEY_CAPSLOCK"
    by (simp_all add: kbd_key_def kbd_scanmap_set1_def)
  have a: "kbd_scanmap_ascii_regular KEY_A = Some ''a''" "kbd_scanmap_ascii_regular KEY_SPACE = Some '' ''"
    "kbd_scanmap_ascii_regular KEY_CAPSLOCK = None"
    by (simp_all add: kbd_scanmap_ascii_regular_def)
  have "kbd_text 0x1e False = ''a''" "kbd_text 0x59 False = '' ''" "kbd_text 0x3a False = ''(null)''"
    by (simp_all add: kbd_text_def k a Let_def is_ctrl_def is_shift_def is_alt_def c_string_def)
  then show ?thesis by (intro conjI run) simp_all
qed

text \<open>A modifier flag records the parity of its events, not whether the key is held. After
  \<open>n\<close> interrupts for a shift key, whether presses or releases, the flag has flipped \<open>n\<close>
  times: a press and a release cancel, and so does an automatically repeated press.\<close>

theorem kbd_shift_parity:
  assumes "cons_ready s" and "\<And>l. dev8 s l 0x60 = c" and "is_shift (kbd_key c)"
  shows "\<exists>t. seqK (replicate n (kbd_interrupt_handler st)) s = Ret () t \<and> shift t = (shift s \<noteq> odd n)"
  using assms(1,2)
proof (induction n arbitrary: s)
  case (Suc n)
  have "\<not> is_shift (kbd_key 0xE0)" "\<not> is_shift (kbd_key 0xE1)"
    by (simp_all add: kbd_key_def kbd_scanmap_set1_def is_shift_def)
  then have "c \<noteq> 0xE0" "c \<noteq> 0xE1" using assms(3) by auto
  then have "scan_code s = c" using Suc.prems(2) by (simp add: scan_code_def Let_def)
  then obtain t where t: "kbd_interrupt_handler st s = Ret () t" "shift t = (\<not> shift s)" "cons_ready t" "dev8 t = dev8 s"
    using kbd_handler_returns [OF Suc.prems(1), of st] assms(3) by auto
  then show ?case using Suc.IH [of t] Suc.prems(2) by auto
qed simp

theorem kbd_shift_parity_witness:
  "\<exists>t. seqK (replicate 2 (kbd_interrupt_handler zero_state)) (boot_kbd 0x2a) = Ret () t \<and> \<not> shift t"
proof -
  have "is_shift (kbd_key 0x2a)" by (simp add: kbd_key_def kbd_scanmap_set1_def is_shift_def)
  then show ?thesis using kbd_shift_parity [OF boot_kbd_ready, of "0x2a" "0x2a" 2 zero_state] by auto
qed

end
