(* ===== verification/Acpi.thy ===== *)
theory Acpi
  imports Kbd
begin

text \<open>
  The ACPI tables (\<^verbatim>\<open>kernel/drivers/acpi.h\<close>, \<^verbatim>\<open>kernel/drivers/acpi.c\<close>): finding the root pointer,
  its checksum, and the list of processors and interrupt controllers. The packed structures
  of the firmware are read from memory at the offsets the C declarations give them. An
  index beyond one of the arrays of \<open>acpi_info\<close> is a \<open>Fault\<close>. The addresses of the two
  signature literals are fixed by the linker and so part of the state.
\<close>

section \<open>Definitions\<close>

record cpu_info =
  ci_id :: u8
  ci_apic :: u8

record ioapic_info =
  ii_id :: u8
  ii_addr :: u32
  ii_base :: u32

record acpi_info =
  num_cpus :: nat
  ai_cpu :: "cpu_info list"
  num_ioapic :: nat
  ai_ioapic :: "ioapic_info list"
  ai_int_map :: "u8 \<Rightarrow> u32"

record acpi_state = kbd +
  acpi :: u32
  acpi_len :: u32
  acpi_info :: acpi_info
  rsdp_sig :: addr
  madt_sig :: addr

abbreviation (input) MAX_IOAPIC :: nat where "MAX_IOAPIC \<equiv> 4"
abbreviation (input) MADT_CPU :: u8 where "MADT_CPU \<equiv> 0"
abbreviation (input) MADT_IOAPIC :: u8 where "MADT_IOAPIC \<equiv> 1"
abbreviation (input) MADT_INT :: u8 where "MADT_INT \<equiv> 2"
abbreviation (input) ACPI_RSDP_CHECKSUM_LENGTH :: u32 where "ACPI_RSDP_CHECKSUM_LENGTH \<equiv> 20"
abbreviation (input) SDT_SIZE :: u32 where "SDT_SIZE \<equiv> 36"

definition rsdp_revision :: "memory \<Rightarrow> addr \<Rightarrow> u8" where "rsdp_revision m p = m (p + 15)"
definition rsdp_rsdt :: "memory \<Rightarrow> addr \<Rightarrow> u32" where "rsdp_rsdt m p = read32 m (p + 16)"
definition rsdp_xsdt :: "memory \<Rightarrow> addr \<Rightarrow> u64" where "rsdp_xsdt m p = read64 m (p + 24)"
definition sdt_len :: "memory \<Rightarrow> addr \<Rightarrow> u32" where "sdt_len m p = read32 m (p + 4)"
definition sdt_data :: "addr \<Rightarrow> addr" where "sdt_data p = p + 36"
definition madt_lic_address :: "memory \<Rightarrow> addr \<Rightarrow> u32" where "madt_lic_address m p = read32 m p"
definition madt_data :: "addr \<Rightarrow> addr" where "madt_data p = p + 8"

datatype madt_entry =
    Lapic u8 u8 u32
  | Ioapic u8 u32 u32
  | Interrupt u8 u8 u32 u16
  | OtherEntry u8

definition madt_entry_type :: "memory \<Rightarrow> addr \<Rightarrow> u8" where "madt_entry_type m e = m e"
definition madt_entry_len :: "memory \<Rightarrow> addr \<Rightarrow> u8" where "madt_entry_len m e = m (e + 1)"

definition madt_entry_at :: "memory \<Rightarrow> addr \<Rightarrow> madt_entry" where
  "madt_entry_at m e = (let t = madt_entry_type m e in
     if t = MADT_CPU then Lapic (m (e + 2)) (m (e + 3)) (read32 m (e + 4))
     else if t = MADT_IOAPIC then Ioapic (m (e + 2)) (read32 m (e + 4)) (read32 m (e + 8))
     else if t = MADT_INT then Interrupt (m (e + 2)) (m (e + 3)) (read32 m (e + 4)) (read16 m (e + 8))
     else OtherEntry t)"

primrec scan_rsdp_loop :: "nat \<Rightarrow> memory \<Rightarrow> addr \<Rightarrow> addr \<Rightarrow> addr \<Rightarrow> addr option" where
  "scan_rsdp_loop 0 m sig p e = None"
| "scan_rsdp_loop (Suc n) m sig p e =
     (if p < e then if memcmp m p sig 8 = 0 then Some p else scan_rsdp_loop n m sig (p + 16) e else Some 0)"

definition scan_rsdp :: "u32 \<Rightarrow> u32 \<Rightarrow> (addr, 'z acpi_state_scheme) kern" where
  "scan_rsdp start end' = bindK (getK (\<lambda>s. scan_rsdp_loop 268435457 (mem s) (rsdp_sig s) (P2V start) (P2V end')))
     (\<lambda>r. case r of None \<Rightarrow> hangK | Some p \<Rightarrow> retK p)"

definition find_rsdp :: "(addr, 'z acpi_state_scheme) kern" where
  "find_rsdp = bindK (getK (\<lambda>s. push_bit 4 (ucast (read16 (mem s) (P2V 0x40e))) :: u64)) (\<lambda>ebda.
     bindK (scan_rsdp (ucast ebda) (ucast (ebda + 1024))) (\<lambda>p.
     if p \<noteq> 0 then retK p
     else bindK (scan_rsdp 0xE0000 0xFFFFF) (\<lambda>p. if p \<noteq> 0 then retK p else retK 0)))"

definition add_cpu :: "u8 \<Rightarrow> u8 \<Rightarrow> acpi_info \<Rightarrow> acpi_info option" where
  "add_cpu ident apic ai = (if num_cpus ai < length (ai_cpu ai)
     then Some (ai\<lparr>ai_cpu := (ai_cpu ai)[num_cpus ai := \<lparr>ci_id = ident, ci_apic = apic\<rparr>], num_cpus := num_cpus ai + 1\<rparr>)
     else None)"

definition add_ioapic :: "u8 \<Rightarrow> u32 \<Rightarrow> u32 \<Rightarrow> acpi_info \<Rightarrow> acpi_info option" where
  "add_ioapic ident a base ai = (if num_ioapic ai < length (ai_ioapic ai)
     then Some (ai\<lparr>ai_ioapic := (ai_ioapic ai)[num_ioapic ai := \<lparr>ii_id = ident, ii_addr = a, ii_base = base\<rparr>],
       num_ioapic := num_ioapic ai + 1\<rparr>)
     else None)"

fun add_entry :: "madt_entry \<Rightarrow> acpi_info \<Rightarrow> acpi_info option" where
  "add_entry (Lapic ident apic flags) ai = (if ident AND 1 = 0 then Some ai else add_cpu ident apic ai)"
| "add_entry (Ioapic ident a base) ai = add_ioapic ident a base ai"
| "add_entry (Interrupt bus source target flags) ai = Some (ai\<lparr>ai_int_map := (ai_int_map ai)(source := target)\<rparr>)"
| "add_entry (OtherEntry t) ai = Some ai"

primrec parse_madt_loop :: "nat \<Rightarrow> addr \<Rightarrow> addr \<Rightarrow> (unit, 'z acpi_state_scheme) kern" where
  "parse_madt_loop 0 e end' = hangK"
| "parse_madt_loop (Suc n) e end' =
     (if e < end' then bindK (getK mem) (\<lambda>m.
        if madt_entry_len m e = 0 then retK ()
        else thenK (bindK (getK acpi_info) (\<lambda>ai. case add_entry (madt_entry_at m e) ai of
            None \<Rightarrow> faultK | Some ai' \<Rightarrow> modK (\<lambda>s. s\<lparr>acpi_info := ai'\<rparr>)))
          (parse_madt_loop n (e + ucast (madt_entry_len m e)) end'))
      else retK ())"

definition parse_madt :: "addr \<Rightarrow> u32 \<Rightarrow> (unit, 'z acpi_state_scheme) kern" where
  "parse_madt madt len = (let end' = madt + len in
     bindK (getK (\<lambda>s. madt_lic_address (mem s) madt)) (\<lambda>lic.
     thenK (cprintf (Some ''Local Interrupt Controller: 0x%x\<newline>'') [CWord lic])
     (parse_madt_loop 4294967297 (madt_data madt) end')))"

definition sdt_entry :: "memory \<Rightarrow> addr \<Rightarrow> u8 \<Rightarrow> nat \<Rightarrow> addr" where
  "sdt_entry m sdt revision i = P2V (if revision \<noteq> 0 then ucast (read64 m (sdt_data sdt + of_nat (8 * i)))
     else read32 m (sdt_data sdt + of_nat (4 * i)))"

definition parse_sdt :: "addr \<Rightarrow> u8 \<Rightarrow> (unit, 'z acpi_state_scheme) kern" where
  "parse_sdt sdt revision = bindK (getK (\<lambda>s. (sdt_len (mem s) sdt - SDT_SIZE) div (if revision \<noteq> 0 then 8 else 4)))
     (\<lambda>entries. forK [0 ..< nat (sint entries)] (\<lambda>i.
       bindK (getK (\<lambda>s. sdt_entry (mem s) sdt revision i)) (\<lambda>table.
       bindK (getK (\<lambda>s. memcmp (mem s) table (madt_sig s) 4)) (\<lambda>c.
       whenK (c = 0) (bindK (getK (\<lambda>s. sdt_len (mem s) table)) (\<lambda>len. parse_madt (sdt_data table) len))))))"

primrec checksum_loop :: "nat \<Rightarrow> memory \<Rightarrow> addr \<Rightarrow> addr \<Rightarrow> u8 \<Rightarrow> u8 option" where
  "checksum_loop 0 m buffer end' c = None"
| "checksum_loop (Suc n) m buffer end' c =
     (if buffer < end' then checksum_loop n m (buffer + 1) end' (c + m buffer) else Some c)"

definition compute_checksum :: "addr \<Rightarrow> u32 \<Rightarrow> (u8, 'z acpi_state_scheme) kern" where
  "compute_checksum buffer len = bindK (getK (\<lambda>s. checksum_loop 4294967297 (mem s) buffer (buffer + len) 0))
     (\<lambda>r. case r of None \<Rightarrow> hangK | Some c \<Rightarrow> retK c)"

definition acpi_init :: "(unit, 'z acpi_state_scheme) kern" where
  "acpi_init = bindK find_rsdp (\<lambda>rsdp.
     bindK (getK (\<lambda>s. (rsdp_revision (mem s) rsdp, P2V (if rsdp_revision (mem s) rsdp \<noteq> 0
         then ucast (rsdp_xsdt (mem s) rsdp) else rsdp_rsdt (mem s) rsdp)))) (\<lambda>(revision, sdt).
     bindK (compute_checksum rsdp ACPI_RSDP_CHECKSUM_LENGTH) (\<lambda>c.
     if c \<noteq> 0 then warn ''Invalid RSDP checksum'' []
     else parse_sdt sdt revision)))"

section \<open>Searching\<close>

definition has_sig :: "memory \<Rightarrow> addr \<Rightarrow> addr \<Rightarrow> nat \<Rightarrow> bool" where
  "has_sig m p sig n \<longleftrightarrow> (\<forall>i < n. m (p + of_nat i) = m (sig + of_nat i))"

lemma memcmp_has_sig: "memcmp m p sig c = 0 \<longleftrightarrow> has_sig m p sig (unat c)"
  using unat_lt32 [of c] by (simp add: memcmp_def memcmp_loop_eq0 has_sig_def)

text \<open>The search visits the addresses 16 apart from \<open>p\<close> below \<open>e\<close>, and with fuel for all of
  them it ends, at the first match.\<close>

lemma scan_rsdp_loop_spec:
  assumes "unat e \<le> 4294967280" "0 < unat p" "(unat e + 15 - unat p) div 16 < fuel"
  shows "\<exists>r. scan_rsdp_loop fuel m sig p e = Some r \<and>
    (r \<noteq> 0 \<longrightarrow> (\<exists>k. r = p + of_nat (16 * k) \<and> unat p + 16 * k < unat e \<and> has_sig m r sig 8 \<and>
       (\<forall>j < k. \<not> has_sig m (p + of_nat (16 * j)) sig 8))) \<and>
    (r = 0 \<longrightarrow> (\<forall>k. unat p + 16 * k < unat e \<longrightarrow> \<not> has_sig m (p + of_nat (16 * k)) sig 8))"
  using assms
proof (induction fuel arbitrary: p)
  case (Suc fuel)
  note prems = Suc.prems
  show ?case
  proof (cases "p < e")
    case False
    then show ?thesis by (simp add: word_less_nat_alt)
  next
    case less: True
    show ?thesis
    proof (cases "has_sig m p sig 8")
      case True
      have "p \<noteq> 0" using prems(2) by auto
      then show ?thesis using True less
        by (intro exI [of _ p]) (auto simp: memcmp_has_sig word_less_nat_alt intro!: exI [of _ 0])
    next
      case False
      have p: "unat (p + 16) = unat p + 16" using less prems(1) by (simp add: unat_add32 word_less_nat_alt)
      have "(unat e + 15 - unat (p + 16)) div 16 < fuel" using prems(3) less p by (simp add: word_less_nat_alt)
      then obtain r where r: "scan_rsdp_loop fuel m sig (p + 16) e = Some r"
        "r \<noteq> 0 \<longrightarrow> (\<exists>k. r = p + 16 + of_nat (16 * k) \<and> unat (p + 16) + 16 * k < unat e \<and> has_sig m r sig 8 \<and>
           (\<forall>j < k. \<not> has_sig m (p + 16 + of_nat (16 * j)) sig 8))"
        "r = 0 \<longrightarrow> (\<forall>k. unat (p + 16) + 16 * k < unat e \<longrightarrow> \<not> has_sig m (p + 16 + of_nat (16 * k)) sig 8)"
        using Suc.IH [of "p + 16"] prems(1) p by auto
      have step: "p + 16 + of_nat (16 * k) = p + of_nat (16 * Suc k)" "unat (p + 16) + 16 * k = unat p + 16 * Suc k" for k
        using p by (simp_all add: algebra_simps)
      have run: "scan_rsdp_loop (Suc fuel) m sig p e = Some r" using r(1) less False by (simp add: memcmp_has_sig)
      have cases: "(\<forall>j < Suc k. Q j) \<longleftrightarrow> Q 0 \<and> (\<forall>j < k. Q (Suc j))" for Q k by (simp add: All_less_Suc2)
      show ?thesis unfolding run
      proof (intro exI [of _ r] conjI impI allI)
        show "\<exists>k. r = p + of_nat (16 * k) \<and> unat p + 16 * k < unat e \<and> has_sig m r sig 8 \<and>
            (\<forall>j < k. \<not> has_sig m (p + of_nat (16 * j)) sig 8)" if nz: "r \<noteq> 0"
        proof -
          obtain k where "r = p + of_nat (16 * Suc k)" "unat p + 16 * Suc k < unat e" "has_sig m r sig 8"
            "\<forall>j < k. \<not> has_sig m (p + of_nat (16 * Suc j)) sig 8" using r(2) nz unfolding step by blast
          then show ?thesis using False by (intro exI [of _ "Suc k"]) (simp add: cases del: mult_Suc_right)
        qed
        show "\<not> has_sig m (p + of_nat (16 * k)) sig 8" if "r = 0" "unat p + 16 * k < unat e" for k
          using r(3) that False unfolding step by (cases k) auto
      qed simp
    qed
  qed
qed simp

section \<open>Checksums\<close>

lemma checksum_loop_sum:
  assumes "unat buffer + n < 4294967296" "n < fuel"
  shows "checksum_loop fuel m buffer (buffer + of_nat n) c = Some (c + sum_list (map (\<lambda>i. m (buffer + of_nat i)) [0 ..< n]))"
  using assms
proof (induction n arbitrary: buffer c fuel)
  case 0
  then show ?case by (cases fuel) auto
next
  case (Suc n)
  then obtain f where f: "fuel = Suc f" "n < f" by (cases fuel) auto
  have u: "unat (buffer + of_nat (Suc n)) = unat buffer + Suc n" "unat (buffer + 1) = unat buffer + 1"
    using Suc.prems(1) by (simp_all add: unat_add32 unat_of_nat32 del: of_nat_Suc)
  have less: "buffer < buffer + of_nat (Suc n)" using u(1) by (simp add: word_less_nat_alt del: of_nat_Suc)
  have "checksum_loop f m (buffer + 1) (buffer + 1 + of_nat n) (c + m buffer) =
      Some (c + m buffer + sum_list (map (\<lambda>i. m (buffer + 1 + of_nat i)) [0 ..< n]))"
    using Suc.prems(1) u(2) f(2) by (intro Suc.IH) simp_all
  moreover have "map (\<lambda>i. m (buffer + of_nat i)) [0 ..< Suc n] = m buffer # map (\<lambda>i. m (buffer + 1 + of_nat i)) [0 ..< n]"
    by (simp add: upt_conv_Cons map_Suc_upt [symmetric] add.assoc del: upt_Suc)
  ultimately show ?case using less f(1) by (simp add: add.assoc del: upt_Suc)
qed

section \<open>The interrupt controller table\<close>

text \<open>\<open>madt_list m e end es\<close>: the entries of the table from \<open>e\<close> on are \<open>es\<close>, up to the end
  or to an entry of length 0.\<close>

inductive madt_list :: "memory \<Rightarrow> addr \<Rightarrow> addr \<Rightarrow> madt_entry list \<Rightarrow> bool" for m :: memory where
  finished: "\<not> e < end' \<Longrightarrow> madt_list m e end' []"
| zero_length: "e < end' \<Longrightarrow> madt_entry_len m e = 0 \<Longrightarrow> madt_list m e end' []"
| entry: "e < end' \<Longrightarrow> madt_entry_len m e \<noteq> 0 \<Longrightarrow> madt_list m (e + ucast (madt_entry_len m e)) end' es \<Longrightarrow>
    madt_list m e end' (madt_entry_at m e # es)"

inductive_simps madt_list_Nil: "madt_list m e end' []"
inductive_simps madt_list_Cons: "madt_list m e end' (x # es)"

primrec add_entries :: "madt_entry list \<Rightarrow> acpi_info \<Rightarrow> acpi_info option" where
  "add_entries [] ai = Some ai"
| "add_entries (e # es) ai = (case add_entry e ai of None \<Rightarrow> None | Some ai' \<Rightarrow> add_entries es ai')"

lemma parse_madt_loop_spec:
  assumes "madt_list (mem s) e end' es" "length es < fuel"
  shows "parse_madt_loop fuel e end' s = (case add_entries es (acpi_info s) of None \<Rightarrow> Fault
    | Some ai \<Rightarrow> Ret () (s\<lparr>acpi_info := ai\<rparr>))"
  using assms
proof (induction es arbitrary: e s fuel rule: list.induct)
  case Nil
  then show ?case by (cases fuel) (auto simp: madt_list_Nil)
next
  case (Cons x es)
  then obtain f where f: "fuel = Suc f" "length es < f" by (cases fuel) auto
  have e: "e < end'" "madt_entry_len (mem s) e \<noteq> 0" "x = madt_entry_at (mem s) e"
    "madt_list (mem s) (e + ucast (madt_entry_len (mem s) e)) end' es"
    using Cons.prems(1) by (auto simp: madt_list_Cons)
  show ?case
  proof (cases "add_entry x (acpi_info s)")
    case None
    then show ?thesis using e f by (simp add: thenK_def)
  next
    case (Some ai)
    have "parse_madt_loop f (e + ucast (madt_entry_len (mem s) e)) end' (s\<lparr>acpi_info := ai\<rparr>) =
        (case add_entries es ai of None \<Rightarrow> Fault | Some ai' \<Rightarrow> Ret () (s\<lparr>acpi_info := ai'\<rparr>))"
      using Cons.IH [of "s\<lparr>acpi_info := ai\<rparr>"] e(4) f(2) by (simp split: option.split)
    then show ?thesis using e f Some by simp
  qed
qed

lemma unat_ucast_u8: "unat (ucast (c :: u8) :: u32) = unat c"
  using unat_lt8 [of c] by (simp add: unsigned_ucast_eq take_bit_nat_eq_self_iff)

text \<open>Every table is a list of entries, of length bounded by its size, provided it does not
  reach the top of the address space.\<close>

lemma madt_list_exists:
  assumes "unat end' \<le> 4294967040"
  shows "\<exists>es. madt_list m e end' es \<and> length es \<le> unat end' - unat e"
proof (induction "unat end' - unat e" arbitrary: e rule: less_induct)
  case less
  consider "\<not> e < end'" | "e < end'" "madt_entry_len m e = 0" | "e < end'" "madt_entry_len m e \<noteq> 0" by blast
  then show ?case
  proof cases
    case 3
    let ?e = "e + ucast (madt_entry_len m e)"
    have l: "0 < unat (madt_entry_len m e)" "unat (madt_entry_len m e) < 256"
      using 3(2) unat_lt8 by (simp_all add: unat_gt_0)
    then have e: "unat ?e = unat e + unat (madt_entry_len m e)"
      using 3(1) assms by (simp add: unat_add32 unat_ucast_u8 word_less_nat_alt)
    then have "unat end' - unat ?e < unat end' - unat e" using 3(1) l by (simp add: word_less_nat_alt diff_less_mono2)
    then obtain es where "madt_list m ?e end' es" "length es \<le> unat end' - unat ?e"
      using less [of ?e] by blast
    then show ?thesis using 3 e l by (intro exI [of _ "madt_entry_at m e # es"])
      (auto simp: madt_list_Cons word_less_nat_alt)
  qed (auto simp: madt_list_Nil intro!: exI [of _ "[]"])
qed

lemma madt_entry_cong:
  assumes "\<And>i. i < 12 \<Longrightarrow> m' (e + of_nat i) = m (e + of_nat i)"
  shows "madt_entry_at m' e = madt_entry_at m e" "madt_entry_len m' e = madt_entry_len m e"
proof -
  have b: "m' e = m e" "m' (e + 1) = m (e + 1)" "m' (e + 2) = m (e + 2)" "m' (e + 3) = m (e + 3)" "m' (e + 8) = m (e + 8)"
    "m' (e + 9) = m (e + 9)"
    using assms [of 0] assms [of 1] assms [of 2] assms [of 3] assms [of 8] assms [of 9] by simp_all
  have "read32 m' (e + 4) = read32 m (e + 4)" "read32 m' (e + 8) = read32 m (e + 8)"
  proof -
    have "m' (e + 4 + of_nat i) = m (e + 4 + of_nat i)" if "i < 4" for i
      using assms [of "4 + i"] that by (simp add: add.assoc)
    then show "read32 m' (e + 4) = read32 m (e + 4)" by (rule read32_cong)
    have "m' (e + 8 + of_nat i) = m (e + 8 + of_nat i)" if "i < 4" for i
      using assms [of "8 + i"] that by (simp add: add.assoc)
    then show "read32 m' (e + 8) = read32 m (e + 8)" by (rule read32_cong)
  qed
  moreover have "read16 m' (e + 8) = read16 m (e + 8)" using b by (simp add: read16_def add.assoc)
  ultimately show "madt_entry_at m' e = madt_entry_at m e"
    using b by (simp add: madt_entry_at_def madt_entry_type_def Let_def)
  show "madt_entry_len m' e = madt_entry_len m e" using b by (simp add: madt_entry_len_def)
qed

lemma near_bytes:
  fixes m m' :: memory
  assumes "e < end'" "lo \<le> unat e" "unat end' \<le> 4294967040"
    and "\<And>a. lo \<le> unat a \<Longrightarrow> unat a < unat end' + 12 \<Longrightarrow> m' a = m a" "i < 12"
  shows "m' (e + of_nat i) = (m (e + of_nat i) :: u8)"
proof -
  have "unat e + i < 4294967296" using assms(1,3,5) by (simp add: word_less_nat_alt)
  then have "unat (e + of_nat i) = unat e + i" using assms(5) by (simp add: unat_add32 unat_of_nat32)
  then show ?thesis using assms(1,2,5) by (intro assms(4)) (simp_all add: word_less_nat_alt)
qed

lemma madt_list_cong:
  assumes "madt_list m e end' es" "lo \<le> unat e" "unat end' \<le> 4294967040"
    and "\<And>a. lo \<le> unat a \<Longrightarrow> unat a < unat end' + 12 \<Longrightarrow> m' a = m a"
  shows "madt_list m' e end' es"
  using assms
proof (induction rule: madt_list.induct)
  case (zero_length e end')
  have "madt_entry_len m' e = madt_entry_len m e"
    by (rule madt_entry_cong(2); rule near_bytes [OF zero_length(1) zero_length.prems]; assumption)
  then show ?case using zero_length by (simp add: madt_list_Nil)
next
  case (entry e end' es)
  have c: "madt_entry_at m' e = madt_entry_at m e" "madt_entry_len m' e = madt_entry_len m e"
    by (rule madt_entry_cong; rule near_bytes [OF entry.hyps(1) entry.prems]; assumption)+
  have "unat (e + ucast (madt_entry_len m e)) = unat e + unat (madt_entry_len m e)"
    using entry.hyps(1) entry.prems(2) unat_lt8 [of "madt_entry_len m e"]
    by (simp add: unat_add32 unat_ucast_u8 word_less_nat_alt)
  then have "madt_list m' (e + ucast (madt_entry_len m' e)) end' es"
    using entry.IH entry.prems c by simp
  then show ?case using madt_list.entry [of e end' m' es] entry.hyps c by simp
qed (simp add: madt_list_Nil)

section \<open>Bounds\<close>

definition acpi_ok :: "acpi_info \<Rightarrow> bool" where
  "acpi_ok ai \<longleftrightarrow> length (ai_cpu ai) = 16 \<and> num_cpus ai \<le> 16 \<and> length (ai_ioapic ai) = 4 \<and> num_ioapic ai \<le> 4"

lemma add_entry_ok: "acpi_ok ai \<Longrightarrow> add_entry e ai = Some ai' \<Longrightarrow> acpi_ok ai'"
  by (cases e) (auto simp: acpi_ok_def add_cpu_def add_ioapic_def split: if_splits)

lemma add_entries_ok: "acpi_ok ai \<Longrightarrow> add_entries es ai = Some ai' \<Longrightarrow> acpi_ok ai'"
  by (induction es arbitrary: ai) (auto dest: add_entry_ok split: option.splits)

primrec is_cpu :: "madt_entry \<Rightarrow> bool" where
  "is_cpu (Lapic ident apic flags) \<longleftrightarrow> ident AND 1 \<noteq> 0"
| "is_cpu (Ioapic ident a base) \<longleftrightarrow> False"
| "is_cpu (Interrupt bus source target flags) \<longleftrightarrow> False"
| "is_cpu (OtherEntry t) \<longleftrightarrow> False"

primrec is_ioapic :: "madt_entry \<Rightarrow> bool" where
  "is_ioapic (Lapic ident apic flags) \<longleftrightarrow> False"
| "is_ioapic (Ioapic ident a base) \<longleftrightarrow> True"
| "is_ioapic (Interrupt bus source target flags) \<longleftrightarrow> False"
| "is_ioapic (OtherEntry t) \<longleftrightarrow> False"

text \<open>The counts after all entries; the table overflows an array exactly when there are too many
  of a kind.\<close>

lemma add_entries_counts:
  assumes "acpi_ok ai"
  shows "(case add_entries es ai of
      None \<Rightarrow> 16 < num_cpus ai + length (filter is_cpu es) \<or> 4 < num_ioapic ai + length (filter is_ioapic es)
    | Some ai' \<Rightarrow> num_cpus ai' = num_cpus ai + length (filter is_cpu es) \<and>
        num_ioapic ai' = num_ioapic ai + length (filter is_ioapic es))"
  using assms
proof (induction es arbitrary: ai)
  case (Cons e es)
  show ?case
  proof (cases "add_entry e ai")
    case None
    then show ?thesis using Cons.prems
      by (cases e) (auto simp: acpi_ok_def add_cpu_def add_ioapic_def split: if_splits)
  next
    case (Some ai')
    have "num_cpus ai' = num_cpus ai + (if is_cpu e then 1 else 0)" "num_ioapic ai' = num_ioapic ai + (if is_ioapic e then 1 else 0)"
      using Some by (cases e; auto simp: add_cpu_def add_ioapic_def split: if_splits)+
    then show ?thesis using Cons.IH [OF add_entry_ok [OF Cons.prems Some]] Some by (auto split: option.splits)
  qed
qed simp

lemma acpi_more_eqD:
  fixes s t :: "'z acpi_state_scheme"
  assumes "console.more t = console.more s"
  shows "acpi_info t = acpi_info s" "acpi t = acpi s" "acpi_len t = acpi_len s" "acpi_state.more t = acpi_state.more s"
proof -
  have eq: "t = s\<lparr>mem := mem t, eflags := eflags t, cr3 := cr3 t, kstk := kstk t, io_log := io_log t,
    dev8 := dev8 t, dev16 := dev16 t, dev32 := dev32 t, cpus := cpus t, locks := locks t,
    cons_locking := cons_locking t, uart := uart t\<rparr>"
    using assms by (intro console.equality) simp_all
  show "acpi_info t = acpi_info s" using arg_cong [OF eq, of acpi_info] by simp
  show "acpi t = acpi s" using arg_cong [OF eq, of acpi] by simp
  show "acpi_len t = acpi_len s" using arg_cong [OF eq, of acpi_len] by simp
  show "acpi_state.more t = acpi_state.more s" using arg_cong [OF eq, of acpi_state.more] by simp
qed

lemma parse_madt_returns:
  assumes ready: "cons_ready s" and l: "madt_list (mem s) (madt_data madt) (madt + len) es"
    and top: "unat madt + unat len \<le> 4294967040" "8 \<le> unat len"
    and video: "\<And>a. unat madt \<le> unat a \<Longrightarrow> unat a < unat madt + unat len + 12 \<Longrightarrow> \<not> in_region vidmem 131072 a"
    and len: "length es < 4294967297"
  shows "(case add_entries es (acpi_info s) of None \<Rightarrow> parse_madt madt len s = Fault
    | Some ai \<Rightarrow> \<exists>t. parse_madt madt len s = Ret () t \<and> acpi_info t = ai \<and> cprintf_frame s (t\<lparr>acpi_info := acpi_info s\<rparr>))"
proof -
  let ?lic = "madt_lic_address (mem s) madt"
  have "format_text ''Local Interrupt Controller: 0x%x\<newline>'' [CWord ?lic] =
      Some (''Local Interrupt Controller: 0x'' @ num_text 16 (unat ?lic) @ ''\<newline>'')" by simp
  then obtain t where t: "cprintf (Some ''Local Interrupt Controller: 0x%x\<newline>'') [CWord ?lic] s = Ret () t" "cprintf_frame s t"
    by (rule cprintf_seq [OF ready])
  have ai: "acpi_info t = acpi_info s" using t(2) by (intro acpi_more_eqD) (simp add: cprintf_frame_def)
  have e: "unat (madt + len) = unat madt + unat len" using top(1) by (simp add: unat_add32)
  have d: "unat (madt_data madt) = unat madt + 8" using top by (simp add: madt_data_def unat_add32)
  have "mem t a = mem s a" if "unat madt \<le> unat a" "unat a < unat (madt + len) + 12" for a
    using t(2) video [OF that(1)] that(2) e by (simp add: cprintf_frame_def)
  then have "madt_list (mem t) (madt_data madt) (madt + len) es"
    using e d top(1) by (intro madt_list_cong [OF l, of "unat madt"]) simp_all
  note run = parse_madt_loop_spec [OF this len]
  have "parse_madt madt len s = parse_madt_loop 4294967297 (madt_data madt) (madt + len) t"
    using t(1) by (simp add: parse_madt_def Let_def)
  moreover have "cprintf_frame s (t\<lparr>acpi_info := acpi_info s\<rparr>)" unfolding ai [symmetric] using t(2) by simp
  ultimately show ?thesis using run ai by (auto split: option.split)
qed

lemma unat_P2V: "unat a < 2147483648 \<Longrightarrow> unat (P2V a) = unat a + 2147483648"
  by (simp add: P2V_def unat_add32)

lemma compute_checksum_apply:
  assumes "unat buffer + unat len < 4294967296"
  shows "compute_checksum buffer len s = Ret (sum_list (map (\<lambda>i. mem s (buffer + of_nat i)) [0 ..< unat len])) s"
proof -
  have "checksum_loop 4294967297 (mem s) buffer (buffer + of_nat (unat len)) 0 =
      Some (0 + sum_list (map (\<lambda>i. mem s (buffer + of_nat i)) [0 ..< unat len]))"
    using assms unat_lt32 [of len] by (intro checksum_loop_sum) simp_all
  then show ?thesis by (simp add: compute_checksum_def)
qed

section \<open>A small table\<close>

text \<open>A table at physical address \<open>0x7fe0000\<close> with one processor, one interrupt controller and a
  terminating entry of length 0.\<close>

definition madt_bytes :: "u8 list" where
  "madt_bytes = [0, 0, 0xe0, 0xfe, 1, 0, 0, 0] @ [0, 8, 1, 0, 1, 0, 0, 0] @ [1, 12, 2, 0, 0, 0, 0xc0, 0xfe, 0, 0, 0, 0] @ [0, 0]"

definition boot_acpi :: acpi_state where
  "boot_acpi = kbd.extend ((boot_kbd 0)\<lparr>mem := (\<lambda>a. if a - 0x87fe0000 < 30 then madt_bytes ! unat (a - 0x87fe0000) else 0)\<rparr>)
     \<lparr>acpi = 0, acpi_len = 0, acpi_info = \<lparr>num_cpus = 0, ai_cpu = replicate 16 \<lparr>ci_id = 0, ci_apic = 0\<rparr>, num_ioapic = 0,
        ai_ioapic = replicate 4 \<lparr>ii_id = 0, ii_addr = 0, ii_base = 0\<rparr>, ai_int_map = (\<lambda>_. 0)\<rparr>,
      rsdp_sig = 0x80103000, madt_sig = 0x80103010\<rparr>"

lemma boot_acpi_ready: "cons_ready boot_acpi"
  by (rule cons_ready_unlocked) (simp_all add: lock_free_def boot_acpi_def kbd.defs boot_kbd_defs zero_lock_def zero_cpu_def)

lemma boot_acpi_ok: "acpi_ok (acpi_info boot_acpi)"
  by (simp add: acpi_ok_def boot_acpi_def kbd.defs)

lemma boot_acpi_mem: "a - 0x87fe0000 < 30 \<Longrightarrow> mem boot_acpi a = madt_bytes ! unat (a - 0x87fe0000)"
  by (simp add: boot_acpi_def kbd.defs)

lemma boot_acpi_entries:
  "madt_entry_len (mem boot_acpi) 0x87fe0008 = 8" "madt_entry_at (mem boot_acpi) 0x87fe0008 = Lapic 1 0 1"
  "madt_entry_len (mem boot_acpi) 0x87fe0010 = 12" "madt_entry_at (mem boot_acpi) 0x87fe0010 = Ioapic 2 0xfec00000 0"
  "madt_entry_len (mem boot_acpi) 0x87fe001c = 0"
  by (simp_all add: madt_entry_len_def madt_entry_at_def madt_entry_type_def read32_def boot_acpi_mem madt_bytes_def)

lemma boot_acpi_madt:
  "madt_list (mem boot_acpi) (madt_data 0x87fe0000) (0x87fe0000 + 30) [Lapic 1 0 1, Ioapic 2 0xfec00000 0]"
  by (simp add: madt_list_Cons madt_list_Nil madt_data_def boot_acpi_entries)

section \<open>Properties\<close>

text \<open>C37: the search for the root pointer ends for every range below the top of memory, changes
  nothing, and returns the first of the addresses 16 apart from the start of the range, below its
  end, at which the eight bytes of the signature stand; it returns 0 exactly when there is no such
  address.\<close>

theorem scan_rsdp_spec:
  assumes "unat end' \<le> 2147483632" "start \<le> end'"
  shows "\<exists>r. scan_rsdp start end' s = Ret r s \<and>
    (r \<noteq> 0 \<longrightarrow> (\<exists>k. r = P2V start + of_nat (16 * k) \<and> unat start + 16 * k < unat end' \<and> has_sig (mem s) r (rsdp_sig s) 8 \<and>
       (\<forall>j < k. \<not> has_sig (mem s) (P2V start + of_nat (16 * j)) (rsdp_sig s) 8))) \<and>
    (r = 0 \<longrightarrow> (\<forall>k. unat start + 16 * k < unat end' \<longrightarrow> \<not> has_sig (mem s) (P2V start + of_nat (16 * k)) (rsdp_sig s) 8))"
proof -
  have u: "unat (P2V end') = unat end' + 2147483648" "unat (P2V start) = unat start + 2147483648"
    using assms by (simp_all add: unat_P2V word_le_nat_alt)
  obtain r where r: "scan_rsdp_loop 268435457 (mem s) (rsdp_sig s) (P2V start) (P2V end') = Some r"
    "(r \<noteq> 0 \<longrightarrow> (\<exists>k. r = P2V start + of_nat (16 * k) \<and> unat (P2V start) + 16 * k < unat (P2V end') \<and> has_sig (mem s) r (rsdp_sig s) 8 \<and>
       (\<forall>j < k. \<not> has_sig (mem s) (P2V start + of_nat (16 * j)) (rsdp_sig s) 8))) \<and>
     (r = 0 \<longrightarrow> (\<forall>k. unat (P2V start) + 16 * k < unat (P2V end') \<longrightarrow> \<not> has_sig (mem s) (P2V start + of_nat (16 * k)) (rsdp_sig s) 8))"
    using scan_rsdp_loop_spec [of "P2V end'" "P2V start" 268435457 "mem s" "rsdp_sig s"] assms(1) u by force
  have "scan_rsdp start end' s = Ret r s" using r(1) by (simp add: scan_rsdp_def)
  then show ?thesis using r(2) unfolding u by simp
qed

theorem scan_rsdp_spec_witness:
  "\<exists>r. scan_rsdp 0xE0000 0xFFFFF (boot_acpi\<lparr>mem := (\<lambda>a. if a = 0x80103000 \<or> a = 0x800E0020 then 82 else 0)\<rparr>) =
      Ret r (boot_acpi\<lparr>mem := (\<lambda>a. if a = 0x80103000 \<or> a = 0x800E0020 then 82 else 0)\<rparr>) \<and> r = 0x800E0020"
proof -
  let ?s = "boot_acpi\<lparr>mem := (\<lambda>a. if a = 0x80103000 \<or> a = 0x800E0020 then 82 else 0)\<rparr>"
  have sig: "rsdp_sig ?s = 0x80103000" by (simp add: boot_acpi_def kbd.defs)
  have start: "P2V 0xE0000 = 0x800E0000" by (simp add: P2V_def)
  have has: "has_sig (mem ?s) p (rsdp_sig ?s) 8 \<Longrightarrow> p = 0x80103000 \<or> p = 0x800E0020" for p
    unfolding has_sig_def sig by (drule spec [of _ 0]) (simp split: if_splits)
  have byte: "mem ?s (0x800E0020 + of_nat i) = mem ?s (0x80103000 + of_nat i)" if "i \<in> {0, 1, 2, 3, 4, 5, 6, 7}" for i
    using that by auto
  have "has_sig (mem ?s) 0x800E0020 0x80103000 8" unfolding has_sig_def by (intro allI impI byte) auto
  then have at: "has_sig (mem ?s) (P2V 0xE0000 + of_nat (16 * 2)) (rsdp_sig ?s) 8" unfolding sig start by simp
  obtain r where r: "scan_rsdp 0xE0000 0xFFFFF ?s = Ret r ?s"
    "r \<noteq> 0 \<longrightarrow> (\<exists>k. r = P2V 0xE0000 + of_nat (16 * k) \<and> unat (0xE0000 :: u32) + 16 * k < unat (0xFFFFF :: u32) \<and>
       has_sig (mem ?s) r (rsdp_sig ?s) 8)"
    "r = 0 \<longrightarrow> (\<forall>k. unat (0xE0000 :: u32) + 16 * k < unat (0xFFFFF :: u32) \<longrightarrow>
       \<not> has_sig (mem ?s) (P2V 0xE0000 + of_nat (16 * k)) (rsdp_sig ?s) 8)"
    using scan_rsdp_spec [of "0xFFFFF" "0xE0000" ?s] by auto
  have "r \<noteq> 0" using r(3) at by (auto dest!: spec [of _ 2])
  then obtain k where k: "r = 0x800E0000 + of_nat (16 * k)" "16 * k < 131071" "has_sig (mem ?s) r (rsdp_sig ?s) 8"
    using r(2) unfolding start by auto
  have "unat r = 2148401152 + 16 * k" unfolding k(1) using k(2) by (simp add: unat_add32 unat_of_nat32 del: of_nat_mult)
  then have "r \<noteq> 0x80103000" using k(2) by auto
  then have "r = 0x800E0020" using has [OF k(3)] by simp
  then show ?thesis using r(1) by blast
qed


lemma madt_list_det: "madt_list m e end' es \<Longrightarrow> madt_list m e end' es' \<Longrightarrow> es' = es"
proof (induction arbitrary: es' rule: madt_list.induct)
  case (entry e end' es)
  obtain es2 where "es' = madt_entry_at m e # es2" "madt_list m (e + ucast (madt_entry_len m e)) end' es2"
    using entry.prems entry.hyps(1,2) by (cases rule: madt_list.cases) simp_all
  then show ?case using entry.IH by blast
qed (erule madt_list.cases; simp)+


end
