(* ===== verification/Pmem.thy ===== *)
theory Pmem
  imports Acpi
begin

text \<open>
  Physical memory (\<^verbatim>\<open>kernel/pmem.h\<close>, \<^verbatim>\<open>kernel/pmem.c\<close>): the test of the A20 address line and the
  evaluation of the memory map that the boot loader hands over. While this code runs, low
  virtual addresses still name the same physical memory as those at \<open>KERNBASE\<close>; the
  line itself is a part of the machine that only this test observes: with the line off, bit
  20 of a physical address is ignored.
\<close>

section \<open>Definitions\<close>

record pmem = acpi_state +
  phys_end :: u32
  a20_line :: bool

abbreviation (input) PMEM_EXTENDED_ADDR :: u64 where "PMEM_EXTENDED_ADDR \<equiv> 0x100000"
abbreviation (input) E820_TYPE_RAM :: u32 where "E820_TYPE_RAM \<equiv> 1"
abbreviation (input) E820_TYPE_RESERVED :: u32 where "E820_TYPE_RESERVED \<equiv> 2"
abbreviation (input) E820_TYPE_ACPI :: u32 where "E820_TYPE_ACPI \<equiv> 3"

definition e820_base :: "memory \<Rightarrow> addr \<Rightarrow> u64" where "e820_base m p = read64 m p"
definition e820_len :: "memory \<Rightarrow> addr \<Rightarrow> u64" where "e820_len m p = read64 m (p + 8)"
definition e820_type :: "memory \<Rightarrow> addr \<Rightarrow> u32" where "e820_type m p = read32 m (p + 16)"

definition info_cnt :: "memory \<Rightarrow> addr \<Rightarrow> u32" where "info_cnt m mmap = read32 m mmap"
definition info_entry :: "addr \<Rightarrow> nat \<Rightarrow> addr" where "info_entry mmap i = mmap + of_nat (4 + 24 * i)"

definition phys_cell :: "u32 \<Rightarrow> 'z pmem_scheme \<Rightarrow> addr" where
  "phys_cell a s = P2V (if a20_line s then a else a AND NOT 0x100000)"

definition a20_enabled :: "(bool, 'z pmem_scheme) kern" where
  "a20_enabled = (let r = 0x012345; w = 0x112345 in
     thenK (modK (\<lambda>s. s\<lparr>mem := write32 (mem s) (phys_cell r s) 0x87654321\<rparr>))
     (thenK (modK (\<lambda>s. s\<lparr>mem := write32 (mem s) (phys_cell w s) 0x12345678\<rparr>))
     (getK (\<lambda>s. read32 (mem s) (phys_cell r s) \<noteq> read32 (mem s) (phys_cell w s)))))"

primrec e820_loop :: "nat list \<Rightarrow> addr \<Rightarrow> addr \<Rightarrow> (addr, 'z pmem_scheme) kern" where
  "e820_loop [] mmap extmem = retK extmem"
| "e820_loop (i # is) mmap extmem = (let entry = info_entry mmap i in
     thenK (bindK (getK mem) (\<lambda>m. cprintf (Some ''BIOS-e820: [base=%l length=%l] type=%d\<newline>'')
       [CWord (ucast (e820_base m entry)), CWord (ucast (drop_bit 32 (e820_base m entry))),
        CWord (ucast (e820_len m entry)), CWord (ucast (drop_bit 32 (e820_len m entry))), CWord (e820_type m entry)]))
     (bindK (getK mem) (\<lambda>m. let
         extmem = (if extmem = 0 \<and> e820_type m entry = E820_TYPE_RAM \<and> e820_base m entry \<ge> PMEM_EXTENDED_ADDR
                   then entry else extmem) in
       thenK (bindK (getK acpi) (\<lambda>a.
         whenK (a = 0 \<and> (e820_type m entry = E820_TYPE_ACPI \<or> extmem \<noteq> 0 \<and> e820_type m entry = E820_TYPE_RESERVED))
           (modK (\<lambda>s. s\<lparr>acpi := entry, acpi_len := ucast (e820_len m entry)\<rparr>))))
       (e820_loop is mmap extmem))))"

definition pmem_init :: "addr \<Rightarrow> (unit, 'z pmem_scheme) kern" where
  "pmem_init mmap = bindK a20_enabled (\<lambda>on.
     if \<not> on then panicK ''A20 line not enabled''
     else bindK (getK (\<lambda>s. mmap = 0 \<or> info_cnt (mem s) mmap = 0)) (\<lambda>none.
     if none then panicK ''physical memory map not initialized''
     else thenK (print (Some ''BIOS-provided physical RAM map:\<newline>''))
     (bindK (getK (\<lambda>s. [0 ..< unat (info_cnt (mem s) mmap)])) (\<lambda>is.
     bindK (e820_loop is mmap 0) (\<lambda>extmem.
     if extmem = 0 then panicK ''extended memory not found''
     else bindK (getK acpi) (\<lambda>a.
     if a = 0 then panicK ''acpi memory not found''
     else thenK (modK (\<lambda>s. s\<lparr>acpi := ucast (e820_base (mem s) a)\<rparr>))
     (thenK (bindK (getK (\<lambda>s. (acpi s, acpi_len s))) (\<lambda>(a, l). cprintf (Some ''ACPI Info: 0x%p, len=0x%x\<newline>'') [CWord a, CWord l]))
     (modK (\<lambda>s. s\<lparr>phys_end := ucast (e820_base (mem s) extmem + e820_len (mem s) extmem)\<rparr>)))))))))"

section \<open>The A20 test\<close>

lemma and_not_bit20: "(0x112345 :: u32) AND NOT 0x100000 = 0x12345" "(0x12345 :: u32) AND NOT 0x100000 = 0x12345"
  by simp_all

definition a20_probed :: "'z pmem_scheme \<Rightarrow> 'z pmem_scheme" where
  "a20_probed s = s\<lparr>mem := write32 (write32 (mem s) (phys_cell 0x12345 s) 0x87654321) (phys_cell 0x112345 s) 0x12345678\<rparr>"

lemma a20_enabled_apply: "a20_enabled s = Ret (a20_line s) (a20_probed s)"
proof -
  have c: "phys_cell a (s\<lparr>mem := m\<rparr>) = phys_cell a s" for a m by (simp add: phys_cell_def)
  have d: "disjoint_regions (0x80112345 :: addr) 4 0x80012345 4" by (simp add: disjoint_regions_def)
  have "read32 (mem (a20_probed s)) (phys_cell 0x12345 s) \<noteq> read32 (mem (a20_probed s)) (phys_cell 0x112345 s) \<longleftrightarrow> a20_line s"
    by (cases "a20_line s") (simp_all add: a20_probed_def phys_cell_def P2V_def read32_write32_other [OF d])
  then show ?thesis by (simp add: a20_enabled_def Let_def c a20_probed_def)
qed

lemma a20_probed_simps [simp]:
  "acpi (a20_probed s) = acpi s" "acpi_len (a20_probed s) = acpi_len s" "cons_ready (a20_probed s) = cons_ready s"
  unfolding a20_probed_def by (auto intro!: cons_ready_same_sync simp: same_sync_eq)

section \<open>The memory map\<close>

definition ram_entry :: "memory \<Rightarrow> addr \<Rightarrow> nat \<Rightarrow> bool" where
  "ram_entry m mmap i \<longleftrightarrow> e820_type m (info_entry mmap i) = 1 \<and> 0x100000 \<le> e820_base m (info_entry mmap i)"

definition acpi_entry :: "memory \<Rightarrow> addr \<Rightarrow> nat \<Rightarrow> bool" where
  "acpi_entry m mmap i \<longleftrightarrow> e820_type m (info_entry mmap i) = 3 \<or>
     e820_type m (info_entry mmap i) = 2 \<and> (\<exists>j \<le> i. ram_entry m mmap j)"

definition entry_or_null :: "addr \<Rightarrow> nat option \<Rightarrow> addr" where
  "entry_or_null mmap r = (case r of None \<Rightarrow> 0 | Some i \<Rightarrow> info_entry mmap i)"

lemma find_append: "find P (xs @ ys) = (case find P xs of None \<Rightarrow> find P ys | Some x \<Rightarrow> Some x)"
  by (induction xs) auto

lemma find_upt_Suc: "find P [0 ..< Suc k] = (case find P [0 ..< k] of None \<Rightarrow> if P k then Some k else None | Some x \<Rightarrow> Some x)"
  by (simp add: find_append split: option.split)

lemma find_upt_None: "find P [0 ..< k] = None \<longleftrightarrow> (\<forall>j < k. \<not> P j)"
  by (auto simp: find_None_iff)

lemma entry_cong:
  assumes "\<And>j. j < 24 \<Longrightarrow> m' (p + of_nat j) = m (p + of_nat j)"
  shows "e820_base m' p = e820_base m p" "e820_len m' p = e820_len m p" "e820_type m' p = e820_type m p"
proof -
  have r: "read32 m' (p + of_nat k) = read32 m (p + of_nat k)" if "k \<le> 20" for k
  proof (rule read32_cong)
    fix i :: nat
    assume "i < 4"
    then show "m' (p + of_nat k + of_nat i) = m (p + of_nat k + of_nat i)" using assms [of "k + i"] that by (simp add: add.assoc)
  qed
  show "e820_base m' p = e820_base m p" using r [of 0] r [of 4] by (simp add: e820_base_def read64_def)
  show "e820_len m' p = e820_len m p" using r [of 8] r [of 12] by (simp add: e820_len_def read64_def add.assoc)
  show "e820_type m' p = e820_type m p" using r [of 16] by (simp add: e820_type_def)
qed

lemma entry_or_null_0:
  assumes "unat mmap + 4 + 24 * n < 4294967296"
  shows "entry_or_null mmap (find P [0 ..< n]) = 0 \<longleftrightarrow> find P [0 ..< n] = None"
proof -
  have "info_entry mmap i \<noteq> 0" if "i < n" for i
  proof -
    have "unat mmap + (4 + 24 * i) < 4294967296" using assms that by simp
    then have "unat (info_entry mmap i) = unat mmap + (4 + 24 * i)"
      unfolding info_entry_def by (simp add: unat_add32 unat_of_nat32 del: of_nat_add of_nat_mult)
    then show ?thesis by auto
  qed
  moreover have "i < n" if "find P [0 ..< n] = Some i" for i using that by (auto simp: find_Some_iff)
  ultimately show ?thesis by (cases "find P [0 ..< n]") (simp_all add: entry_or_null_def)
qed

lemma cprintf_frame_mem: "cprintf_frame s t \<Longrightarrow> \<not> in_region vidmem 131072 a \<Longrightarrow> mem t a = mem s a"
  by (simp add: cprintf_frame_def)

definition scanned :: "memory \<Rightarrow> addr \<Rightarrow> nat \<Rightarrow> 'z pmem_scheme \<Rightarrow> bool" where
  "scanned m mmap k s \<longleftrightarrow> acpi s = entry_or_null mmap (find (acpi_entry m mmap) [0 ..< k]) \<and>
     (acpi s \<noteq> 0 \<longrightarrow> acpi_len s = ucast (e820_len m (acpi s)))"

lemma e820_step:
  fixes s :: "'z pmem_scheme"
  assumes ready: "cons_ready s" and k: "k < n" and top: "unat mmap + 4 + 24 * n < 4294967296"
    and video: "\<And>j. j < 4 + 24 * n \<Longrightarrow> \<not> in_region vidmem 131072 (mmap + of_nat j)"
    and agree: "\<And>j. j < 4 + 24 * n \<Longrightarrow> mem s (mmap + of_nat j) = m (mmap + of_nat j)"
    and sc: "scanned m mmap k s"
  shows "\<exists>u. e820_loop (k # is) mmap (entry_or_null mmap (find (ram_entry m mmap) [0 ..< k])) s =
      e820_loop is mmap (entry_or_null mmap (find (ram_entry m mmap) [0 ..< Suc k])) u \<and>
      cons_ready u \<and> scanned m mmap (Suc k) u \<and> cprintf_frame s (u\<lparr>acpi := acpi s, acpi_len := acpi_len s\<rparr>)"
proof -
  let ?e = "info_entry mmap k" and ?x = "entry_or_null mmap (find (ram_entry m mmap) [0 ..< k])"
  let ?x' = "entry_or_null mmap (find (ram_entry m mmap) [0 ..< Suc k])"
  let ?args = "[CWord (ucast (e820_base (mem s) ?e)), CWord (ucast (drop_bit 32 (e820_base (mem s) ?e))),
        CWord (ucast (e820_len (mem s) ?e)), CWord (ucast (drop_bit 32 (e820_len (mem s) ?e))), CWord (e820_type (mem s) ?e)]"
  obtain out where "format_text ''BIOS-e820: [base=%l length=%l] type=%d\<newline>'' ?args = Some out" by simp
  then obtain t where t: "cprintf (Some ''BIOS-e820: [base=%l length=%l] type=%d\<newline>'') ?args s = Ret () t"
      "cprintf_frame s t" "cons_ready t" by (rule cprintf_seq [OF ready])
  have a: "acpi t = acpi s" "acpi_len t = acpi_len s" using t(2) by (auto intro!: acpi_more_eqD simp: cprintf_frame_def)
  have "mem t (?e + of_nat j) = m (?e + of_nat j)" if "j < 24" for j
  proof -
    have lt: "4 + 24 * k + j < 4 + 24 * n" using that k by linarith
    have eq: "?e + of_nat j = mmap + of_nat (4 + 24 * k + j)" by (simp add: info_entry_def)
    show ?thesis unfolding eq using cprintf_frame_mem [OF t(2) video [OF lt]] agree [OF lt] by simp
  qed
  note e = entry_cong [of "mem t" ?e m, OF this]
  have bounds: "unat mmap + 4 + 24 * k < 4294967296" "unat mmap + 4 + 24 * Suc k < 4294967296" using top k by simp_all
  have x: "(if ?x = 0 \<and> e820_type m ?e = 1 \<and> 0x100000 \<le> e820_base m ?e then ?e else ?x) = ?x'"
    unfolding entry_or_null_0 [OF bounds(1)] find_upt_Suc
    by (auto simp: ram_entry_def entry_or_null_def split: option.split)
  have acp: "acpi_entry m mmap k \<longleftrightarrow> e820_type m ?e = 3 \<or> ?x' \<noteq> 0 \<and> e820_type m ?e = 2"
    unfolding entry_or_null_0 [OF bounds(2)] find_upt_None by (auto simp: acpi_entry_def less_Suc_eq_le)
  let ?c = "acpi s = 0 \<and> acpi_entry m mmap k"
  define u where "u = (if ?c then t\<lparr>acpi := ?e, acpi_len := ucast (e820_len m ?e)\<rparr> else t)"
  have upd: "whenK (acpi t = 0 \<and> (e820_type m ?e = 3 \<or> ?x' \<noteq> 0 \<and> e820_type m ?e = 2))
      (modK (\<lambda>s. s\<lparr>acpi := ?e, acpi_len := ucast (e820_len m ?e)\<rparr>)) t = Ret () u"
    unfolding acp [symmetric] whenK_def by (simp add: a u_def)
  have "e820_loop (k # is) mmap ?x s = e820_loop is mmap ?x' u"
    by (simp only: e820_loop.simps Let_def bindK_Ret thenK_Ret getK_apply t(1) e x upd)
  moreover have "cons_ready u" unfolding u_def using t(3)
    by (auto simp: cons_ready_same_sync [of t "t\<lparr>acpi := ?e, acpi_len := ucast (e820_len m ?e)\<rparr>"] same_sync_eq)
  moreover have "scanned m mmap (Suc k) u"
    using sc entry_or_null_0 [OF bounds(1), of "acpi_entry m mmap"] unfolding scanned_def u_def find_upt_Suc
    by (auto simp: a entry_or_null_def split: option.splits)
  moreover have "u\<lparr>acpi := acpi s, acpi_len := acpi_len s\<rparr> = t" unfolding a [symmetric] u_def by simp
  ultimately show ?thesis using t(2) by auto
qed

lemma cprintf_frame_acpi:
  fixes u v :: "'z pmem_scheme"
  assumes "cprintf_frame u v"
  shows "cprintf_frame (u\<lparr>acpi := a, acpi_len := l\<rparr>) (v\<lparr>acpi := a, acpi_len := l\<rparr>)"
proof -
  let ?w = "u\<lparr>mem := mem v, eflags := eflags v, cr3 := cr3 v, kstk := kstk v, io_log := io_log v,
    dev8 := dev8 v, dev16 := dev16 v, dev32 := dev32 v, cpus := cpus v, locks := locks v,
    cons_locking := cons_locking v, uart := uart v\<rparr>"
  have "v = ?w" using assms by (intro console.equality) (simp_all add: cprintf_frame_def)
  moreover have "console.more (?w\<lparr>acpi := a, acpi_len := l\<rparr>) = console.more (u\<lparr>acpi := a, acpi_len := l\<rparr>)" by (cases u) simp
  ultimately have "console.more (v\<lparr>acpi := a, acpi_len := l\<rparr>) = console.more (u\<lparr>acpi := a, acpi_len := l\<rparr>)" by metis
  moreover have "lock_free lk (w\<lparr>acpi := a, acpi_len := l\<rparr>) = lock_free lk w" "lock_held lk (w\<lparr>acpi := a, acpi_len := l\<rparr>) = lock_held lk w"
    for lk and w :: "'z pmem_scheme" by (simp_all add: lock_free_def lock_held_def)
  ultimately show ?thesis using assms by (simp add: cprintf_frame_def same_sync_def)
qed

lemma e820_loop_returns:
  fixes s :: "'z pmem_scheme"
  assumes "cons_ready s" "k \<le> n" "unat mmap + 4 + 24 * n < 4294967296"
    and "\<And>j. j < 4 + 24 * n \<Longrightarrow> \<not> in_region vidmem 131072 (mmap + of_nat j)"
    and "\<And>j. j < 4 + 24 * n \<Longrightarrow> mem s (mmap + of_nat j) = m (mmap + of_nat j)"
    and "scanned m mmap k s"
  shows "\<exists>t. e820_loop [k ..< n] mmap (entry_or_null mmap (find (ram_entry m mmap) [0 ..< k])) s =
      Ret (entry_or_null mmap (find (ram_entry m mmap) [0 ..< n])) t \<and> cons_ready t \<and> scanned m mmap n t \<and>
      cprintf_frame s (t\<lparr>acpi := acpi s, acpi_len := acpi_len s\<rparr>)"
  using assms(2,1,5,6)
proof (induction "n - k" arbitrary: k s)
  case 0
  then have "k = n" by simp
  then show ?case using 0 by (simp del: upt_Suc)
next
  case (Suc d)
  then have k: "k < n" and d: "d = n - Suc k" by simp_all
  then obtain u where u: "e820_loop (k # [Suc k ..< n]) mmap (entry_or_null mmap (find (ram_entry m mmap) [0 ..< k])) s =
      e820_loop [Suc k ..< n] mmap (entry_or_null mmap (find (ram_entry m mmap) [0 ..< Suc k])) u"
      "cons_ready u" "scanned m mmap (Suc k) u" "cprintf_frame s (u\<lparr>acpi := acpi s, acpi_len := acpi_len s\<rparr>)"
    using e820_step [OF Suc.prems(2) k assms(3,4) Suc.prems(3,4)] by blast
  have "mem u (mmap + of_nat j) = m (mmap + of_nat j)" if "j < 4 + 24 * n" for j
    using cprintf_frame_mem [OF u(4) assms(4) [OF that]] Suc.prems(3) [OF that] by simp
  then obtain t where t: "e820_loop [Suc k ..< n] mmap (entry_or_null mmap (find (ram_entry m mmap) [0 ..< Suc k])) u =
      Ret (entry_or_null mmap (find (ram_entry m mmap) [0 ..< n])) t" "cons_ready t" "scanned m mmap n t"
      "cprintf_frame u (t\<lparr>acpi := acpi u, acpi_len := acpi_len u\<rparr>)"
    using Suc.hyps(1) [of "Suc k" u, OF d _ u(2) _ u(3)] k by (auto simp del: upt_Suc)
  have "cprintf_frame s (t\<lparr>acpi := acpi s, acpi_len := acpi_len s\<rparr>)"
    using cprintf_frame_trans [OF u(4) cprintf_frame_acpi [OF t(4), where a = "acpi s" and l = "acpi_len s"]] by simp
  then show ?case using t u(1) upt_conv_Cons [OF k] by auto
qed

definition pmem_finish :: "addr \<Rightarrow> (unit, 'z pmem_scheme) kern" where
  "pmem_finish x = thenK (bindK (getK (\<lambda>s. (acpi s, acpi_len s))) (\<lambda>(a, l). cprintf (Some ''ACPI Info: 0x%p, len=0x%x\<newline>'') [CWord a, CWord l]))
     (modK (\<lambda>s. s\<lparr>phys_end := ucast (e820_base (mem s) x + e820_len (mem s) x)\<rparr>))"

lemma pmem_init_scans:
  fixes s :: "'z pmem_scheme"
  assumes "cons_ready s" "acpi s = 0" "mmap \<noteq> 0" "n = unat (info_cnt (mem s) mmap)" "n \<noteq> 0"
    and "unat mmap + 4 + 24 * n < 4294967296"
    and video: "\<And>j. j < 4 + 24 * n \<Longrightarrow> \<not> in_region vidmem 131072 (mmap + of_nat j)"
    and cells: "\<And>j. j < 4 + 24 * n \<Longrightarrow> \<not> in_region 0x80012345 4 (mmap + of_nat j) \<and> \<not> in_region 0x80112345 4 (mmap + of_nat j)"
    and on: "a20_line s" and x: "x = entry_or_null mmap (find (ram_entry (mem s) mmap) [0 ..< n])"
  obtains u where "cons_ready u" "scanned (mem s) mmap n u"
    "\<forall>j < 4 + 24 * n. mem u (mmap + of_nat j) = mem s (mmap + of_nat j)"
    "pmem_init mmap s = (if x = 0 then Panic ''extended memory not found'' u
      else if acpi u = 0 then Panic ''acpi memory not found'' u
      else pmem_finish x (u\<lparr>acpi := ucast (e820_base (mem u) (acpi u))\<rparr>))"
proof -
  let ?p = "a20_probed s"
  have same: "mem ?p (mmap + of_nat j) = mem s (mmap + of_nat j)" if "j < 4 + 24 * n" for j
    using cells [OF that] on by (simp add: a20_probed_def phys_cell_def P2V_def write32_other)
  have cnt: "info_cnt m mmap = info_cnt (mem s) mmap" if "\<And>j. j < 4 + 24 * n \<Longrightarrow> m (mmap + of_nat j) = mem s (mmap + of_nat j)" for m
    unfolding info_cnt_def using that by (intro read32_cong) simp
  have ready: "cons_ready ?p" using assms(1) by simp
  obtain t where t: "print (Some ''BIOS-provided physical RAM map:\<newline>'') ?p = Ret () t" "cprintf_frame ?p t"
    by (rule print_returns [OF ready])
  have tmem: "mem t (mmap + of_nat j) = mem s (mmap + of_nat j)" if "j < 4 + 24 * n" for j
    using cprintf_frame_mem [OF t(2) video [OF that]] same [OF that] by simp
  have "cons_ready t" using cons_ready_frame [OF t(2)] ready by simp
  moreover have "scanned (mem s) mmap 0 t"
    using t(2) assms(2) acpi_more_eqD(2) [of t ?p] by (simp add: scanned_def entry_or_null_def cprintf_frame_def)
  ultimately obtain u where u: "e820_loop [0 ..< n] mmap 0 t = Ret x u" "cons_ready u"
      "scanned (mem s) mmap n u" "cprintf_frame t (u\<lparr>acpi := acpi t, acpi_len := acpi_len t\<rparr>)"
    using e820_loop_returns [of t 0 n mmap "mem s", OF _ _ assms(6) video tmem] x by (auto simp: entry_or_null_def)
  have umem: "mem u (mmap + of_nat j) = mem s (mmap + of_nat j)" if "j < 4 + 24 * n" for j
    using cprintf_frame_mem [OF u(4) video [OF that]] tmem [OF that] by simp
  have c: "info_cnt (mem ?p) mmap \<noteq> 0" "unat (info_cnt (mem t) mmap) = n"
    using cnt [of "mem ?p", OF same] cnt [of "mem t", OF tmem] assms(4,5) by auto
  have "pmem_init mmap s = (if x = 0 then Panic ''extended memory not found'' u
      else if acpi u = 0 then Panic ''acpi memory not found'' u
      else pmem_finish x (u\<lparr>acpi := ucast (e820_base (mem u) (acpi u))\<rparr>))"
    by (simp add: pmem_init_def pmem_finish_def a20_enabled_apply on assms(3) c t(1) u(1))
  then show thesis using that u(2,3) umem by blast
qed

lemma pmem_finish_returns:
  fixes s :: "'z pmem_scheme"
  assumes "cons_ready s" "\<And>j. j < 24 \<Longrightarrow> \<not> in_region vidmem 131072 (x + of_nat j)"
  obtains t where "pmem_finish x s = Ret () t" "phys_end t = ucast (e820_base (mem s) x + e820_len (mem s) x)"
    "acpi t = acpi s" "acpi_len t = acpi_len s"
proof -
  obtain out where "format_text ''ACPI Info: 0x%p, len=0x%x\<newline>'' [CWord (acpi s), CWord (acpi_len s)] = Some out" by simp
  then obtain t where t: "cprintf (Some ''ACPI Info: 0x%p, len=0x%x\<newline>'') [CWord (acpi s), CWord (acpi_len s)] s = Ret () t"
    "cprintf_frame s t" by (rule cprintf_seq [OF assms(1)])
  have a: "acpi t = acpi s" "acpi_len t = acpi_len s" using t(2) by (auto intro!: acpi_more_eqD simp: cprintf_frame_def)
  have "e820_base (mem t) x = e820_base (mem s) x" "e820_len (mem t) x = e820_len (mem s) x"
    using entry_cong [of "mem t" x "mem s"] cprintf_frame_mem [OF t(2) assms(2)] by blast+
  then show thesis using t(1) a
    by (intro that [of "t\<lparr>phys_end := ucast (e820_base (mem s) x + e820_len (mem s) x)\<rparr>"]) (simp_all add: pmem_finish_def)
qed

section \<open>A memory map\<close>

text \<open>Conventional memory, extended memory from 1 MiB to 128 MiB, and a reserved region above it.\<close>

definition map_words :: "u32 list" where
  "map_words = [3, 0, 0, 0x9f000, 0, 1, 0, 0x100000, 0, 0x7ee0000, 0, 1, 0, 0x7fe0000, 0, 0x20000, 0, 2, 0]"

definition boot_pmem :: "bool \<Rightarrow> pmem" where
  "boot_pmem on = acpi_state.extend (boot_acpi\<lparr>mem := (\<lambda>a. if a - 0x80009000 < 76
       then ucast (drop_bit (8 * (unat (a - 0x80009000) mod 4)) (map_words ! (unat (a - 0x80009000) div 4))) else 0)\<rparr>)
     \<lparr>phys_end = 0, a20_line = on\<rparr>"

lemma boot_pmem_ready: "cons_ready (boot_pmem on)"
  by (rule cons_ready_unlocked) (simp_all add: lock_free_def boot_pmem_def acpi_state.defs boot_acpi_def kbd.defs
    boot_kbd_defs zero_lock_def zero_cpu_def)

lemma boot_pmem_mem:
  assumes "k < 76"
  shows "mem (boot_pmem on) (0x80009000 + of_nat k) = ucast (drop_bit (8 * (k mod 4)) (map_words ! (k div 4)))"
proof -
  have "0x80009000 + of_nat k - 0x80009000 = (of_nat k :: addr)" by simp
  moreover have "unat (of_nat k :: addr) = k" using assms by (simp add: unat_of_nat32)
  moreover have "(of_nat k :: addr) < 76" using assms by (simp add: word_less_nat_alt unat_of_nat32)
  ultimately show ?thesis by (simp add: boot_pmem_def acpi_state.defs)
qed

lemma read32_bytes:
  assumes "\<And>i. i < 4 \<Longrightarrow> m (a + of_nat i) = ucast (drop_bit (8 * i) v)"
  shows "read32 m a = v"
proof -
  have "read32 m a = read32 (write32 m a v) a"
    using assms [of 0] assms [of 1] assms [of 2] assms [of 3] by (simp add: read32_def write32_def)
  then show ?thesis by simp
qed

lemma boot_pmem_word:
  assumes "w < 19"
  shows "read32 (mem (boot_pmem on)) (0x80009000 + of_nat (4 * w)) = map_words ! w"
proof -
  have b: "mem (boot_pmem on) (0x80009000 + of_nat (4 * w) + of_nat i) = ucast (drop_bit (8 * i) (map_words ! w))" if "i < 4" for i
    using boot_pmem_mem [of "4 * w + i" on] assms that by (simp add: add.assoc)
  show ?thesis by (rule read32_bytes) (rule b)
qed

section \<open>Properties\<close>



end
