(* ===== verification/Ioapic.thy ===== *)
theory Ioapic
  imports Pmem
begin

text \<open>
  The I/O interrupt controller (\<^verbatim>\<open>kernel/drivers/ioapic.c\<close>). Its registers are reached through a
  pair of memory-mapped cells, an index and a data cell; an access to one of them is an
  event of the access history, as port accesses are. What the device holds is read off the
  history: \<open>io_reg\<close> is the value last written to a register.
\<close>

section \<open>Definitions\<close>

record ioapic_state = pmem +
  ioapic :: addr

abbreviation (input) REG_ID :: u32 where "REG_ID \<equiv> 0x00"
abbreviation (input) REG_VER :: u32 where "REG_VER \<equiv> 0x01"
abbreviation (input) REG_TABLE :: u32 where "REG_TABLE \<equiv> 0x10"
abbreviation (input) INT_DISABLED :: u32 where "INT_DISABLED \<equiv> 0x00010000"

definition ioapicread :: "u32 \<Rightarrow> (u32, 'z ioapic_state_scheme) kern" where
  "ioapicread reg = bindK (getK ioapic) (\<lambda>base.
     thenK (log_io (MmioWrite base reg))
     (bindK (getK (\<lambda>s. dev32 s (io_log s) (base + 16))) (\<lambda>v.
      thenK (log_io (MmioRead (base + 16) v)) (retK v))))"

definition ioapicwrite :: "u32 \<Rightarrow> u32 \<Rightarrow> (unit, 'z ioapic_state_scheme) kern" where
  "ioapicwrite reg data = bindK (getK ioapic) (\<lambda>base.
     thenK (log_io (MmioWrite base reg)) (log_io (MmioWrite (base + 16) data)))"

definition ioapicinit :: "(unit, 'z ioapic_state_scheme) kern" where
  "ioapicinit = thenK (bindK (getK acpi_info) (\<lambda>ai. assertK ''ioapicinit'' ''kernel/drivers/ioapic.c'' 54 (num_ioapic ai = 1)))
     (bindK (getK (\<lambda>s. ai_ioapic (acpi_info s) ! 0)) (\<lambda>e.
     thenK (modK (\<lambda>s. s\<lparr>ioapic := ii_addr e\<rparr>))
     (bindK (ioapicread REG_VER) (\<lambda>ver. let maxintr = drop_bit 16 ver AND 0xFF in
     bindK (ioapicread REG_ID) (\<lambda>rid. let ident = drop_bit 24 rid in
     seqK [
       cprintf (Some ''IOAPIC: ioapic_id=%d, acpi_ioapicid=%d, address=0x%p, maxintr=%d\<newline>'')
         [CWord ident, CWord (ucast (ii_id e)), CWord (ii_addr e), CWord maxintr],
       whenK (ident \<noteq> ucast (ii_id e)) (cprintf (Some ''ioapicinit: id isn't equal to ioapicid; not a MP\<newline>'') []),
       forK [0 ..< Suc (unat maxintr)] (\<lambda>i.
         thenK (ioapicwrite (REG_TABLE + 2 * of_nat i) (INT_DISABLED OR (of_nat IDT_IRQ_BASE + of_nat i)))
           (ioapicwrite (REG_TABLE + 2 * of_nat i + 1) 0))])))))"

definition ioapicenable :: "u32 \<Rightarrow> u32 \<Rightarrow> (unit, 'z ioapic_state_scheme) kern" where
  "ioapicenable n cpunum = thenK (ioapicwrite (REG_TABLE + 2 * n) (of_nat IDT_IRQ_BASE + n))
     (ioapicwrite (REG_TABLE + 2 * n + 1) (push_bit 24 cpunum))"

section \<open>Registers\<close>

fun io_sel :: "addr \<Rightarrow> io_event list \<Rightarrow> u32 option" where
  "io_sel b [] = None"
| "io_sel b (MmioWrite a v # l) = (if a = b then Some v else io_sel b l)"
| "io_sel b (e # l) = io_sel b l"

fun io_reg :: "addr \<Rightarrow> io_event list \<Rightarrow> u32 \<Rightarrow> u32 option" where
  "io_reg b [] r = None"
| "io_reg b (MmioWrite a v # l) r = (if a = b + 16 \<and> io_sel b l = Some r then Some v else io_reg b l r)"
| "io_reg b (e # l) r = io_reg b l r"

lemma ioapicwrite_apply:
  "\<exists>t. ioapicwrite reg data s = Ret () t \<and> only_log s t \<and>
     io_reg (ioapic s) (io_log t) = (io_reg (ioapic s) (io_log s))(reg := Some data)"
  by (auto simp: ioapicwrite_def fun_eq_iff)

lemma only_log_trans: "only_log s t \<Longrightarrow> only_log t u \<Longrightarrow> only_log s u"
  unfolding only_log_def by (metis machine.update_convs(5) machine.surjective)

lemma only_log_ioapic:
  fixes s t :: "'z ioapic_state_scheme"
  assumes "only_log s t"
  shows "ioapic t = ioapic s" "acpi_info t = acpi_info s" "uart t = uart s" "cons_ready t = cons_ready s" "isr_table t = isr_table s"
proof -
  note eq = assms [unfolded only_log_def]
  show "ioapic t = ioapic s" "acpi_info t = acpi_info s" "uart t = uart s" "isr_table t = isr_table s"
    by (subst eq, simp)+
  show "cons_ready t = cons_ready s" by (subst eq, simp)
qed

lemma ioapicwrite_seq:
  obtains t where "ioapicwrite reg data s = Ret () t" "only_log s t" "ioapic t = ioapic s"
    "io_reg (ioapic s) (io_log t) = (io_reg (ioapic s) (io_log s))(reg := Some data)"
  using ioapicwrite_apply [of reg data s] only_log_ioapic(1) [of s] by blast

text \<open>The two registers of an entry of the redirection table, as one write.\<close>

definition redirect :: "u32 \<Rightarrow> u32 \<Rightarrow> u32 \<Rightarrow> (u32 \<Rightarrow> u32 option) \<Rightarrow> u32 \<Rightarrow> u32 option" where
  "redirect i lo hi f = f(0x10 + 2 * i := Some lo, 0x10 + 2 * i + 1 := Some hi)"

lemma redirect_entry:
  "\<exists>t. thenK (ioapicwrite (0x10 + 2 * i) lo) (ioapicwrite (0x10 + 2 * i + 1) hi) s = Ret () t \<and> only_log s t \<and>
     io_reg (ioapic s) (io_log t) = redirect i lo hi (io_reg (ioapic s) (io_log s))"
proof -
  obtain t where t: "ioapicwrite (0x10 + 2 * i) lo s = Ret () t" "only_log s t" "ioapic t = ioapic s"
    "io_reg (ioapic s) (io_log t) = (io_reg (ioapic s) (io_log s))(0x10 + 2 * i := Some lo)" by (rule ioapicwrite_seq)
  obtain u where "ioapicwrite (0x10 + 2 * i + 1) hi t = Ret () u" "only_log t u"
    "io_reg (ioapic t) (io_log u) = (io_reg (ioapic t) (io_log t))(0x10 + 2 * i + 1 := Some hi)" by (rule ioapicwrite_seq)
  then show ?thesis using t only_log_trans [of s t u] by (auto simp: redirect_def)
qed

lemma table_regs_distinct:
  assumes "i < 256" "j < 256"
  shows "(0x10 + 2 * of_nat i :: u32) \<noteq> 0x10 + 2 * of_nat j + 1"
    "(0x10 + 2 * of_nat i :: u32) = 0x10 + 2 * of_nat j \<longleftrightarrow> i = j"
proof -
  have u: "unat (0x10 + 2 * of_nat k :: u32) = 16 + 2 * k" "unat (0x10 + 2 * of_nat k + 1 :: u32) = 17 + 2 * k" if "k < 256" for k
  proof -
    have "(0x10 + 2 * of_nat k :: u32) = of_nat (16 + 2 * k)" "(0x10 + 2 * of_nat k + 1 :: u32) = of_nat (17 + 2 * k)" by simp_all
    then show "unat (0x10 + 2 * of_nat k :: u32) = 16 + 2 * k" "unat (0x10 + 2 * of_nat k + 1 :: u32) = 17 + 2 * k"
      using that by (simp_all only: unat_of_nat32)
  qed
  show "(0x10 + 2 * of_nat i :: u32) \<noteq> 0x10 + 2 * of_nat j + 1"
  proof
    assume "(0x10 + 2 * of_nat i :: u32) = 0x10 + 2 * of_nat j + 1"
    then have "16 + 2 * i = 17 + 2 * j" using u(1) [OF assms(1)] u(2) [OF assms(2)] by metis
    then show False by presburger
  qed
  show "(0x10 + 2 * of_nat i :: u32) = 0x10 + 2 * of_nat j \<longleftrightarrow> i = j"
    using u(1) [OF assms(1)] u(1) [OF assms(2)] by (metis add_left_cancel mult_cancel1 numeral_eq_iff zero_neq_numeral)
qed

definition masked_entry :: "addr \<Rightarrow> io_event list \<Rightarrow> nat \<Rightarrow> bool" where
  "masked_entry b l i \<longleftrightarrow> io_reg b l (0x10 + 2 * of_nat i) = Some (0x10000 OR (32 + of_nat i)) \<and>
     io_reg b l (0x10 + 2 * of_nat i + 1) = Some 0"

lemma mask_entries:
  fixes s :: "'z ioapic_state_scheme"
  assumes "k \<le> 256"
  shows "\<exists>t. forK [0 ..< k] (\<lambda>i. thenK (ioapicwrite (0x10 + 2 * of_nat i) (0x10000 OR (32 + of_nat i)))
      (ioapicwrite (0x10 + 2 * of_nat i + 1) 0)) s = Ret () t \<and> only_log s t \<and> (\<forall>i < k. masked_entry (ioapic s) (io_log t) i)"
  using assms
proof (induction k)
  case (Suc k)
  let ?f = "\<lambda>i. thenK (ioapicwrite (0x10 + 2 * of_nat i) (0x10000 OR (32 + of_nat i))) (ioapicwrite (0x10 + 2 * of_nat i + 1) 0)
    :: (unit, 'z ioapic_state_scheme) kern"
  obtain t where t: "forK [0 ..< k] ?f s = Ret () t" "only_log s t" "\<forall>i < k. masked_entry (ioapic s) (io_log t) i"
    using Suc by auto
  obtain u where u: "?f k t = Ret () u" "only_log t u"
    "io_reg (ioapic t) (io_log u) = redirect (of_nat k) (0x10000 OR (32 + of_nat k)) 0 (io_reg (ioapic t) (io_log t))"
    using redirect_entry [of "of_nat k" _ 0 t] by blast
  have "masked_entry (ioapic s) (io_log u) i" if "i < Suc k" for i
  proof -
    have b: "i < 256" "k < 256" using that Suc.prems by simp_all
    have "(0x10 + 2 * of_nat i + 1 :: u32) = 0x10 + 2 * of_nat k + 1 \<longleftrightarrow> i = k" using table_regs_distinct(2) [OF b] by simp
    then show ?thesis using u(3) t(3) that table_regs_distinct [OF b] table_regs_distinct(1) [OF b(2,1)] only_log_ioapic(1) [OF t(2)]
      by (auto simp: masked_entry_def redirect_def less_Suc_eq)
  qed
  moreover have "[0 ..< Suc k] = [0 ..< k] @ [k]" by simp
  ultimately show ?case using t(1) u(1) only_log_trans [OF t(2) u(2)] by (simp only: forK_append forK.simps thenK_skip thenK_Ret) blast
qed simp

lemma ioapicread_apply:
  "ioapicread reg s = Ret (dev32 s (MmioWrite (ioapic s) reg # io_log s) (ioapic s + 16))
     (s\<lparr>io_log := MmioRead (ioapic s + 16) (dev32 s (MmioWrite (ioapic s) reg # io_log s) (ioapic s + 16)) #
        MmioWrite (ioapic s) reg # io_log s\<rparr>)"
  by (simp add: ioapicread_def)

text \<open>A field that later records add to the console's is left alone by console output.\<close>

lemma frame_field:
  fixes f :: "'z console_scheme \<Rightarrow> 'b"
  assumes "cprintf_frame s t"
    and "\<And>(s :: 'z console_scheme) m e c k l d8 d16 d32 cp lk cl u. f (s\<lparr>mem := m, eflags := e, cr3 := c, kstk := k, io_log := l,
      dev8 := d8, dev16 := d16, dev32 := d32, cpus := cp, locks := lk, cons_locking := cl, uart := u\<rparr>) = f s"
  shows "f t = f s"
proof -
  have "t = s\<lparr>mem := mem t, eflags := eflags t, cr3 := cr3 t, kstk := kstk t, io_log := io_log t,
      dev8 := dev8 t, dev16 := dev16 t, dev32 := dev32 t, cpus := cpus t, locks := locks t,
      cons_locking := cons_locking t, uart := uart t\<rparr>"
    using assms(1) by (intro console.equality) (simp_all add: cprintf_frame_def)
  then show ?thesis using assms(2) by metis
qed

lemma frame_ioapic:
  fixes s t :: "'z ioapic_state_scheme"
  assumes "cprintf_frame s t"
  shows "ioapic t = ioapic s" "acpi_info t = acpi_info s" "isr_table t = isr_table s"
  by (rule frame_field [OF assms], simp)+

definition ioapic_maxintr :: "'z ioapic_state_scheme \<Rightarrow> addr \<Rightarrow> nat" where
  "ioapic_maxintr s base = unat (drop_bit 16 (dev32 s (MmioWrite base 1 # io_log s) (base + 16)) AND 0xFF)"

lemma ioapicinit_returns:
  fixes s :: "'z ioapic_state_scheme"
  assumes "cons_ready s" "num_ioapic (acpi_info s) = 1" "base = ii_addr (ai_ioapic (acpi_info s) ! 0)"
  obtains t where "ioapicinit s = Ret () t" "ioapic t = base" "acpi_info t = acpi_info s" "isr_table t = isr_table s" "cons_ready t"
    "\<forall>i \<le> ioapic_maxintr s base. masked_entry base (io_log t) i"
proof -
  define e where "e = ai_ioapic (acpi_info s) ! 0"
  define ver where "ver = dev32 s (MmioWrite base 1 # io_log s) (base + 16)"
  define s1 where "s1 = s\<lparr>ioapic := base\<rparr>"
  define s2 where "s2 = s1\<lparr>io_log := MmioRead (base + 16) ver # MmioWrite base 1 # io_log s\<rparr>"
  define rid where "rid = dev32 s (MmioWrite base 0 # io_log s2) (base + 16)"
  define s3 where "s3 = s2\<lparr>io_log := MmioRead (base + 16) rid # MmioWrite base 0 # io_log s2\<rparr>"
  let ?mx = "drop_bit 16 ver AND 0xFF" and ?id = "drop_bit 24 rid"
  have f: "ioapic s3 = base" "acpi_info s3 = acpi_info s" "isr_table s3 = isr_table s"
    by (simp_all add: s3_def s2_def s1_def)
  have ready: "cons_ready s3" unfolding s3_def s2_def s1_def using assms(1)
    by (simp add: cons_ready_same_sync [of s "s\<lparr>ioapic := base\<rparr>"] same_sync_eq)
  obtain out where "format_text ''IOAPIC: ioapic_id=%d, acpi_ioapicid=%d, address=0x%p, maxintr=%d\<newline>''
      [CWord ?id, CWord (ucast (ii_id e)), CWord (ii_addr e), CWord ?mx] = Some out" by simp
  then obtain t where t: "cprintf (Some ''IOAPIC: ioapic_id=%d, acpi_ioapicid=%d, address=0x%p, maxintr=%d\<newline>'')
      [CWord ?id, CWord (ucast (ii_id e)), CWord (ii_addr e), CWord ?mx] s3 = Ret () t" "cprintf_frame s3 t" "cons_ready t"
    by (rule cprintf_seq [OF ready])
  obtain out where "format_text ''ioapicinit: id isn't equal to ioapicid; not a MP\<newline>'' [] = Some out" by simp
  then obtain u' where u': "cprintf (Some ''ioapicinit: id isn't equal to ioapicid; not a MP\<newline>'') [] t = Ret () u'" "cprintf_frame t u'"
    by (rule cprintf_seq [OF t(3)])
  define u where "u = (if ?id \<noteq> ucast (ii_id e) then u' else t)"
  have u: "whenK (?id \<noteq> ucast (ii_id e)) (cprintf (Some ''ioapicinit: id isn't equal to ioapicid; not a MP\<newline>'') []) t = Ret () u"
      "cprintf_frame s3 u" using u' cprintf_frame_trans [OF t(2) u'(2)] t(2) by (simp_all add: u_def whenK_def)
  have "?mx \<le> 0xFF" by (rule word_and_le1)
  then have "Suc (unat ?mx) \<le> 256" by (simp add: word_le_nat_alt)
  then obtain v where v: "forK [0 ..< Suc (unat ?mx)] (\<lambda>i. thenK (ioapicwrite (0x10 + 2 * of_nat i) (0x10000 OR (32 + of_nat i)))
      (ioapicwrite (0x10 + 2 * of_nat i + 1) 0)) u = Ret () v" "only_log u v" "\<forall>i < Suc (unat ?mx). masked_entry (ioapic u) (io_log v) i"
    using mask_entries [of "Suc (unat ?mx)" u] by blast
  have r: "ioapicread 1 s1 = Ret ver s2" "ioapicread 0 s2 = Ret rid s3"
    by (simp_all add: ioapicread_apply s1_def s2_def s3_def ver_def rid_def)
  have a: "bindK (getK acpi_info) (\<lambda>ai. assertK ''ioapicinit'' ''kernel/drivers/ioapic.c'' 54 (num_ioapic ai = 1)) s = Ret () s"
    using assms(2) by simp
  have m: "modK (\<lambda>s. s\<lparr>ioapic := ii_addr e\<rparr>) s = Ret () s1" using assms(3) by (simp add: s1_def e_def)
  have "ioapicinit s = Ret () v"
    by (simp only: ioapicinit_def a m e_def [symmetric] bindK_Ret thenK_Ret getK_apply r Let_def seqK.simps t(1) u(1) v(1)
      retK_apply of_nat_numeral)
  moreover have "ioapic u = base" "cons_ready u" "acpi_info u = acpi_info s" "isr_table u = isr_table s"
    using frame_ioapic [OF u(2)] f cons_ready_frame [OF u(2)] ready by simp_all
  ultimately show thesis using v(3) only_log_ioapic [OF v(2)]
    by (intro that [of v]) (simp_all add: ioapic_maxintr_def ver_def)
qed

lemma ioapicinit_asserts:
  fixes s :: "'z ioapic_state_scheme"
  assumes "cons_ready s" "num_ioapic (acpi_info s) \<noteq> 1"
  shows "\<exists>t. ioapicinit s = Panic ''assertion failed'' t"
proof -
  obtain t where "assertK ''ioapicinit'' ''kernel/drivers/ioapic.c'' 54 False s = Panic ''assertion failed'' t"
    using assertK_False [OF assms(1)] by blast
  then show ?thesis using assms(2) by (simp add: ioapicinit_def)
qed

definition boot_ioapic :: ioapic_state where
  "boot_ioapic = pmem.extend ((boot_pmem True)\<lparr>dev32 := (\<lambda>_ _. 0x00170020), acpi_info := (acpi_info boot_acpi)\<lparr>num_ioapic := 1,
     ai_ioapic := replicate 4 \<lparr>ii_id = 0, ii_addr = 0xfec00000, ii_base = 0\<rparr>\<rparr>\<rparr>) \<lparr>ioapic = 0\<rparr>"

lemmas boot_ioapic_defs = boot_ioapic_def pmem.defs boot_pmem_def acpi_state.defs boot_acpi_def kbd.defs boot_kbd_defs

lemma boot_ioapic_ready: "cons_ready boot_ioapic"
  by (rule cons_ready_unlocked) (simp_all add: lock_free_def boot_ioapic_defs zero_lock_def zero_cpu_def)

section \<open>Properties\<close>

text \<open>C23: the redirection table. With one controller reported, \<open>ioapicinit\<close> leaves every entry
  the device has masked, with its vector set and no destination. Enabling an interrupt then
  sets exactly the two registers of its entry: the vector, unmasked, and the processor it is
  sent to; every other entry stays masked.\<close>

theorem ioapic_redirection:
  fixes s :: "'z ioapic_state_scheme"
  assumes "cons_ready s" "num_ioapic (acpi_info s) = 1" "base = ii_addr (ai_ioapic (acpi_info s) ! 0)"
    and "mx = ioapic_maxintr s base" "n \<le> mx"
  shows "\<exists>t u. ioapicinit s = Ret () t \<and> (\<forall>i \<le> mx. masked_entry base (io_log t) i) \<and>
    ioapicenable (of_nat n) c t = Ret () u \<and> io_reg base (io_log u) (0x10 + 2 * of_nat n) = Some (32 + of_nat n) \<and>
    io_reg base (io_log u) (0x10 + 2 * of_nat n + 1) = Some (push_bit 24 c) \<and>
    (\<forall>i \<le> mx. i \<noteq> n \<longrightarrow> masked_entry base (io_log u) i)"
proof -
  obtain t where t: "ioapicinit s = Ret () t" "ioapic t = base" "\<forall>i \<le> mx. masked_entry base (io_log t) i"
    using ioapicinit_returns [OF assms(1-3)] assms(4) by metis
  obtain u where u: "ioapicenable (of_nat n) c t = Ret () u"
    "io_reg base (io_log u) = redirect (of_nat n) (32 + of_nat n) (push_bit 24 c) (io_reg base (io_log t))"
    using redirect_entry [of "of_nat n" "32 + of_nat n" "push_bit 24 c" t] t(2) by (auto simp: ioapicenable_def)
  have "drop_bit 16 (dev32 s (MmioWrite base 1 # io_log s) (base + 16)) AND 0xFF \<le> 0xFF" by (rule word_and_le1)
  then have mx: "mx < 256" unfolding assms(4) ioapic_maxintr_def by (simp add: word_le_nat_alt)
  have "masked_entry base (io_log u) i" if "i \<le> mx" "i \<noteq> n" for i
  proof -
    have b: "i < 256" "n < 256" using that assms(5) mx by simp_all
    have "(0x10 + 2 * of_nat i + 1 :: u32) \<noteq> 0x10 + 2 * of_nat n + 1" using table_regs_distinct(2) [OF b] that by simp
    then show ?thesis using u(2) t(3) that table_regs_distinct [OF b] table_regs_distinct(1) [OF b(2,1)]
      by (auto simp: masked_entry_def redirect_def)
  qed
  moreover have "(0x10 + 2 * of_nat n :: u32) \<noteq> 0x10 + 2 * of_nat n + 1"
    using mx assms(5) by (intro table_regs_distinct(1)) simp_all
  ultimately show ?thesis using t u by (auto simp: redirect_def)
qed

theorem ioapic_redirection_witness:
  "\<exists>t u. ioapicinit boot_ioapic = Ret () t \<and> masked_entry 0xfec00000 (io_log t) 4 \<and> ioapicenable 4 0 t = Ret () u \<and>
     io_reg 0xfec00000 (io_log u) 0x18 = Some 36 \<and> masked_entry 0xfec00000 (io_log u) 23"
proof -
  have s: "num_ioapic (acpi_info boot_ioapic) = 1" "ii_addr (ai_ioapic (acpi_info boot_ioapic) ! 0) = 0xfec00000"
    "dev32 boot_ioapic = (\<lambda>_ _. 0x00170020)" by (simp_all add: boot_ioapic_defs)
  have "(drop_bit 16 (0x00170020 :: u32)) AND 0xFF = 23" by simp
  then have mx: "23 = ioapic_maxintr boot_ioapic 0xfec00000" by (simp add: ioapic_maxintr_def s(3))
  obtain t u where "ioapicinit boot_ioapic = Ret () t" "\<forall>i \<le> 23. masked_entry 0xfec00000 (io_log t) i"
    "ioapicenable (of_nat 4) 0 t = Ret () u" "io_reg 0xfec00000 (io_log u) (0x10 + 2 * of_nat 4) = Some (32 + of_nat 4)"
    "\<forall>i \<le> 23. i \<noteq> 4 \<longrightarrow> masked_entry 0xfec00000 (io_log u) i"
    using ioapic_redirection [OF boot_ioapic_ready s(1) s(2) [symmetric] mx, of 4 0] by auto
  then show ?thesis by auto
qed

end
