(* ===== verification/Uart.thy ===== *)
theory Uart
  imports Ioapic
begin

text \<open>
  The serial port as a device with an interrupt (\<^verbatim>\<open>kernel/drivers/uart.c\<close>; its output routine is in
  the theory of the console): detection and set-up, and the interrupt routine, which echoes
  a received byte.
\<close>

section \<open>Definitions\<close>

definition com1_interrupt_handler :: "interrupt_state \<Rightarrow> (unit, 'z console_scheme) kern" where
  "com1_interrupt_handler state = bindK uartgetc uartputc"

definition uartinit :: "(unit, 'z ioapic_state_scheme) kern" where
  "uartinit = thenK (seqK [
       isr_register (of_nat (IDT_IRQ_BASE + IDT_IRQ_COM1)) Com1Handler,
       outb (COM1 + 2) 0,
       outb (COM1 + 3) 0x80,
       outb (COM1 + 0) (of_int (115200 div 9600)),
       outb (COM1 + 1) 0,
       outb (COM1 + 3) 0x03,
       outb (COM1 + 4) 0,
       outb (COM1 + 1) 0x01])
     (bindK (inb (COM1 + 5)) (\<lambda>st.
      if st = 0xFF then retK ()
      else seqK [
        modK (\<lambda>s. s\<lparr>uart := 1\<rparr>),
        bindK (inb (COM1 + 2)) (\<lambda>_. retK ()),
        bindK (inb (COM1 + 0)) (\<lambda>_. retK ()),
        ioapicenable (of_nat IDT_IRQ_COM1) 0,
        forK ''xv6...\<newline>'' (\<lambda>p. uartputc (of_char p))]))"

section \<open>Set-up\<close>

lemma seqK_last: "seqK [a, b, c, d, e] = thenK (seqK [a, b, c, d]) e"
  using seqK_append [of "[a, b, c, d]" "[e]"] by (simp add: thenK_skip)

definition uart_setup :: "io_event list" where
  "uart_setup = [OutB 0x3f9 1, OutB 0x3fc 0, OutB 0x3fb 3, OutB 0x3f9 0, OutB 0x3f8 12, OutB 0x3fb 0x80, OutB 0x3fa 0]"

lemma emits_bytes: "emits (forK cs (\<lambda>p. uartputc (of_char p))) (text_bytes cs)"
  using emits_forK [of cs "\<lambda>p. uartputc (of_char p)" "\<lambda>c. [of_char c]"]
  by (simp add: emits_uartputc text_bytes_def concat_map_singleton)

lemma con_frame_fields:
  fixes s t :: "'z ioapic_state_scheme"
  assumes "con_frame s t"
  shows "ioapic t = ioapic s" "acpi_info t = acpi_info s" "isr_table t = isr_table s" "uart t = uart s"
  using frame_ioapic [OF con_frame_cprintf_frame [OF assms]] con_frame_uart [OF assms] by simp_all

lemma ioapicenable_log:
  "ioapicenable n c s = Ret () (s\<lparr>io_log := MmioWrite (ioapic s + 16) (push_bit 24 c) # MmioWrite (ioapic s) (0x10 + 2 * n + 1) #
     MmioWrite (ioapic s + 16) (32 + n) # MmioWrite (ioapic s) (0x10 + 2 * n) # io_log s\<rparr>)"
  by (simp add: ioapicenable_def ioapicwrite_def)

section \<open>Properties\<close>

text \<open>C38: \<open>uartinit\<close> claims the interrupt vector of the serial line, programs 9600 baud (the divisor
  12, sent to the data port in its divisor mode), and then goes by the line status: the value
  \<open>0xFF\<close> means that there is no port, nothing else happens, and the console stays on the screen
  alone; otherwise the port is marked present and the greeting is the first text on it.\<close>

theorem uartinit_spec:
  fixes s :: "'z ioapic_state_scheme"
  assumes "isr_table s 36 = None" "st = dev8 s (uart_setup @ io_log s) 0x3fd"
  shows "\<exists>t. uartinit s = Ret () t \<and> isr_table t = (isr_table s)(36 \<mapsto> Com1Handler) \<and>
    (if st = 0xFF then uart t = uart s \<and> serial_out (io_log t) = serial_out (io_log s) @ [12]
     else uart t = 1 \<and> serial_out (io_log t) = serial_out (io_log s) @ 12 # text_bytes ''xv6...\<newline>'')"
proof -
  define s1 where "s1 = s\<lparr>isr_table := (isr_table s)(36 \<mapsto> Com1Handler), io_log := uart_setup @ io_log s\<rparr>"
  have set_up: "seqK [isr_register (of_nat (IDT_IRQ_BASE + IDT_IRQ_COM1)) Com1Handler, outb (COM1 + 2) 0, outb (COM1 + 3) 0x80,
      outb (COM1 + 0) (of_int (115200 div 9600)), outb (COM1 + 1) 0, outb (COM1 + 3) 0x03, outb (COM1 + 4) 0, outb (COM1 + 1) 0x01] s =
    Ret () s1" using assms(1) by (simp add: s1_def uart_setup_def)
  have sp: "dev8 s1 (io_log s1) 0x3fd = st" using assms(2) by (simp add: s1_def)
  define s2 where "s2 = s1\<lparr>io_log := InB 0x3fd st # io_log s1\<rparr>"
  have status: "inb (COM1 + 5) s1 = Ret st s2" using sp by (simp add: s2_def)
  have out: "serial_out (io_log s2) = serial_out (io_log s) @ [12]" by (simp add: s2_def s1_def uart_setup_def)
  show ?thesis
  proof (cases "st = 0xFF")
    case True
    have "uartinit s = Ret () s2" using status True by (simp only: uartinit_def thenK_Ret set_up bindK_Ret simp_thms if_True retK_apply)
    then show ?thesis using True out by (simp add: s2_def s1_def)
  next
    case False
    obtain s3 where s3: "seqK [modK (\<lambda>s. s\<lparr>uart := 1\<rparr>), bindK (inb (COM1 + 2)) (\<lambda>_. retK ()), bindK (inb (COM1 + 0)) (\<lambda>_. retK ()),
        ioapicenable (of_nat IDT_IRQ_COM1) 0] s2 = Ret () s3" "uart s3 = 1" "isr_table s3 = (isr_table s)(36 \<mapsto> Com1Handler)"
        "serial_out (io_log s3) = serial_out (io_log s2)"
      by (simp add: ioapicenable_log s2_def s1_def)
    obtain t where t: "forK ''xv6...\<newline>'' (\<lambda>p. uartputc (of_char p)) s3 = Ret () t" "con_frame s3 t"
        "serial_out (io_log t) = serial_out (io_log s3) @ (if uart s3 \<noteq> 0 then text_bytes ''xv6...\<newline>'' else [])"
      by (rule emits_Ret [OF emits_bytes])
    have "uartinit s = Ret () t"
      using status False t(1) unfolding uartinit_def seqK_last by (simp only: thenK_Ret set_up bindK_Ret if_False s3(1))
    then show ?thesis using False t(3) s3 out con_frame_fields [OF t(2)] by simp
  qed
qed

theorem uartinit_spec_witness:
  "(\<exists>t. uartinit boot_ioapic = Ret () t \<and> uart t = 1) \<and>
   (\<exists>t. uartinit (boot_ioapic\<lparr>uart := 0, dev8 := (\<lambda>_ _. 0xFF)\<rparr>) = Ret () t \<and> uart t = 0)"
proof -
  have i: "isr_table boot_ioapic 36 = None" "isr_table (boot_ioapic\<lparr>uart := 0, dev8 := (\<lambda>_ _. 0xFF)\<rparr>) 36 = None"
    by (simp_all add: boot_ioapic_defs)
  have d: "0x20 = dev8 boot_ioapic (uart_setup @ io_log boot_ioapic) 0x3fd" by (simp add: boot_ioapic_defs)
  have "\<exists>t. uartinit boot_ioapic = Ret () t \<and> uart t = 1" using uartinit_spec [OF i(1) d] by auto
  moreover have "\<exists>t. uartinit (boot_ioapic\<lparr>uart := 0, dev8 := (\<lambda>_ _. 0xFF)\<rparr>) = Ret () t \<and> uart t = 0"
    using uartinit_spec [OF i(2) refl] by auto
  ultimately show ?thesis by blast
qed

end
