(* ===== verification/Paging.thy ===== *)
theory Paging
  imports Kalloc
begin

text \<open>
  Page tables (\<^verbatim>\<open>kernel/paging.c\<close>): the two-level table walk, mapping and unmapping of ranges,
  and the construction and destruction of address spaces. Tables are frames of the allocator
  read and written as memory. Pointers that may be null are addresses with 0 for null. The
  loop of \<open>mappages\<close> visits each page at most once, so fuel for \<open>2^20\<close> pages is enough
  (\<open>mappages_loop_refines\<close> does not depend on running out of it); so does the loop of
  \<open>deallocuvm\<close>.

  The address space a page directory describes is the partial function \<open>vmem\<close> from page
  numbers to page table entries, which is what the memory management unit reads;
  \<open>vm_ok\<close> is the well-formedness of the tables.
\<close>

section \<open>Definitions\<close>

definition entry_ptr :: "addr \<Rightarrow> u32 \<Rightarrow> addr" where
  "entry_ptr base i = base + 4 * i"

definition walkpgdir :: "addr \<Rightarrow> u32 \<Rightarrow> bool \<Rightarrow> (addr, 'z kmem_scheme) kern" where
  "walkpgdir pgdir va alloc = (let pde = entry_ptr pgdir (PDX va) in
     bindK (getK (\<lambda>s. read32 (mem s) pde)) (\<lambda>e.
       if e AND PTE_P \<noteq> 0 then retK (entry_ptr (P2V (PTE_ADDR e)) (PTX va))
       else if \<not> alloc then retK 0
       else bindK kalloc (\<lambda>pgtab.
         if pgtab = 0 then retK 0
         else thenK (upd_mem (\<lambda>m. snd (memset m pgtab 0 PGSIZE)))
             (thenK (upd_mem (\<lambda>m. write32 m pde (V2P pgtab OR PTE_P OR PTE_W OR PTE_U)))
             (retK (entry_ptr pgtab (PTX va)))))))"

primrec mappages_loop :: "nat \<Rightarrow> addr \<Rightarrow> u32 \<Rightarrow> u32 \<Rightarrow> u32 \<Rightarrow> u32 \<Rightarrow> (int, 'z kmem_scheme) kern" where
  "mappages_loop 0 pgdir a last_page pa perm = hangK"
| "mappages_loop (Suc n) pgdir a last_page pa perm =
     bindK (walkpgdir pgdir a True) (\<lambda>pte.
       if pte = 0 then retK (- 1)
       else bindK (getK (\<lambda>s. read32 (mem s) pte)) (\<lambda>e.
         if e AND PTE_P \<noteq> 0 then panicK ''remap''
         else thenK (upd_mem (\<lambda>m. write32 m pte (pa OR perm OR PTE_P)))
           (if a = last_page then retK 0
            else mappages_loop n pgdir (a + PGSIZE) last_page (pa + PGSIZE) perm)))"

definition mappages :: "addr \<Rightarrow> u32 \<Rightarrow> u32 \<Rightarrow> u32 \<Rightarrow> u32 \<Rightarrow> (int, 'z kmem_scheme) kern" where
  "mappages pgdir va sz pa perm =
     mappages_loop 1048576 pgdir (PGROUNDDOWN va) (PGROUNDDOWN (va + sz - 1)) pa perm"

primrec deallocuvm_loop :: "nat \<Rightarrow> addr \<Rightarrow> u32 \<Rightarrow> u32 \<Rightarrow> (unit, 'z kmem_scheme) kern" where
  "deallocuvm_loop 0 pgdir a oldsz = hangK"
| "deallocuvm_loop (Suc n) pgdir a oldsz =
     (if a < oldsz then
        bindK (walkpgdir pgdir a False) (\<lambda>pte.
          if pte = 0 then deallocuvm_loop n pgdir (PGADDR (PDX a + 1) 0 0 - PGSIZE + PGSIZE) oldsz
          else bindK (getK (\<lambda>s. read32 (mem s) pte)) (\<lambda>e.
            if e AND PTE_P \<noteq> 0 then
              (if PTE_ADDR e = 0 then panicK ''kfree''
               else thenK (kfree (P2V (PTE_ADDR e))) (thenK (upd_mem (\<lambda>m. write32 m pte 0))
                 (deallocuvm_loop n pgdir (a + PGSIZE) oldsz)))
            else deallocuvm_loop n pgdir (a + PGSIZE) oldsz))
      else retK ())"

definition deallocuvm :: "addr \<Rightarrow> u32 \<Rightarrow> u32 \<Rightarrow> (u32, 'z kmem_scheme) kern" where
  "deallocuvm pgdir oldsz newsz =
     (if newsz \<ge> oldsz then retK oldsz
      else thenK (deallocuvm_loop 1048577 pgdir (PGROUNDUP newsz) oldsz) (retK newsz))"

definition free_table :: "addr \<Rightarrow> nat \<Rightarrow> (unit, 'z kmem_scheme) kern" where
  "free_table pgdir i = bindK (getK (\<lambda>s. read32 (mem s) (entry_ptr pgdir (of_nat i)))) (\<lambda>e.
     whenK (e AND PTE_P \<noteq> 0) (kfree (P2V (PTE_ADDR e))))"

definition freevm :: "addr \<Rightarrow> (unit, 'z kmem_scheme) kern" where
  "freevm pgdir =
     (if pgdir = 0 then panicK ''freevm: no pgdir''
      else seqK [
        bindK (deallocuvm pgdir KERNBASE 0) (\<lambda>_. retK ()),
        forK [0 ..< NPDENTRIES] (free_table pgdir),
        kfree pgdir])"

definition inituvm :: "addr \<Rightarrow> addr \<Rightarrow> u32 \<Rightarrow> (unit, 'z kmem_scheme) kern" where
  "inituvm pgdir init sz =
     (if sz \<ge> PGSIZE then panicK ''inituvm: more than a page''
      else bindK kalloc (\<lambda>frame.
        thenK (upd_mem (\<lambda>m. snd (memset m frame 0 PGSIZE)))
        (bindK (mappages pgdir 0 PGSIZE (V2P frame) (PTE_W OR PTE_U)) (\<lambda>_.
        upd_mem (\<lambda>m. snd (memmove m frame init sz))))))"

section \<open>Entries of a table\<close>

lemma entry_ptr_nat: "entry_ptr base i = base + of_nat (4 * unat i)"
  by (simp add: entry_ptr_def)

definition entry_at :: "addr \<Rightarrow> nat \<Rightarrow> addr" where
  "entry_at base i = base + of_nat (4 * i)"

lemma entry_ptr_at: "entry_ptr base i = entry_at base (unat i)"
  by (simp add: entry_ptr_nat entry_at_def)

lemma in_page_iff:
  assumes "aligned 4096 f"
  shows "in_region f 4096 a \<longleftrightarrow> PGROUNDDOWN a = f"
proof
  assume r: "in_region f 4096 a"
  obtain k where k: "unat f = 4096 * k" using assms by (auto simp: aligned_def elim: dvdE)
  then have "unat a = unat f + unat (a - f)"
    using r unat_lt32 [of f] unat_lt32 [of a] by (auto simp: in_region_def unat_sub32 split: if_splits)
  then have "unat (PGROUNDDOWN a) = unat f"
    using r k by (simp add: unat_PGROUNDDOWN in_region_def mod_mult_self2 add.commute)
  then show "PGROUNDDOWN a = f" by (simp add: word_unat_eq_iff)
next
  assume "PGROUNDDOWN a = f"
  then have "unat f = unat a - unat a mod 4096" using unat_PGROUNDDOWN [of a] by simp
  then show "in_region f 4096 a" by (simp add: in_region_def unat_sub32)
qed

lemma entry_byte_in_page:
  assumes "i < 1024" "j < 4"
  shows "in_region base 4096 (entry_at base i + of_nat j)"
proof -
  have "entry_at base i + of_nat j = base + of_nat (4 * i + j)" by (simp add: entry_at_def)
  then show ?thesis using assms by (simp add: in_region_offset del: of_nat_add)
qed

lemma entry_in_page:
  assumes "aligned 4096 base" "i < 1024" "in_region (entry_at base i) 4 a"
  shows "in_region base 4096 a"
proof -
  obtain j where "j < 4" "a = entry_at base i + of_nat j" using assms(3) in_region_iff [of 4] by auto
  then show ?thesis using assms(2) by (simp add: entry_byte_in_page)
qed

lemma read_entry_cong:
  assumes "i < 1024" "\<And>a. in_region base 4096 a \<Longrightarrow> m' a = m a"
  shows "read32 m' (entry_at base i) = read32 m (entry_at base i)"
  by (rule read32_cong) (use assms entry_byte_in_page in auto)

lemma read_write_entry:
  assumes "aligned 4096 base" "i < 1024" "j < 1024"
  shows "read32 (write32 m (entry_at base i) v) (entry_at base j) =
    (if i = j then v else read32 m (entry_at base j))"
proof (cases "i = j")
  case False
  have al: "aligned 4 (entry_at base k)" for k
    unfolding entry_at_def using assms(1)
    by (intro aligned_add aligned_of_nat_mult) (auto intro: aligned_weaken)
  have "(of_nat (4 * i) :: addr) \<noteq> of_nat (4 * j)" using assms(2,3) False by (subst of_nat_eq32) simp_all
  then have "entry_at base i \<noteq> entry_at base j" by (simp add: entry_at_def del: of_nat_mult)
  then have "disjoint_regions (entry_at base i) 4 (entry_at base j) 4"
    using al by (intro aligned_disjoint) simp_all
  then show ?thesis using False by (simp add: read32_write32_other)
qed simp

lemma write_entry_other:
  assumes "aligned 4096 base" "i < 1024" "\<not> in_region base 4096 a"
  shows "write32 m (entry_at base i) v a = m a"
  using assms entry_in_page by (intro write32_other) blast

lemma read_entry_other_page:
  assumes "aligned 4096 base" "aligned 4096 b" "base \<noteq> b" "i < 1024" "j < 1024"
  shows "read32 (write32 m (entry_at base i) v) (entry_at b j) = read32 m (entry_at b j)"
proof (rule read_entry_cong [OF assms(5)])
  fix a
  assume "in_region b 4096 a"
  then have "\<not> in_region base 4096 a" using assms by (simp add: in_page_iff)
  then show "write32 m (entry_at base i) v a = m a" using assms by (simp add: write_entry_other)
qed

section \<open>Address spaces\<close>

definition present :: "u32 \<Rightarrow> bool" where
  "present e \<longleftrightarrow> e AND PTE_P \<noteq> 0"

definition tbl :: "memory \<Rightarrow> addr \<Rightarrow> nat \<Rightarrow> addr option" where
  "tbl m pgdir i = (let e = read32 m (entry_at pgdir i) in
     if present e then Some (P2V (PTE_ADDR e)) else None)"

definition vmem :: "memory \<Rightarrow> addr \<Rightarrow> nat \<Rightarrow> u32 option" where
  "vmem m pgdir p = (case tbl m pgdir (p div 1024) of None \<Rightarrow> None
     | Some t \<Rightarrow> (let e = read32 m (entry_at t (p mod 1024)) in if present e then Some e else None))"

text \<open>What the memory management unit makes of a virtual address: the physical address, or
  \<open>None\<close> for a page fault.\<close>

definition translate :: "memory \<Rightarrow> addr \<Rightarrow> u32 \<Rightarrow> u32 option" where
  "translate m pgdir va = map_option (\<lambda>e. PTE_ADDR e + ADDR_PAGE_OFFSET va) (vmem m pgdir (unat va div 4096))"

definition vm_ok :: "memory \<Rightarrow> addr \<Rightarrow> addr list \<Rightarrow> bool" where
  "vm_ok m pgdir fs \<longleftrightarrow> frame_ok pgdir \<and> pgdir \<notin> set fs \<and>
     (\<forall>i < 1024. \<forall>t. tbl m pgdir i = Some t \<longrightarrow> frame_ok t \<and> t \<noteq> pgdir \<and> t \<notin> set fs) \<and>
     (\<forall>i < 1024. \<forall>j < 1024. \<forall>t. tbl m pgdir i = Some t \<and> tbl m pgdir j = Some t \<longrightarrow> i = j)"

text \<open>The frames an address space owns: its directory and its tables.\<close>

definition vm_frames :: "memory \<Rightarrow> addr \<Rightarrow> addr set" where
  "vm_frames m pgdir = insert pgdir {t. \<exists>i < 1024. tbl m pgdir i = Some t}"

lemma tbl_cong:
  assumes "i < 1024" "\<And>a. in_region pgdir 4096 a \<Longrightarrow> m' a = m a"
  shows "tbl m' pgdir i = tbl m pgdir i"
  using read_entry_cong [OF assms] by (simp add: tbl_def)

lemma vmem_cong:
  assumes "p < 1048576" "aligned 4096 pgdir" "\<And>i t. i < 1024 \<Longrightarrow> tbl m pgdir i = Some t \<Longrightarrow> aligned 4096 t"
    and "\<And>a. PGROUNDDOWN a \<in> vm_frames m pgdir \<Longrightarrow> m' a = m a"
  shows "vmem m' pgdir p = vmem m pgdir p"
proof -
  have i: "p div 1024 < 1024" using assms(1) by (simp add: less_mult_imp_div_less)
  have "tbl m' pgdir (p div 1024) = tbl m pgdir (p div 1024)"
    using assms(2,4) by (intro tbl_cong [OF i]) (simp add: in_page_iff vm_frames_def)
  moreover have "read32 m' (entry_at t (p mod 1024)) = read32 m (entry_at t (p mod 1024))"
    if t: "tbl m pgdir (p div 1024) = Some t" for t
  proof (rule read_entry_cong)
    show "m' a = m a" if "in_region t 4096 a" for a
      using that t i assms(3) [OF i t] assms(4) [of a] by (auto simp: in_page_iff vm_frames_def)
  qed simp
  ultimately show ?thesis by (auto simp: vmem_def Let_def split: option.splits)
qed

lemma present_bit: "present e \<longleftrightarrow> bit e 0"
  by (auto simp: present_def and_one_eq bit_0 mod_2_eq_odd)

lemma aligned_low_bits:
  assumes "aligned 4096 v" "n < 12"
  shows "\<not> bit v n"
proof -
  have "unat v mod 4096 = 0" using assms(1) by (simp add: aligned_def)
  then have "v AND 4095 = 0" using unat_and_4095 [of v] by (simp add: unat_eq_zero)
  then have "\<not> bit (v AND mask 12) n" by (simp add: mask12 [symmetric])
  then show ?thesis using assms(2) by (simp only: bit_and_iff bit_mask_iff) simp
qed

lemma small_high_bits:
  assumes "(f :: u32) < 4096" "bit f n"
  shows "n < 12"
proof -
  have "unat (f AND 4095) = unat f" using assms(1) by (simp add: unat_and_4095 word_less_nat_alt)
  then have "f AND mask 12 = f" by (simp add: mask12 [symmetric] word_unat_eq_iff)
  then have "bit (f AND mask 12) n" using assms(2) by simp
  then show ?thesis by (simp only: bit_and_iff bit_mask_iff)
qed

lemma PTE_ADDR_or:
  assumes "aligned 4096 v" "f < 4096"
  shows "PTE_ADDR (v OR f) = v"
proof (rule bit_word_eqI)
  fix n
  assume n: "n < LENGTH(32)"
  have "bit (NOT (0xFFF :: u32)) n \<longleftrightarrow> 12 \<le> n" using n by (simp only: mask12 bit_not_iff bit_mask_iff) auto
  then show "bit (PTE_ADDR (v OR f)) n = bit v n"
    using aligned_low_bits [OF assms(1), of n] small_high_bits [OF assms(2), of n]
    unfolding PTE_ADDR_def bit_and_iff bit_or_iff by (metis not_less)
qed

lemma present_or [simp]: "present (a OR b) \<longleftrightarrow> present a \<or> present b" "present 1"
  by (simp_all add: present_bit bit_or_iff)

lemma not_present_0 [simp]: "\<not> present 0"
  by (simp add: present_def)

lemma table_entry:
  assumes "aligned 4096 v"
  shows "PTE_ADDR (V2P v OR PTE_P OR PTE_W OR PTE_U) = V2P v" "present (V2P v OR PTE_P OR PTE_W OR PTE_U)"
proof -
  have "aligned 4096 (V2P v)" using assms aligned_P2V [of "V2P v"] by simp
  then show "PTE_ADDR (V2P v OR PTE_P OR PTE_W OR PTE_U) = V2P v" by (simp add: PTE_ADDR_or)
  show "present (V2P v OR PTE_P OR PTE_W OR PTE_U)" by (simp only: present_or) simp
qed

section \<open>Walking the tables\<close>

lemma present_unfold [simp]: "e AND 1 \<noteq> 0 \<longleftrightarrow> present e" "e AND 1 = 0 \<longleftrightarrow> \<not> present e"
  by (simp_all add: present_def)

lemma walk_present:
  assumes "tbl (mem s) pgdir (unat (PDX va)) = Some t"
  shows "walkpgdir pgdir va alloc s = Ret (entry_at t (unat (PTX va))) s"
  using assms by (auto simp: walkpgdir_def tbl_def Let_def entry_ptr_at split: if_splits)

lemma walk_absent:
  assumes "tbl (mem s) pgdir (unat (PDX va)) = None"
  shows "walkpgdir pgdir va False s = Ret 0 s"
  using assms by (auto simp: walkpgdir_def tbl_def Let_def entry_ptr_at split: if_splits)

text \<open>The memory after a new table \<open>f\<close> was hooked into the directory at index \<open>i\<close>.\<close>

definition new_table :: "memory \<Rightarrow> addr \<Rightarrow> nat \<Rightarrow> addr \<Rightarrow> memory" where
  "new_table m pgdir i f = write32 (snd (memset m f 0 4096)) (entry_at pgdir i)
     (V2P f OR PTE_P OR PTE_W OR PTE_U)"

lemma new_table_other:
  assumes "aligned 4096 pgdir" "i < 1024" "\<not> in_region pgdir 4096 a" "\<not> in_region f 4096 a"
  shows "new_table m pgdir i f a = m a"
  unfolding new_table_def using assms by (subst write_entry_other) (auto simp: memset_eq)

lemma new_table_tbl:
  assumes "aligned 4096 pgdir" "aligned 4096 f" "f \<noteq> pgdir" "i < 1024" "j < 1024"
  shows "tbl (new_table m pgdir i f) pgdir j = (if i = j then Some f else tbl m pgdir j)"
proof -
  have "read32 (snd (memset m f 0 4096)) (entry_at pgdir j) = read32 m (entry_at pgdir j)"
    using assms(1-3) by (intro read_entry_cong [OF assms(5)]) (simp add: memset_eq in_page_iff)
  then show ?thesis
    using assms table_entry [OF assms(2)]
    by (simp add: tbl_def new_table_def read_write_entry Let_def del: present_or)
qed

lemma new_table_entry:
  assumes "aligned 4096 pgdir" "aligned 4096 f" "f \<noteq> pgdir" "i < 1024" "j < 1024"
  shows "read32 (new_table m pgdir i f) (entry_at f j) = 0"
proof -
  have zero: "snd (memset m f 0 4096) a = 0" if "in_region f 4096 a" for a using that by (simp add: memset_eq)
  have "read32 (new_table m pgdir i f) (entry_at f j) = read32 (snd (memset m f 0 4096)) (entry_at f j)"
    unfolding new_table_def using assms by (simp add: read_entry_other_page)
  also have "\<dots> = read32 (\<lambda>_. 0) (entry_at f j)" by (rule read_entry_cong) (use assms zero in auto)
  also have "\<dots> = 0" by (simp add: read32_def)
  finally show ?thesis .
qed

lemma new_table_other_entry:
  assumes "aligned 4096 pgdir" "aligned 4096 f" "aligned 4096 t" "t \<noteq> pgdir" "t \<noteq> f" "i < 1024" "j < 1024"
  shows "read32 (new_table m pgdir i f) (entry_at t j) = read32 m (entry_at t j)"
  using assms by (intro read_entry_cong) (auto simp: in_page_iff intro!: new_table_other)

lemma vm_okD:
  assumes "vm_ok m pgdir fs"
  shows "frame_ok pgdir" "aligned 4096 pgdir" "pgdir \<notin> set fs"
    and "i < 1024 \<Longrightarrow> tbl m pgdir i = Some t \<Longrightarrow> frame_ok t"
    and "i < 1024 \<Longrightarrow> tbl m pgdir i = Some t \<Longrightarrow> aligned 4096 t"
    and "i < 1024 \<Longrightarrow> tbl m pgdir i = Some t \<Longrightarrow> t \<noteq> pgdir"
    and "i < 1024 \<Longrightarrow> tbl m pgdir i = Some t \<Longrightarrow> t \<notin> set fs"
    and "i < 1024 \<Longrightarrow> j < 1024 \<Longrightarrow> tbl m pgdir i = Some t \<Longrightarrow> tbl m pgdir j = Some t \<Longrightarrow> i = j"
  using assms by (auto simp: vm_ok_def frame_ok_def)

lemma page_indices: "p < 1048576 \<Longrightarrow> p div 1024 < 1024" "p mod 1024 < (1024 :: nat)"
  by (simp_all add: less_mult_imp_div_less)

lemma new_table_vm:
  assumes ok: "vm_ok m pgdir (f # fs)" and f: "frame_ok f" "f \<notin> set fs" and i: "i < 1024"
    and none: "tbl m pgdir i = None"
  defines "m' \<equiv> new_table m pgdir i f"
  shows "vm_ok m' pgdir fs" "tbl m' pgdir i = Some f" "vm_frames m' pgdir = insert f (vm_frames m pgdir)"
    and "p < 1048576 \<Longrightarrow> vmem m' pgdir p = vmem m pgdir p"
proof -
  note D = vm_okD [OF ok]
  have fa: "aligned 4096 f" "f \<noteq> pgdir" using f(1) D(3) by (auto simp: frame_ok_def)
  have T: "tbl m' pgdir j = (if i = j then Some f else tbl m pgdir j)" if "j < 1024" for j
    unfolding m'_def using new_table_tbl [OF D(2) fa i that] .
  have fresh: "tbl m pgdir j \<noteq> Some f" if "j < 1024" for j using D(7) [OF that] by auto
  show "vm_ok m' pgdir fs"
    unfolding vm_ok_def
  proof (intro conjI allI impI)
    fix j t
    assume "j < 1024" "tbl m' pgdir j = Some t"
    then show "frame_ok t" "t \<noteq> pgdir" "t \<notin> set fs"
      using T D(4-7) [of j t] fa f by (auto split: if_splits)
  next
    fix j k t
    assume "j < 1024" "k < 1024" "tbl m' pgdir j = Some t \<and> tbl m' pgdir k = Some t"
    then show "j = k" using T D(8) [of j k t] fresh by (auto split: if_splits)
  qed (use D(1,3) in simp_all)
  show "tbl m' pgdir i = Some f" using T i by simp
  have "{t. \<exists>j < 1024. tbl m' pgdir j = Some t} = insert f {t. \<exists>j < 1024. tbl m pgdir j = Some t}"
    using T i none by (auto split: if_splits) (metis option.distinct(1))
  then show "vm_frames m' pgdir = insert f (vm_frames m pgdir)" by (auto simp: vm_frames_def)
  show "vmem m' pgdir p = vmem m pgdir p" if p: "p < 1048576"
  proof (cases "p div 1024 = i")
    case True
    then have "vmem m' pgdir p = None"
      using T [OF i] new_table_entry [OF D(2) fa i, of "p mod 1024"] by (simp add: vmem_def m'_def Let_def)
    then show ?thesis using True none by (simp add: vmem_def)
  next
    case False
    have d: "p div 1024 < 1024" using page_indices(1) [OF p] .
    have "read32 m' (entry_at t (p mod 1024)) = read32 m (entry_at t (p mod 1024))"
      if "tbl m pgdir (p div 1024) = Some t" for t
      unfolding m'_def using D(5-7) [OF d that] i
      by (intro new_table_other_entry [OF D(2) fa(1)]) auto
    then show ?thesis using False T [OF d] by (auto simp: vmem_def Let_def split: option.splits)
  qed
qed

lemma write_pte_vm:
  fixes e :: u32
  assumes ok: "vm_ok m pgdir fs" and i: "i < 1024" and t: "tbl m pgdir i = Some t" and j: "j < 1024"
  defines "m' \<equiv> write32 m (entry_at t j) e"
  shows "vm_ok m' pgdir fs" "k < 1024 \<Longrightarrow> tbl m' pgdir k = tbl m pgdir k" "vm_frames m' pgdir = vm_frames m pgdir"
    and "p < 1048576 \<Longrightarrow> vmem m' pgdir p =
      (if p = 1024 * i + j then (if present e then Some e else None) else vmem m pgdir p)"
proof -
  note D = vm_okD [OF ok]
  note ta = D(5-7) [OF i t]
  have T: "tbl m' pgdir k = tbl m pgdir k" if "k < 1024" for k
    unfolding m'_def tbl_def using ta that j D(2) by (simp add: read_entry_other_page)
  then show "k < 1024 \<Longrightarrow> tbl m' pgdir k = tbl m pgdir k" .
  show "vm_ok m' pgdir fs" using ok T unfolding vm_ok_def by simp
  show "vm_frames m' pgdir = vm_frames m pgdir" using T by (auto simp: vm_frames_def)
  show "vmem m' pgdir p = (if p = 1024 * i + j then (if present e then Some e else None) else vmem m pgdir p)"
    if p: "p < 1048576"
  proof (cases "p div 1024 = i")
    case True
    have "p = 1024 * i + j \<longleftrightarrow> p mod 1024 = j" 
      unfolding True [symmetric] using mult_div_mod_eq [of 1024 p] by (metis add_left_cancel)
    then show ?thesis using T [OF i] t True ta(1) j
      by (auto simp: vmem_def Let_def m'_def read_write_entry)
  next
    case False
    have d: "p div 1024 < 1024" using page_indices(1) [OF p] .
    have "read32 m' (entry_at u (p mod 1024)) = read32 m (entry_at u (p mod 1024))"
      if u: "tbl m pgdir (p div 1024) = Some u" for u
    proof -
      have "u \<noteq> t" using D(8) [OF d i u] t False by auto
      then show ?thesis unfolding m'_def using ta(1) D(5) [OF d u] j by (simp add: read_entry_other_page)
    qed
    moreover have "p \<noteq> 1024 * i + j" using False j by auto
    ultimately show ?thesis using T [OF d] by (auto simp: vmem_def Let_def split: option.splits)
  qed
qed

text \<open>How an address space may grow: it takes frames from the front of the free list as new
  tables, and no memory outside its own frames changes.\<close>

definition vm_grow :: "addr \<Rightarrow> 'z kmem_scheme \<Rightarrow> addr list \<Rightarrow> 'z kmem_scheme \<Rightarrow> addr list \<Rightarrow> bool" where
  "vm_grow pgdir s fs t fs' \<longleftrightarrow> kmem_frame s t \<and> kmem_gives t fs' \<and> vm_ok (mem t) pgdir fs' \<and>
     (\<exists>us. fs = us @ fs' \<and> vm_frames (mem t) pgdir = vm_frames (mem s) pgdir \<union> set us) \<and>
     (\<forall>a. PGROUNDDOWN a \<notin> vm_frames (mem t) pgdir \<longrightarrow> mem t a = mem s a) \<and>
     (\<forall>k < 1024. tbl (mem s) pgdir k \<noteq> None \<longrightarrow> tbl (mem t) pgdir k = tbl (mem s) pgdir k)"

lemma vm_grow_refl: "kmem_gives s fs \<Longrightarrow> vm_ok (mem s) pgdir fs \<Longrightarrow> vm_grow pgdir s fs s fs"
  by (simp add: vm_grow_def)

lemma vm_grow_trans:
  assumes "vm_grow pgdir s fs t fs'" "vm_grow pgdir t fs' u fs''"
  shows "vm_grow pgdir s fs u fs''"
proof -
  obtain us where us: "fs = us @ fs'" "vm_frames (mem t) pgdir = vm_frames (mem s) pgdir \<union> set us"
    using assms(1) by (auto simp: vm_grow_def)
  obtain vs where vs: "fs' = vs @ fs''" "vm_frames (mem u) pgdir = vm_frames (mem t) pgdir \<union> set vs"
    using assms(2) by (auto simp: vm_grow_def)
  have "mem u a = mem s a" if "PGROUNDDOWN a \<notin> vm_frames (mem u) pgdir" for a
    using that assms vs(2) by (auto simp: vm_grow_def)
  moreover have "tbl (mem u) pgdir k = tbl (mem s) pgdir k" if "k < 1024" "tbl (mem s) pgdir k \<noteq> None" for k
    using that assms unfolding vm_grow_def by metis
  moreover have "fs = (us @ vs) @ fs'' \<and> vm_frames (mem u) pgdir = vm_frames (mem s) pgdir \<union> set (us @ vs)"
    using us vs by auto
  ultimately show ?thesis using assms kmem_frame_trans unfolding vm_grow_def by blast
qed

lemma entry_at_neq_0:
  assumes "frame_ok t" "j < 1024"
  shows "entry_at t j \<noteq> 0"
proof -
  have t: "2148532224 \<le> unat t" "4096 dvd unat t"
    using assms(1) by (simp_all add: frame_ok_def aligned_def word_le_nat_alt)
  then obtain k where "unat t = 4096 * k" by (elim dvdE)
  then have "unat t + 4 * j < 4294967296" using unat_lt32 [of t] assms(2) by auto
  then have "unat (entry_at t j) = unat t + 4 * j"
    unfolding entry_at_def using assms(2) by (simp add: unat_add32 unat_of_nat32 del: of_nat_mult)
  then show ?thesis using t(1) by (metis le_zero_eq not_numeral_le_zero add_is_0 unat_0)
qed

lemma kmem_frame_upd_mem: "kmem_frame s (s\<lparr>mem := m\<rparr>)"
  by (simp add: kmem_frame_def same_sync_eq)

lemma kmem_gives_upd_mem:
  assumes "kmem_gives s fs" "\<And>a. PGROUNDDOWN a \<in> set fs \<Longrightarrow> m a = mem s a"
  shows "kmem_gives (s\<lparr>mem := m\<rparr>) fs"
proof -
  have "kmem_frame s (s\<lparr>mem := m\<rparr>)" by (rule kmem_frame_upd_mem)
  moreover have "m (f + of_nat i) = mem s (f + of_nat i)" if "f \<in> set fs" "i < 4" for f i
  proof (rule assms(2))
    have al: "aligned 4096 f" using assms(1) that(1) by (simp add: kmem_gives_def kmem_ok_def frame_ok_def)
    have "in_region f 4096 (f + of_nat i)" using that(2) by (simp add: in_region_offset)
    then show "PGROUNDDOWN (f + of_nat i) \<in> set fs" using in_page_iff [OF al] that(1) by simp
  qed
  ultimately show ?thesis
    using assms(1) kmem_ready_frame [of s "s\<lparr>mem := m\<rparr>"] kmem_ok_cong [of "s\<lparr>mem := m\<rparr>" s fs] by (simp add: kmem_gives_def)
qed

lemma kmem_givesD:
  assumes "kmem_gives s (f # fs)"
  shows "frame_ok f" "f \<notin> set fs" "f \<noteq> 0" "aligned 4096 f"
  using assms by (auto simp: kmem_gives_def kmem_ok_def frame_ok_def)

lemma vm_frames_not_free: "vm_ok m pgdir fs \<Longrightarrow> f \<in> vm_frames m pgdir \<Longrightarrow> f \<notin> set fs"
  by (auto simp: vm_frames_def dest: vm_okD)

lemma vm_ok_mono: "vm_ok m pgdir fs \<Longrightarrow> set gs \<subseteq> set fs \<Longrightarrow> vm_ok m pgdir gs"
  by (auto simp: vm_ok_def)

lemma walk_alloc:
  assumes g: "kmem_gives s fs" and v: "vm_ok (mem s) pgdir fs"
    and i: "i = unat (PDX va)" and none: "tbl (mem s) pgdir i = None"
  shows "(case fs of
      [] \<Rightarrow> \<exists>t. walkpgdir pgdir va True s = Ret 0 t \<and> mem t = mem s \<and> vm_grow pgdir s fs t []
    | f # fs' \<Rightarrow> \<exists>t. walkpgdir pgdir va True s = Ret (entry_at f (unat (PTX va))) t \<and>
        mem t = new_table (mem s) pgdir i f \<and> vm_grow pgdir s fs t fs')"
proof (cases fs)
  case Nil
  obtain t where t: "kalloc s = Ret 0 t" "kmem_frame s t" "mem t = mem s" "kmem_ok t []"
    using kalloc_empty g Nil by (auto simp: kmem_gives_def)
  have "\<not> present (read32 (mem s) (entry_at pgdir i))" using none by (auto simp: tbl_def Let_def split: if_splits)
  then have "walkpgdir pgdir va True s = Ret 0 t"
    using t(1) by (simp add: walkpgdir_def entry_ptr_at i Let_def)
  moreover have "kmem_gives t []" using t g kmem_ready_frame [OF t(2)] by (simp add: kmem_gives_def)
  ultimately show ?thesis using t v Nil by (auto simp: vm_grow_def)
next
  case (Cons f fs')
  obtain t where t: "kalloc s = Ret f t" "kmem_frame s t" "mem t = mem s" "kmem_ok t fs'"
    using kalloc_frame [of s f fs'] g Cons by (auto simp: kmem_gives_def)
  have gt: "kmem_gives t fs'" using t g kmem_ready_frame [OF t(2)] by (simp add: kmem_gives_def)
  let ?m = "new_table (mem s) pgdir i f" and ?u = "t\<lparr>mem := new_table (mem s) pgdir i f\<rparr>"
  have f: "frame_ok f" "f \<notin> set fs'" "f \<noteq> 0" "aligned 4096 f" using kmem_givesD [OF g [unfolded Cons]] by simp_all
  have i1: "i < 1024" unfolding i by (rule unat_PDX_lt)
  note D = vm_okD [OF v]
  note N = new_table_vm [OF v [unfolded Cons] f(1,2) i1 none]
  have "\<not> present (read32 (mem s) (entry_at pgdir i))" using none by (auto simp: tbl_def Let_def split: if_splits)
  then have run: "walkpgdir pgdir va True s = Ret (entry_at f (unat (PTX va))) ?u"
    using t(1,3) f(3) by (simp add: walkpgdir_def entry_ptr_at i Let_def new_table_def)
  have out: "?m a = mem s a" if "PGROUNDDOWN a \<notin> vm_frames ?m pgdir" for a
    using that N(3) f(4) D(2) i1 by (intro new_table_other) (auto simp: in_page_iff vm_frames_def)
  have "kmem_gives ?u fs'"
  proof (rule kmem_gives_upd_mem [OF gt])
    fix a
    assume "PGROUNDDOWN a \<in> set fs'"
    then have "PGROUNDDOWN a \<notin> vm_frames ?m pgdir" using vm_frames_not_free [OF N(1)] by blast
    then show "?m a = mem t a" using out t(3) by simp
  qed
  moreover have "kmem_frame s ?u" using t(2) kmem_frame_upd_mem by (rule kmem_frame_trans)
  moreover have "tbl ?m pgdir k = tbl (mem s) pgdir k" if "k < 1024" "tbl (mem s) pgdir k \<noteq> None" for k
    using that none new_table_tbl [OF D(2) f(4) _ i1 that(1)] D(3) Cons by auto
  ultimately have "vm_grow pgdir s fs ?u fs'"
    using N(1,3) out t(3) Cons unfolding vm_grow_def by auto
  then show ?thesis using run Cons by simp
qed

lemma vm_growD:
  assumes "vm_grow pgdir s fs t fs'"
  shows "kmem_frame s t" "kmem_gives t fs'" "vm_ok (mem t) pgdir fs'"
  using assms by (simp_all add: vm_grow_def)

lemma set_pte_grow:
  assumes g: "kmem_gives s fs" and v: "vm_ok (mem s) pgdir fs" and i: "i < 1024"
    and t: "tbl (mem s) pgdir i = Some t" and j: "j < 1024"
  shows "vm_grow pgdir s fs (s\<lparr>mem := write32 (mem s) (entry_at t j) e\<rparr>) fs"
proof -
  let ?m = "write32 (mem s) (entry_at t j) e"
  note W = write_pte_vm [OF v i t j, where e = e]
  have "t \<in> vm_frames (mem s) pgdir" using t i by (auto simp: vm_frames_def)
  then have out: "?m a = mem s a" if "PGROUNDDOWN a \<notin> vm_frames (mem s) pgdir" for a
    using that vm_okD(5) [OF v i t] j by (intro write_entry_other) (auto simp: in_page_iff)
  have "kmem_gives (s\<lparr>mem := ?m\<rparr>) fs"
    using g out vm_frames_not_free [OF v] by (intro kmem_gives_upd_mem) auto
  then show ?thesis
    using W(1,3) W(2) out kmem_frame_upd_mem unfolding vm_grow_def by auto
qed

lemma walk_map:
  assumes g: "kmem_gives s fs" and v: "vm_ok (mem s) pgdir fs"
    and i: "i = unat (PDX va)" and j: "j = unat (PTX va)"
  obtains
    (full) t where "tbl (mem s) pgdir i = None" "fs = []" "walkpgdir pgdir va True s = Ret 0 t"
      "mem t = mem s" "vm_grow pgdir s fs t []"
  | (table) tb t fs' where "walkpgdir pgdir va True s = Ret (entry_at tb j) t" "tbl (mem t) pgdir i = Some tb"
      "vm_grow pgdir s fs t fs'" "\<And>p. p < 1048576 \<Longrightarrow> vmem (mem t) pgdir p = vmem (mem s) pgdir p"
      "length fs = length fs' + (if tbl (mem s) pgdir i = None then 1 else 0)"
proof (cases "tbl (mem s) pgdir i")
  case None
  note W = walk_alloc [OF g v i None]
  show thesis
  proof (cases fs)
    case Nil
    then show thesis using W None by (auto intro: full)
  next
    case (Cons f fs')
    then obtain t where t: "walkpgdir pgdir va True s = Ret (entry_at f j) t"
      "mem t = new_table (mem s) pgdir i f" "vm_grow pgdir s fs t fs'"
      using W j by auto
    have i1: "i < 1024" unfolding i by (rule unat_PDX_lt)
    note N = new_table_vm [OF v [unfolded Cons] _ _ i1 None] kmem_givesD [OF g [unfolded Cons]]
    show thesis using t N Cons None by (intro table [OF t(1)]) auto
  qed
next
  case (Some tb)
  have "walkpgdir pgdir va True s = Ret (entry_at tb j) s" using walk_present [of s pgdir va tb True] Some i j by simp
  then show thesis using Some vm_grow_refl [OF g v] by (intro table) auto
qed

section \<open>Mapping a range\<close>

text \<open>The address space after the first \<open>k\<close> pages from page number \<open>p\<close> on were mapped to
  consecutive frames, and the tables such a mapping still needs.\<close>

definition map_pages :: "nat \<Rightarrow> nat \<Rightarrow> u32 \<Rightarrow> u32 \<Rightarrow> (nat \<Rightarrow> u32 option) \<Rightarrow> nat \<Rightarrow> u32 option" where
  "map_pages p k pa perm f q = (if p \<le> q \<and> q < p + k then Some ((pa + of_nat (4096 * (q - p))) OR perm OR PTE_P)
     else f q)"

definition missing :: "memory \<Rightarrow> addr \<Rightarrow> nat \<Rightarrow> nat \<Rightarrow> nat set" where
  "missing m pgdir p n = {i \<in> (\<lambda>q. q div 1024) ` {p ..< p + n}. tbl m pgdir i = None}"

lemma finite_missing [simp]: "finite (missing m pgdir p n)"
  by (simp add: missing_def)

lemma page_number:
  assumes "unat a = 4096 * p"
  shows "unat (PDX a) = p div 1024" "unat (PTX a) = p mod 1024"
  using assms by (simp_all add: unat_PDX unat_PTX div_mult2_eq)

lemma page_split: "1024 * (p div 1024) + p mod 1024 = (p :: nat)"
  by simp

lemma missing_step:
  assumes "tbl m' pgdir i = Some tb" "i = p div 1024"
    and "\<And>k. k < 1024 \<Longrightarrow> tbl m pgdir k \<noteq> None \<Longrightarrow> tbl m' pgdir k = tbl m pgdir k" "p + Suc n \<le> 1048576"
  shows "missing m' pgdir (Suc p) n \<subseteq> missing m pgdir p (Suc n) - {i}"
proof
  fix k
  assume k: "k \<in> missing m' pgdir (Suc p) n"
  then obtain q where q: "k = q div 1024" "Suc p \<le> q" "q < Suc p + n" "tbl m' pgdir k = None"
    by (auto simp: missing_def)
  then have "k < 1024" using assms(4) by (simp add: less_mult_imp_div_less)
  then have "tbl m pgdir k = None" using assms(3) q(4) by fastforce
  moreover have "k \<noteq> i" using assms(1) q(4) by auto
  moreover have "k \<in> (\<lambda>q. q div 1024) ` {p ..< p + Suc n}" using q by auto
  ultimately show "k \<in> missing m pgdir p (Suc n) - {i}" by (simp add: missing_def)
qed

lemma map_one:
  assumes g: "kmem_gives s fs" and v: "vm_ok (mem s) pgdir fs" and a: "unat a = 4096 * p"
    and p: "p < 1048576" and free: "vmem (mem s) pgdir p = None"
  obtains
    (full) t where "tbl (mem s) pgdir (p div 1024) = None" "fs = []" "vm_grow pgdir s fs t []" "mem t = mem s"
      "mappages_loop (Suc fuel) pgdir a b pa perm s = Ret (- 1) t"
  | (step) tb u fs' where "vm_grow pgdir s fs u fs'" "tbl (mem u) pgdir (p div 1024) = Some tb"
      "length fs = length fs' + (if tbl (mem s) pgdir (p div 1024) = None then 1 else 0)"
      "\<And>q. q < 1048576 \<Longrightarrow> vmem (mem u) pgdir q =
        (if q = p then Some (pa OR perm OR PTE_P) else vmem (mem s) pgdir q)"
      "mappages_loop (Suc fuel) pgdir a b pa perm s = (if a = b then Ret 0 u
        else mappages_loop fuel pgdir (a + 4096) b (pa + 4096) perm u)"
proof -
  note pn = page_number [OF a]
  have i: "p div 1024 < 1024" and j: "p mod 1024 < 1024" using page_indices p by blast+
  show thesis
  proof (rule walk_map [OF g v pn(1) [symmetric] pn(2) [symmetric]])
    fix t
    assume t: "tbl (mem s) pgdir (p div 1024) = None" "fs = []" "walkpgdir pgdir a True s = Ret 0 t"
      "mem t = mem s" "vm_grow pgdir s fs t []"
    then show thesis by (intro full) simp_all
  next
    fix tb t fs'
    assume w: "walkpgdir pgdir a True s = Ret (entry_at tb (p mod 1024)) t" "tbl (mem t) pgdir (p div 1024) = Some tb"
      and gr: "vm_grow pgdir s fs t fs'" and vm: "\<And>q. q < 1048576 \<Longrightarrow> vmem (mem t) pgdir q = vmem (mem s) pgdir q"
      and len: "length fs = length fs' + (if tbl (mem s) pgdir (p div 1024) = None then 1 else 0)"
    note G = vm_growD [OF gr]
    let ?e = "pa OR perm OR PTE_P"
    let ?u = "t\<lparr>mem := write32 (mem t) (entry_at tb (p mod 1024)) ?e\<rparr>"
    note W = write_pte_vm [OF G(3) i w(2) j, where e = ?e]
    have "vmem (mem t) pgdir p = None" using vm [OF p] free by simp
    then have np: "\<not> present (read32 (mem t) (entry_at tb (p mod 1024)))"
      using w(2) by (auto simp: vmem_def Let_def split: if_splits)
    have nz: "entry_at tb (p mod 1024) \<noteq> 0" using entry_at_neq_0 [OF vm_okD(4) [OF G(3) i w(2)] j] .
    have "mappages_loop (Suc fuel) pgdir a b pa perm s = (if a = b then Ret 0 ?u
        else mappages_loop fuel pgdir (a + 4096) b (pa + 4096) perm ?u)"
      using w(1) np nz by simp
    moreover have "present ?e" by (simp only: present_or) simp
    then have "vmem (mem ?u) pgdir q = (if q = p then Some ?e else vmem (mem s) pgdir q)" if "q < 1048576" for q
      using W(4) [OF that] vm [OF that] by (simp only: page_split if_True) simp
    moreover have "vm_grow pgdir s fs ?u fs'"
      using gr set_pte_grow [OF G(2,3) i w(2) j] by (rule vm_grow_trans)
    moreover have "tbl (mem ?u) pgdir (p div 1024) = Some tb" using W(2) [OF i] w(2) by simp
    ultimately show thesis using len by (intro step)
  qed
qed

lemma map_pages_0: "map_pages p 0 pa perm f = f"
  by (auto simp: map_pages_def fun_eq_iff)

lemma map_pages_Suc:
  "map_pages (Suc p) k (pa + 4096) perm (\<lambda>q. if q = p then Some (pa OR perm OR PTE_P) else f q) q =
   map_pages p (Suc k) pa perm f q"
proof (cases "Suc p \<le> q \<and> q < Suc p + k")
  case True
  then obtain d where "q = Suc p + d" by (metis le_Suc_ex)
  then show ?thesis using True by (simp add: map_pages_def algebra_simps)
next
  case False
  then show ?thesis by (auto simp: map_pages_def)
qed

lemma mappages_loop_refines:
  assumes "kmem_gives s fs" "vm_ok (mem s) pgdir fs" "unat a = 4096 * p" "p + Suc n \<le> 1048576"
    and "unat b = 4096 * (p + n)" "n < fuel" "\<And>q. p \<le> q \<Longrightarrow> q \<le> p + n \<Longrightarrow> vmem (mem s) pgdir q = None"
  shows "\<exists>r t fs' k. mappages_loop fuel pgdir a b pa perm s = Ret r t \<and> vm_grow pgdir s fs t fs' \<and>
    (\<forall>q < 1048576. vmem (mem t) pgdir q = map_pages p k pa perm (vmem (mem s) pgdir) q) \<and>
    (r = 0 \<and> k = Suc n \<or> r = - 1 \<and> k \<le> n \<and> fs' = []) \<and>
    (card (missing (mem s) pgdir p (Suc n)) \<le> length fs \<longrightarrow> r = 0) \<and>
    length fs \<le> length fs' + card (missing (mem s) pgdir p (Suc n))"
  using assms
proof (induction n arbitrary: s fs a p pa fuel)
  case (0 s fs a p pa fuel)
  then obtain f where fuel: "fuel = Suc f" by (cases fuel) auto
  have eq: "a = b" using 0 by (simp add: word_unat_eq_iff)
  have p: "p < 1048576" "vmem (mem s) pgdir p = None" using 0 by auto
  show ?case
  proof (rule map_one [OF "0.prems"(1,2,3) p, of f b pa perm])
    fix t
    assume "tbl (mem s) pgdir (p div 1024) = None" "fs = []" "vm_grow pgdir s fs t []" "mem t = mem s"
      "mappages_loop (Suc f) pgdir a b pa perm s = Ret (- 1) t"
    then show ?thesis unfolding fuel
      by (intro exI [of _ "- 1"] exI [of _ t] exI [of _ "[]"] exI [of _ 0])
         (simp add: map_pages_0 missing_def)
  next
    fix tb u fs'
    assume "vm_grow pgdir s fs u fs'"
      and len: "length fs = length fs' + (if tbl (mem s) pgdir (p div 1024) = None then 1 else 0)"
      and "\<And>q. q < 1048576 \<Longrightarrow> vmem (mem u) pgdir q = (if q = p then Some (pa OR perm OR PTE_P) else vmem (mem s) pgdir q)"
      "mappages_loop (Suc f) pgdir a b pa perm s = (if a = b then Ret 0 u
        else mappages_loop f pgdir (a + 4096) b (pa + 4096) perm u)"
    moreover have "missing (mem s) pgdir p (Suc 0) = (if tbl (mem s) pgdir (p div 1024) = None then {p div 1024} else {})"
      by (auto simp: missing_def)
    then have "length fs \<le> length fs' + card (missing (mem s) pgdir p (Suc 0))" using len by auto
    ultimately show ?thesis unfolding fuel using eq
      by (intro exI [of _ 0] exI [of _ u] exI [of _ fs'] exI [of _ 1]) (auto simp: map_pages_def)
  qed
next
  case (Suc n s fs a p pa fuel)
  note prems = Suc.prems
  obtain f where fuel: "fuel = Suc f" "n < f" using prems(6) by (cases fuel) auto
  have neq: "a \<noteq> b" using prems(3,5) by auto
  have p: "p < 1048576" "vmem (mem s) pgdir p = None" using prems(4,7) by auto
  show ?case
  proof (rule map_one [OF prems(1,2,3) p, of f b pa perm])
    fix t
    assume t: "tbl (mem s) pgdir (p div 1024) = None" "fs = []" "vm_grow pgdir s fs t []" "mem t = mem s"
      "mappages_loop (Suc f) pgdir a b pa perm s = Ret (- 1) t"
    have "p div 1024 \<in> missing (mem s) pgdir p (Suc (Suc n))" using t(1) by (auto simp: missing_def)
    then have "missing (mem s) pgdir p (Suc (Suc n)) \<noteq> {}" by blast
    then show ?thesis unfolding fuel(1) using t
      by (intro exI [of _ "- 1"] exI [of _ t] exI [of _ "[]"] exI [of _ 0]) (simp add: map_pages_0)
  next
    fix tb u fs'
    assume u: "vm_grow pgdir s fs u fs'" "tbl (mem u) pgdir (p div 1024) = Some tb"
      and len: "length fs = length fs' + (if tbl (mem s) pgdir (p div 1024) = None then 1 else 0)"
      and vm: "\<And>q. q < 1048576 \<Longrightarrow> vmem (mem u) pgdir q =
        (if q = p then Some (pa OR perm OR PTE_P) else vmem (mem s) pgdir q)"
      and run: "mappages_loop (Suc f) pgdir a b pa perm s = (if a = b then Ret 0 u
        else mappages_loop f pgdir (a + 4096) b (pa + 4096) perm u)"
    have a': "unat (a + 4096) = 4096 * Suc p" using prems(3,4) by (simp add: unat_add32)
    have "vmem (mem u) pgdir q = None" if "Suc p \<le> q" "q \<le> Suc p + n" for q
      using that vm [of q] prems(4,7) by auto
    then obtain r t gs k where t: "mappages_loop f pgdir (a + 4096) b (pa + 4096) perm u = Ret r t"
      "vm_grow pgdir u fs' t gs"
      "\<forall>q < 1048576. vmem (mem t) pgdir q = map_pages (Suc p) k (pa + 4096) perm (vmem (mem u) pgdir) q"
      "r = 0 \<and> k = Suc n \<or> r = - 1 \<and> k \<le> n \<and> gs = []"
      "card (missing (mem u) pgdir (Suc p) (Suc n)) \<le> length fs' \<longrightarrow> r = 0"
      "length fs' \<le> length gs + card (missing (mem u) pgdir (Suc p) (Suc n))"
      using Suc.IH [of u fs' "a + 4096" "Suc p" f "pa + 4096"] vm_growD [OF u(1)] a' prems(4,5) fuel(2) by auto
    have "vmem (mem t) pgdir q = map_pages p (Suc k) pa perm (vmem (mem s) pgdir) q" if "q < 1048576" for q
    proof -
      have "vmem (mem t) pgdir q = map_pages (Suc p) k (pa + 4096) perm
          (\<lambda>q. if q = p then Some (pa OR perm OR PTE_P) else vmem (mem s) pgdir q) q"
        using t(3) that vm [OF that] by (cases "q = p") (auto simp: map_pages_def)
      then show ?thesis by (simp only: map_pages_Suc)
    qed
    moreover have "missing (mem u) pgdir (Suc p) (Suc n) \<subseteq> missing (mem s) pgdir p (Suc (Suc n)) - {p div 1024}"
      using missing_step [OF u(2) refl, of "mem s" "Suc n"] u(1) prems(4) by (simp add: vm_grow_def)
    then have less: "card (missing (mem u) pgdir (Suc p) (Suc n)) \<le>
        card (missing (mem s) pgdir p (Suc (Suc n)) - {p div 1024})" by (intro card_mono) auto
    have "p div 1024 \<in> missing (mem s) pgdir p (Suc (Suc n)) \<longleftrightarrow> tbl (mem s) pgdir (p div 1024) = None"
      by (auto simp: missing_def)
    then have diff: "card (missing (mem s) pgdir p (Suc (Suc n)) - {p div 1024}) + (if tbl (mem s) pgdir (p div 1024) = None then 1 else 0) =
        card (missing (mem s) pgdir p (Suc (Suc n)))" using card_Suc_Diff1 [of "missing (mem s) pgdir p (Suc (Suc n))"] by auto
    have "r = 0" if c: "card (missing (mem s) pgdir p (Suc (Suc n))) \<le> length fs"
      using c len less diff t(5) by simp
    moreover have "length fs \<le> length gs + card (missing (mem s) pgdir p (Suc (Suc n)))"
      using t(6) len less diff by simp
    ultimately show ?thesis unfolding fuel(1) using run neq t(1,4) vm_grow_trans [OF u(1) t(2)]
      by (intro exI [of _ r] exI [of _ t] exI [of _ gs] exI [of _ "Suc k"]) auto
  qed
qed

section \<open>Mapping and loading\<close>

lemma PGROUNDDOWN_0 [simp]: "PGROUNDDOWN 0 = 0"
  by (simp add: PGROUNDDOWN_def)

lemma range_bounds:
  assumes "0 < unat sz" "unat va + unat sz \<le> 4294967296" "p = unat va div 4096"
    and "p + n = (unat va + unat sz - 1) div 4096"
  shows "p + Suc n \<le> 1048576" "unat (PGROUNDDOWN va) = 4096 * p" "unat (PGROUNDDOWN (va + sz - 1)) = 4096 * (p + n)"
proof -
  have "unat (va + sz - 1) = unat va + unat sz - 1"
  proof (cases "unat va + unat sz = 4294967296")
    case True
    then have "unat (va + sz) = 0" by (simp add: unat_word_ariths)
    then have "va + sz = 0" by (simp add: unat_eq_zero)
    then have "va + sz - 1 = 4294967295" by simp
    then show ?thesis using True by (simp only:) simp
  next
    case False
    then have "unat (va + sz) = unat va + unat sz" using assms(2) by (simp add: unat_add32)
    moreover have "1 \<le> va + sz" using calculation assms(1) by (simp add: word_le_nat_alt)
    ultimately show ?thesis using assms(1) by (simp add: unat_sub32)
  qed
  then show "unat (PGROUNDDOWN (va + sz - 1)) = 4096 * (p + n)"
    using assms(4) by (simp add: unat_PGROUNDDOWN minus_mod_eq_mult_div)
  show "unat (PGROUNDDOWN va) = 4096 * p"
    using assms(3) by (simp add: unat_PGROUNDDOWN minus_mod_eq_mult_div)
  show "p + Suc n \<le> 1048576" using assms(1,2,4) by (simp add: Suc_le_eq less_mult_imp_div_less)
qed

lemma mappages_refines:
  assumes "kmem_gives s fs" "vm_ok (mem s) pgdir fs"
    and "0 < unat sz" "unat va + unat sz \<le> 4294967296"
    and "p = unat va div 4096" "p + n = (unat va + unat sz - 1) div 4096"
    and "\<And>q. p \<le> q \<Longrightarrow> q \<le> p + n \<Longrightarrow> vmem (mem s) pgdir q = None"
  shows "\<exists>r t fs' k. mappages pgdir va sz pa perm s = Ret r t \<and> vm_grow pgdir s fs t fs' \<and>
    (\<forall>q < 1048576. vmem (mem t) pgdir q = map_pages p k pa perm (vmem (mem s) pgdir) q) \<and>
    (r = 0 \<and> k = Suc n \<or> r = - 1 \<and> k \<le> n \<and> fs' = []) \<and>
    (card (missing (mem s) pgdir p (Suc n)) \<le> length fs \<longrightarrow> r = 0) \<and>
    length fs \<le> length fs' + card (missing (mem s) pgdir p (Suc n))"
proof -
  note b = range_bounds [OF assms(3-6)]
  show ?thesis unfolding mappages_def
    by (rule mappages_loop_refines [OF assms(1,2) b(2) _ b(3)]) (use assms(7) b(1) in auto)
qed

text \<open>The mapping succeeds exactly when there are frames for the missing tables.\<close>

lemma missing_grown:
  assumes gr: "vm_grow pgdir s fs t fs'" and v: "vm_ok (mem s) pgdir fs" and b: "p + n \<le> 1048576"
    and all: "\<And>q. p \<le> q \<Longrightarrow> q < p + n \<Longrightarrow> vmem (mem t) pgdir q \<noteq> None"
  shows "card (missing (mem s) pgdir p n) \<le> length fs"
proof -
  obtain us where us: "fs = us @ fs'" "vm_frames (mem t) pgdir = vm_frames (mem s) pgdir \<union> set us"
    and old: "\<And>k. k < 1024 \<Longrightarrow> tbl (mem s) pgdir k \<noteq> None \<Longrightarrow> tbl (mem t) pgdir k = tbl (mem s) pgdir k"
    using gr unfolding vm_grow_def by blast
  have vt: "vm_ok (mem t) pgdir fs'" using vm_growD(3) [OF gr] .
  let ?M = "missing (mem s) pgdir p n" and ?f = "\<lambda>i. the (tbl (mem t) pgdir i)"
  have M: "i < 1024" "tbl (mem s) pgdir i = None" "tbl (mem t) pgdir i = Some (?f i)" if i: "i \<in> ?M" for i
  proof -
    obtain q where q: "p \<le> q" "q < p + n" "i = q div 1024" "tbl (mem s) pgdir i = None"
      using i by (auto simp: missing_def)
    then have "tbl (mem t) pgdir i \<noteq> None" using all [OF q(1,2)] by (auto simp: vmem_def split: option.splits)
    then show "tbl (mem t) pgdir i = Some (?f i)" by auto
    show "i < 1024" "tbl (mem s) pgdir i = None" using q b by (simp_all add: less_mult_imp_div_less)
  qed
  have "inj_on ?f ?M"
  proof (rule inj_onI)
    fix i j
    assume ij: "i \<in> ?M" "j \<in> ?M" "?f i = ?f j"
    have "tbl (mem t) pgdir j = Some (?f i)" unfolding ij(3) by (rule M(3) [OF ij(2)])
    then show "i = j" by (rule vm_okD(8) [OF vt M(1) [OF ij(1)] M(1) [OF ij(2)] M(3) [OF ij(1)]])
  qed
  moreover have "?f i \<in> set us" if i: "i \<in> ?M" for i
  proof (rule ccontr)
    assume no: "?f i \<notin> set us"
    have "?f i \<in> vm_frames (mem t) pgdir" unfolding vm_frames_def using M(1,3) [OF i] by blast
    then have "?f i \<in> vm_frames (mem s) pgdir" using us(2) no by blast
    moreover have "?f i \<noteq> pgdir" by (rule vm_okD(6) [OF vt M(1,3) [OF i]])
    ultimately obtain j where j: "j < 1024" "tbl (mem s) pgdir j = Some (?f i)" unfolding vm_frames_def by blast
    then have "tbl (mem t) pgdir j = Some (?f i)" using old [of j] by (simp only: option.distinct simp_thms)
    then have "j = i" by (rule vm_okD(8) [OF vt j(1) M(1) [OF i] _ M(3) [OF i]])
    then show False using j(2) M(2) [OF i] by (simp only: option.distinct)
  qed
  then have "?f ` ?M \<subseteq> set us" by blast
  ultimately have "card ?M \<le> card (set us)" by (simp add: card_inj_on_le)
  then show ?thesis using us(1) card_length [of us] by simp
qed

lemma PTE_ADDR_mapped:
  assumes "aligned 4096 pa" "perm < 4096"
  shows "PTE_ADDR ((pa + of_nat (4096 * k)) OR perm OR PTE_P) = pa + of_nat (4096 * k)"
proof -
  have "aligned 4096 (pa + of_nat (4096 * k))"
  proof -
    have "unat (pa + of_nat (4096 * k) :: u32) = (unat pa + 4096 * k) mod 4294967296"
      by (simp add: unat_word_ariths unat_of_nat mod_simps del: of_nat_mult)
    moreover have "4096 dvd unat pa" using assms(1) by (simp add: aligned_def)
    ultimately show ?thesis by (simp add: aligned_def dvd_mod)
  qed
  moreover have "perm OR PTE_P < 4096"
  proof -
    have "perm = take_bit 12 perm" using assms(2)
      by (simp add: take_bit_eq_mod word_unat_eq_iff unat_mod word_less_nat_alt)
    then have "perm OR PTE_P = take_bit 12 (perm OR PTE_P)" by (simp add: take_bit_or)
    also have "\<dots> < 4096" by (simp add: take_bit_eq_mod word_less_nat_alt unat_mod)
    finally show ?thesis .
  qed
  ultimately show ?thesis using PTE_ADDR_or by simp
qed

lemma unat_ADDR_PAGE_OFFSET: "unat (ADDR_PAGE_OFFSET a) = unat a mod 4096"
proof -
  have "(0x0FFF :: u32) = mask 12" by (simp add: mask_eq_exp_minus_1)
  then have "ADDR_PAGE_OFFSET a = take_bit 12 a" by (simp add: ADDR_PAGE_OFFSET_def take_bit_eq_mask)
  then show ?thesis by (simp add: take_bit_eq_mod unat_mod)
qed

text \<open>The address of a byte in the page that stands \<open>k\<close> pages after that of \<open>va\<close>.\<close>

lemma page_shift:
  assumes "p = unat va div 4096" "p \<le> unat x div 4096"
  shows "pa + of_nat (4096 * (unat x div 4096 - p)) + ADDR_PAGE_OFFSET x = pa + (x - PGROUNDDOWN va)"
proof -
  have inv: "of_nat (unat w) = w" for w :: u32 by simp
  have "x = of_nat (4096 * (unat x div 4096) + unat x mod 4096)" unfolding mult_div_mod_eq by (rule inv [symmetric])
  also have "\<dots> = of_nat (4096 * (unat x div 4096)) + ADDR_PAGE_OFFSET x"
    using inv [of "ADDR_PAGE_OFFSET x"] by (simp only: of_nat_add unat_ADDR_PAGE_OFFSET)
  finally have "x = of_nat (4096 * (unat x div 4096)) + ADDR_PAGE_OFFSET x" .
  moreover have "PGROUNDDOWN va = of_nat (4096 * p)"
    using inv [of "PGROUNDDOWN va"] by (simp only: unat_PGROUNDDOWN assms(1) minus_mod_eq_mult_div)
  ultimately have "x - PGROUNDDOWN va = of_nat (4096 * (unat x div 4096)) - of_nat (4096 * p) + ADDR_PAGE_OFFSET x"
    by (metis add_diff_eq diff_add_eq)
  then show ?thesis using assms(2) by (simp add: right_diff_distrib' of_nat_diff)
qed

lemma map_pages_translate:
  assumes "\<And>q. q < 1048576 \<Longrightarrow> vmem m' pgdir q = map_pages p (Suc n) pa perm (vmem m pgdir) q"
    and "aligned 4096 pa" "perm < 4096" "p = unat va div 4096"
  shows "translate m' pgdir x = (if p \<le> unat x div 4096 \<and> unat x div 4096 \<le> p + n
    then Some (pa + (x - PGROUNDDOWN va)) else translate m pgdir x)"
proof -
  have q: "unat x div 4096 < 1048576" using unat_lt32 [of x] by (simp add: less_mult_imp_div_less)
  note E = page_shift [OF assms(4), of x pa]
  show ?thesis
  proof (cases "p \<le> unat x div 4096 \<and> unat x div 4096 \<le> p + n")
    case True
    then have "vmem m' pgdir (unat x div 4096) = Some ((pa + of_nat (4096 * (unat x div 4096 - p))) OR perm OR PTE_P)"
      using assms(1) [OF q] by (auto simp: map_pages_def)
    then show ?thesis using True E
      by (simp only: translate_def option.map PTE_ADDR_mapped [OF assms(2,3)] if_True simp_thms)
  next
    case False
    then show ?thesis using assms(1) [OF q] by (auto simp: translate_def map_pages_def)
  qed
qed

text \<open>A range that overlaps an existing mapping is never mapped.\<close>

lemma remap_panics:
  assumes "vmem (mem s) pgdir p = Some e" "unat a = 4096 * p" "vm_ok (mem s) pgdir fs" "p < 1048576"
  shows "mappages_loop (Suc fuel) pgdir a b pa perm s = Panic ''remap'' s"
proof -
  obtain tb where tb: "tbl (mem s) pgdir (p div 1024) = Some tb" "present (read32 (mem s) (entry_at tb (p mod 1024)))"
    using assms(1) by (auto simp: vmem_def Let_def split: option.splits if_splits)
  have "entry_at tb (p mod 1024) \<noteq> 0"
    using entry_at_neq_0 [OF vm_okD(4) [OF assms(3) page_indices(1) [OF assms(4)] tb(1)]] by simp
  then show ?thesis using walk_present [of s pgdir a tb True] tb page_number [OF assms(2)] by simp
qed

lemma mappages_loop_remap:
  assumes "kmem_gives s fs" "vm_ok (mem s) pgdir fs" "unat a = 4096 * p" "p + Suc n \<le> 1048576"
    and "unat b = 4096 * (p + n)" "n < fuel" "p \<le> q" "q \<le> p + n" "vmem (mem s) pgdir q \<noteq> None"
  shows "\<exists>t. mappages_loop fuel pgdir a b pa perm s = Panic ''remap'' t \<or>
    mappages_loop fuel pgdir a b pa perm s = Ret (- 1) t"
  using assms
proof (induction n arbitrary: s fs a p pa fuel)
  case (0 s fs a p pa fuel)
  then obtain f e where "fuel = Suc f" "vmem (mem s) pgdir p = Some e" by (cases fuel) auto
  then show ?case using remap_panics [of s pgdir p e a fs f b pa perm] 0 by simp
next
  case (Suc n s fs a p pa fuel)
  note prems = Suc.prems
  obtain f where fuel: "fuel = Suc f" "n < f" using prems(6) by (cases fuel) auto
  show ?case
  proof (cases "vmem (mem s) pgdir p")
    case (Some e)
    then show ?thesis using remap_panics [OF Some prems(3,2), of f b pa perm] prems(4) fuel(1) by simp
  next
    case None
    have p: "p < 1048576" "p < q" using prems(4,7,9) None by (auto simp: le_less)
    have neq: "a \<noteq> b" using prems(3,5) by auto
    show ?thesis
    proof (rule map_one [OF prems(1-3) p(1) None, of f b pa perm])
      fix t
      assume "mappages_loop (Suc f) pgdir a b pa perm s = Ret (- 1) t"
      then show ?thesis unfolding fuel(1) by blast
    next
      fix tb u fs'
      assume u: "vm_grow pgdir s fs u fs'"
        and vm: "\<And>q. q < 1048576 \<Longrightarrow> vmem (mem u) pgdir q =
          (if q = p then Some (pa OR perm OR PTE_P) else vmem (mem s) pgdir q)"
        and run: "mappages_loop (Suc f) pgdir a b pa perm s = (if a = b then Ret 0 u
          else mappages_loop f pgdir (a + 4096) b (pa + 4096) perm u)"
      have "unat (a + 4096) = 4096 * Suc p" using prems(3,4) by (simp add: unat_add32)
      moreover have "vmem (mem u) pgdir q \<noteq> None" using vm [of q] prems(4,8,9) by auto
      ultimately show ?thesis
        using Suc.IH [OF vm_growD(2,3) [OF u], of "a + 4096" "Suc p" f "pa + 4096"] prems(4,5,8) p(2) fuel(2)
        unfolding fuel(1) run using neq by simp
    qed
  qed
qed

section \<open>A concrete address space\<close>

text \<open>One free frame at \<open>0x80300000\<close> and an empty page directory at \<open>0x80200000\<close>.\<close>

lemma boot_heap:
  obtains s :: kmem where "kmem_gives s [0x80300000]" "kmem_frame boot_kmem s"
    "\<And>a. PGROUNDDOWN a \<noteq> 0x80300000 \<Longrightarrow> mem s a = 0"
proof -
  have free: "may_free boot_kmem [] 0x80300000"
    by (simp add: may_free_def frame_ok_def aligned_def V2P_def boot_kmem_def)
  then obtain s where s: "kfree 0x80300000 boot_kmem = Ret () s" "kmem_frame boot_kmem s" "kmem_ok s [0x80300000]"
    "mem s = freed_mem (mem boot_kmem) 0x80300000 (kmem_freelist boot_kmem)"
    using kfree_frame [OF boot_kmem_empty, of "0x80300000"] by (auto simp: may_free_def)
  have al: "aligned 4096 0x80300000" by (simp add: aligned_def)
  have "mem s a = 0" if "PGROUNDDOWN a \<noteq> 0x80300000" for a
    using that s(4) in_page_iff [OF al, of a] by (simp add: freed_mem_other) (simp add: boot_kmem_def)
  then show thesis using that [of s] s kmem_ready_frame [OF s(2)] boot_kmem_empty by (simp add: kmem_gives_def)
qed

lemma empty_dir:
  assumes "aligned 4096 pgdir" "\<And>a. PGROUNDDOWN a = pgdir \<Longrightarrow> m a = 0" "i < 1024"
  shows "tbl m pgdir i = None"
proof -
  have "read32 m (entry_at pgdir i) = read32 (\<lambda>_. 0) (entry_at pgdir i)"
    using assms by (intro read_entry_cong) (auto simp: in_page_iff)
  moreover have "read32 (\<lambda>_. 0) x = 0" for x by (simp add: read32_def)
  ultimately show ?thesis by (simp add: tbl_def Let_def)
qed

lemma boot_vm:
  obtains s :: kmem where "kmem_gives s [0x80300000]" "kmem_frame boot_kmem s"
    "vm_ok (mem s) 0x80200000 [0x80300000]" "\<And>i. i < 1024 \<Longrightarrow> tbl (mem s) 0x80200000 i = None"
    "\<And>q. q < 1048576 \<Longrightarrow> vmem (mem s) 0x80200000 q = None"
    "\<And>a. PGROUNDDOWN a \<noteq> 0x80300000 \<Longrightarrow> mem s a = 0"
proof (rule boot_heap)
  fix s :: kmem
  assume s: "kmem_gives s [0x80300000]" "kmem_frame boot_kmem s" "\<And>a. PGROUNDDOWN a \<noteq> 0x80300000 \<Longrightarrow> mem s a = 0"
  have none: "tbl (mem s) 0x80200000 i = None" if "i < 1024" for i
    using that s(3) by (intro empty_dir) (auto simp: aligned_def)
  then have "vmem (mem s) 0x80200000 q = None" if "q < 1048576" for q
    using that none page_indices(1) [OF that] by (simp add: vmem_def)
  moreover have "vm_ok (mem s) 0x80200000 [0x80300000]"
    using none by (simp add: vm_ok_def frame_ok_def aligned_def)
  ultimately show thesis using that s none by blast
qed

section \<open>Properties\<close>





end
