(* ===== verification/Uvm.thy ===== *)
theory Uvm
  imports Paging
begin

text \<open>
  Taking address spaces down (\<^verbatim>\<open>kernel/paging.c\<close>: \<open>deallocuvm\<close>, \<open>freevm\<close>) and loading the
  first program (\<open>inituvm\<close>): which frames go back to the allocator and what is left mapped.
\<close>

section \<open>Unmapping a range\<close>

definition page_at :: "u32 \<Rightarrow> addr" where
  "page_at e = P2V (PTE_ADDR e)"

definition user_frames :: "memory \<Rightarrow> addr \<Rightarrow> nat \<Rightarrow> nat \<Rightarrow> addr list" where
  "user_frames m pgdir lo hi =
     concat (map (\<lambda>p. case vmem m pgdir p of None \<Rightarrow> [] | Some e \<Rightarrow> [page_at e]) [lo ..< hi])"

text \<open>The address space owns its tables and the frames mapped from page \<open>lo\<close> up to page
  \<open>hi\<close>: all of them came from the heap and none is mapped twice.\<close>

definition vm_owned :: "'z kmem_scheme \<Rightarrow> addr \<Rightarrow> addr list \<Rightarrow> nat \<Rightarrow> nat \<Rightarrow> bool" where
  "vm_owned s pgdir fs lo hi \<longleftrightarrow> (\<forall>v \<in> vm_frames (mem s) pgdir. may_free s fs v) \<and>
     (\<forall>p e. lo \<le> p \<and> p < hi \<and> vmem (mem s) pgdir p = Some e \<longrightarrow>
        may_free s fs (page_at e) \<and> page_at e \<notin> vm_frames (mem s) pgdir) \<and>
     (\<forall>p q e e'. lo \<le> p \<and> p < hi \<and> lo \<le> q \<and> q < hi \<and> vmem (mem s) pgdir p = Some e \<and>
        vmem (mem s) pgdir q = Some e' \<and> page_at e = page_at e' \<longrightarrow> p = q)"

text \<open>The effect of unmapping pages \<open>lo\<close> to \<open>hi\<close>.\<close>

definition vm_unmap :: "addr \<Rightarrow> nat \<Rightarrow> nat \<Rightarrow> 'z kmem_scheme \<Rightarrow> addr list \<Rightarrow> 'z kmem_scheme \<Rightarrow> addr list \<Rightarrow> bool" where
  "vm_unmap pgdir lo hi s fs t fs' \<longleftrightarrow> kmem_frame s t \<and> kmem_gives t fs' \<and> vm_ok (mem t) pgdir fs' \<and>
     fs' = rev (user_frames (mem s) pgdir lo hi) @ fs \<and>
     (\<forall>k < 1024. tbl (mem t) pgdir k = tbl (mem s) pgdir k) \<and>
     (\<forall>q < 1048576. vmem (mem t) pgdir q = (if lo \<le> q \<and> q < hi then None else vmem (mem s) pgdir q)) \<and>
     (\<forall>a. PGROUNDDOWN a \<notin> vm_frames (mem s) pgdir \<union> set (user_frames (mem s) pgdir lo hi) \<longrightarrow> mem t a = mem s a)"

lemma vm_frames_tbl:
  "(\<And>k. k < 1024 \<Longrightarrow> tbl m' pgdir k = tbl m pgdir k) \<Longrightarrow> vm_frames m' pgdir = vm_frames m pgdir"
  by (auto simp: vm_frames_def)

lemma user_frames_empty: "hi \<le> lo \<Longrightarrow> user_frames m pgdir lo hi = []"
  by (simp add: user_frames_def)

lemma user_frames_step:
  "lo < hi \<Longrightarrow> user_frames m pgdir lo hi =
     (case vmem m pgdir lo of None \<Rightarrow> [] | Some e \<Rightarrow> [page_at e]) @ user_frames m pgdir (Suc lo) hi"
  by (simp add: user_frames_def upt_conv_Cons)

lemma user_frames_skip:
  assumes "\<And>q. lo \<le> q \<Longrightarrow> q < lo' \<Longrightarrow> vmem m pgdir q = None" "lo \<le> lo'"
  shows "user_frames m pgdir lo hi = user_frames m pgdir lo' hi"
  using assms(2,1)
proof (induction rule: dec_induct)
  case (step n)
  have "user_frames m pgdir n hi = user_frames m pgdir (Suc n) hi"
  proof (cases "n < hi")
    case True
    then show ?thesis using step.prems [of n] step.hyps by (simp add: user_frames_step)
  qed (simp add: user_frames_empty)
  then show ?case using step by simp
qed simp

lemma user_frames_cong:
  "(\<And>q. lo \<le> q \<Longrightarrow> q < hi \<Longrightarrow> vmem m' pgdir q = vmem m pgdir q) \<Longrightarrow>
   user_frames m' pgdir lo hi = user_frames m pgdir lo hi"
  unfolding user_frames_def by (intro arg_cong [of _ _ concat] map_cong) auto

lemma vm_owned_skip: "vm_owned s pgdir fs lo hi \<Longrightarrow> lo \<le> lo' \<Longrightarrow> vm_owned s pgdir fs lo' hi"
  unfolding vm_owned_def by (meson order_trans)

lemma vm_unmap_refl:
  assumes "kmem_gives s fs" "vm_ok (mem s) pgdir fs" "hi \<le> lo"
  shows "vm_unmap pgdir lo hi s fs s fs"
  using assms by (auto simp: vm_unmap_def user_frames_empty)

text \<open>Pages without an entry need no step.\<close>

lemma vm_unmap_skip:
  assumes "\<And>q. lo \<le> q \<Longrightarrow> q < lo' \<Longrightarrow> vmem (mem s) pgdir q = None" "lo \<le> lo'"
    and "vm_unmap pgdir lo' hi s fs t fs'"
  shows "vm_unmap pgdir lo hi s fs t fs'"
proof -
  have uf: "user_frames (mem s) pgdir lo hi = user_frames (mem s) pgdir lo' hi"
    using assms(1,2) by (rule user_frames_skip)
  have vm: "(if lo' \<le> q \<and> q < hi then None else vmem (mem s) pgdir q) =
      (if lo \<le> q \<and> q < hi then None else vmem (mem s) pgdir q)" for q
    using assms(1) [of q] assms(2) by auto
  show ?thesis using assms(3) unfolding vm_unmap_def uf vm .
qed

text \<open>Freeing the frame of one page and clearing its entry.\<close>

lemma unmap_page:
  assumes g: "kmem_gives s fs" and v: "vm_ok (mem s) pgdir fs" and own: "vm_owned s pgdir fs p hi"
    and p: "p < hi" "hi \<le> 1048576" and tb: "tbl (mem s) pgdir (p div 1024) = Some tb"
    and e: "vmem (mem s) pgdir p = Some e"
  shows "\<exists>t. kfree (page_at e) s = Ret () t \<and>
    (let u = t\<lparr>mem := write32 (mem t) (entry_at tb (p mod 1024)) 0\<rparr> in
      vm_unmap pgdir p (Suc p) s fs u (page_at e # fs) \<and> vm_owned u pgdir (page_at e # fs) (Suc p) hi)"
proof -
  let ?v = "page_at e"
  have P: "p < 1048576" using p by simp
  note ix = page_indices(1) [OF P] page_indices(2) [of p]
  have own': "may_free s fs ?v" "?v \<notin> vm_frames (mem s) pgdir"
    using own e p(1) unfolding vm_owned_def by blast+
  obtain t where t: "kfree ?v s = Ret () t" "kmem_frame s t" "kmem_ok t (?v # fs)"
    "mem t = freed_mem (mem s) ?v (kmem_freelist s)"
    using kfree_frame [of s fs ?v] g own'(1) by (auto simp: kmem_gives_def may_free_def)
  have gt: "kmem_gives t (?v # fs)" using t g kmem_ready_frame [OF t(2)] by (simp add: kmem_gives_def)
  have al: "aligned 4096 ?v" using own'(1) by (simp add: may_free_def frame_ok_def)
  have out: "mem t a = mem s a" if "PGROUNDDOWN a \<noteq> ?v" for a
    using that al by (simp add: t(4) freed_mem_other in_page_iff)
  have T: "tbl (mem t) pgdir k = tbl (mem s) pgdir k" if "k < 1024" for k
    using that own'(2) vm_okD(2) [OF v] by (intro tbl_cong out) (auto simp: in_page_iff vm_frames_def)
  have V: "vmem (mem t) pgdir q = vmem (mem s) pgdir q" if "q < 1048576" for q
    using that own'(2) vm_okD(2,5) [OF v] by (intro vmem_cong out) auto
  have vt: "vm_ok (mem t) pgdir (?v # fs)"
    using v T own'(2) unfolding vm_ok_def by (auto simp: vm_frames_def)
  have tb': "tbl (mem t) pgdir (p div 1024) = Some tb" using T [OF ix(1)] tb by simp
  define u where "u = t\<lparr>mem := write32 (mem t) (entry_at tb (p mod 1024)) 0\<rparr>"
  note W = write_pte_vm [OF vt ix(1) tb' ix(2), where e = 0]
  have mu: "mem u = write32 (mem t) (entry_at tb (p mod 1024)) 0" by (simp add: u_def)
  note G = set_pte_grow [OF gt vt ix(1) tb' ix(2), of 0, folded u_def]
  have fr: "vm_frames (mem u) pgdir = vm_frames (mem s) pgdir"
    using W(3) vm_frames_tbl [OF T] by (simp add: mu)
  have vu: "vmem (mem u) pgdir q = (if q = p then None else vmem (mem s) pgdir q)" if "q < 1048576" for q
    unfolding mu using W(4) [OF that] V [OF that] by (simp only: page_split) simp
  have uf: "user_frames (mem s) pgdir p (Suc p) = [?v]" by (simp add: user_frames_step user_frames_empty e)
  have "vm_unmap pgdir p (Suc p) s fs u (?v # fs)"
    unfolding vm_unmap_def uf
    using vm_growD [OF G] kmem_frame_trans [OF t(2)] W(2) T vu out G fr by (auto simp: vm_grow_def mu)
  moreover have "vm_owned u pgdir (?v # fs) (Suc p) hi"
  proof -
    have mf: "may_free u (?v # fs) w \<longleftrightarrow> may_free s fs w \<and> w \<noteq> ?v" for w
      using t(2) by (auto simp: may_free_def u_def kmem_frame_def)
    have ne: "page_at e' \<noteq> ?v" if "Suc p \<le> q" "q < hi" "vmem (mem s) pgdir q = Some e'" for q e'
      using own that e p(1) unfolding vm_owned_def by (metis Suc_leD Suc_n_not_le_n order_refl)
    have vq: "vmem (mem u) pgdir q = vmem (mem s) pgdir q" if "Suc p \<le> q" "q < hi" for q
      using vu [of q] that p(2) by simp
    show ?thesis unfolding vm_owned_def fr mf
    proof (intro conjI ballI allI impI)
      fix w
      assume "w \<in> vm_frames (mem s) pgdir"
      then show "may_free s fs w" "w \<noteq> ?v" using own own'(2) by (auto simp: vm_owned_def)
    next
      fix q e'
      assume "Suc p \<le> q \<and> q < hi \<and> vmem (mem u) pgdir q = Some e'"
      then have q: "Suc p \<le> q" "p \<le> q" "q < hi" "vmem (mem s) pgdir q = Some e'" using vq by auto
      show "page_at e' \<noteq> ?v" using ne q by blast
      show "may_free s fs (page_at e')" "page_at e' \<notin> vm_frames (mem s) pgdir"
        using own q unfolding vm_owned_def by blast+
    next
      fix q r e1 e2
      assume "Suc p \<le> q \<and> q < hi \<and> Suc p \<le> r \<and> r < hi \<and> vmem (mem u) pgdir q = Some e1 \<and>
        vmem (mem u) pgdir r = Some e2 \<and> page_at e1 = page_at e2"
      then have "p \<le> q \<and> q < hi \<and> p \<le> r \<and> r < hi \<and> vmem (mem s) pgdir q = Some e1 \<and>
        vmem (mem s) pgdir r = Some e2 \<and> page_at e1 = page_at e2" using vq by auto
      then show "q = r" using own unfolding vm_owned_def by blast
    qed
  qed
  ultimately show ?thesis using t(1) by (auto simp: u_def Let_def)
qed

lemma vm_unmap_step:
  assumes a: "vm_unmap pgdir p (Suc p) s fs u gs" and b: "vm_unmap pgdir (Suc p) hi u gs t fs'"
    and p: "p < hi" "hi \<le> 1048576"
  shows "vm_unmap pgdir p hi s fs t fs'"
proof -
  have vu: "vmem (mem u) pgdir q = vmem (mem s) pgdir q" if "Suc p \<le> q" "q < hi" for q
    using a that p by (simp add: vm_unmap_def)
  have uf: "user_frames (mem u) pgdir (Suc p) hi = user_frames (mem s) pgdir (Suc p) hi"
    using vu by (rule user_frames_cong)
  have split: "user_frames (mem s) pgdir p hi =
      user_frames (mem s) pgdir p (Suc p) @ user_frames (mem s) pgdir (Suc p) hi"
    using p(1) by (simp add: user_frames_step [of p] user_frames_empty)
  have T: "tbl (mem u) pgdir k = tbl (mem s) pgdir k" if "k < 1024" for k using a that by (simp add: vm_unmap_def)
  have "vmem (mem t) pgdir q = (if p \<le> q \<and> q < hi then None else vmem (mem s) pgdir q)" if "q < 1048576" for q
    using a b that p(1) by (auto simp: vm_unmap_def)
  moreover have "mem t x = mem s x"
    if "PGROUNDDOWN x \<notin> vm_frames (mem s) pgdir \<union> set (user_frames (mem s) pgdir p hi)" for x
    using a b that split uf vm_frames_tbl [OF T] by (simp add: vm_unmap_def)
  moreover have "kmem_frame s t" using a b kmem_frame_trans by (auto simp: vm_unmap_def)
  ultimately show ?thesis using a b split uf T unfolding vm_unmap_def by auto
qed

lemma walk_no_alloc:
  assumes "unat a = 4096 * p"
  shows "walkpgdir pgdir a False s =
    Ret (case tbl (mem s) pgdir (p div 1024) of None \<Rightarrow> 0 | Some tb \<Rightarrow> entry_at tb (p mod 1024)) s"
  using walk_present [of s pgdir a _ False] walk_absent [of s pgdir a] page_number [OF assms]
  by (cases "tbl (mem s) pgdir (p div 1024)") auto

lemma next_table:
  assumes "unat (a :: u32) = 4096 * p" "p < 524288"
  shows "unat (PGADDR (PDX a + 1) 0 0) = 4096 * (1024 * Suc (p div 1024))"
proof -
  have d: "p div 1024 < 512" using assms(2) by (simp add: less_mult_imp_div_less)
  then have "(p div 1024 * 4194304 + 4194304) mod 4294967296 = p div 1024 * 4194304 + 4194304" by (intro mod_less) simp
  then show ?thesis using d page_number(1) [OF assms(1)]
    by (simp add: PGADDR_def push_bit_eq_mult unat_word_ariths mod_add_left_eq)
qed

text \<open>One iteration of the loop: it skips an absent table, an empty entry, or frees a page.\<close>

lemma dealloc_step:
  assumes g: "kmem_gives s fs" and v: "vm_ok (mem s) pgdir fs" and own: "vm_owned s pgdir fs p hi"
    and a: "unat a = 4096 * p" and p: "p < hi" "hi \<le> 524288" and less: "a < oldsz"
  obtains p' a' u gs where "p < p'" "p' \<le> 524288" "unat a' = 4096 * p'"
    "deallocuvm_loop (Suc fuel) pgdir a oldsz s = deallocuvm_loop fuel pgdir a' oldsz u"
    "kmem_gives u gs" "vm_ok (mem u) pgdir gs" "vm_owned u pgdir gs p' hi"
    "\<And>t fs'. vm_unmap pgdir p' hi u gs t fs' \<Longrightarrow> vm_unmap pgdir p hi s fs t fs'"
proof -
  have p5: "p < 524288" using p by simp
  have a': "unat (a + 4096) = 4096 * Suc p" using a p5 by (simp add: unat_add32)
  note walk = walk_no_alloc [OF a, of pgdir s]
  show thesis
  proof (cases "tbl (mem s) pgdir (p div 1024)")
    case None
    let ?p = "1024 * Suc (p div 1024)"
    have none: "vmem (mem s) pgdir q = None" if "p \<le> q" "q < ?p" for q
    proof -
      have "q div 1024 = p div 1024" using that div_le_mono [OF that(1), of 1024] by auto
      then show ?thesis using None by (simp add: vmem_def)
    qed
    have le: "p < ?p" "?p \<le> 524288" using p5 by auto
    show thesis
      by (rule that [OF le next_table [OF a p5] _ g v vm_owned_skip [OF own] vm_unmap_skip [OF none]])
         (use walk None less le in auto)
  next
    case (Some tb)
    have "frame_ok tb" using Some p5 by (intro vm_okD(4) [OF v]) (simp_all add: less_mult_imp_div_less)
    then have nz: "entry_at tb (p mod 1024) \<noteq> 0" by (simp add: entry_at_neq_0)
    let ?e = "read32 (mem s) (entry_at tb (p mod 1024))"
    have vm: "vmem (mem s) pgdir p = (if present ?e then Some ?e else None)" using Some by (simp add: vmem_def Let_def)
    show thesis
    proof (cases "present ?e")
      case False
      have "vmem (mem s) pgdir q = None" if "p \<le> q" "q < Suc p" for q
        using that vm False by (simp add: le_antisym less_Suc_eq_le)
      note skip = vm_unmap_skip [OF this]
      show thesis
        by (rule that [OF _ _ a' _ g v vm_owned_skip [OF own] skip]) (use walk Some nz False less p5 in auto)
    next
      case True
      then have e: "vmem (mem s) pgdir p = Some ?e" using vm by simp
      let ?u = "\<lambda>t :: 'a kmem_scheme. t\<lparr>mem := write32 (mem t) (entry_at tb (p mod 1024)) 0\<rparr>"
      obtain t where t: "kfree (page_at ?e) s = Ret () t"
        "vm_unmap pgdir p (Suc p) s fs (?u t) (page_at ?e # fs)" "vm_owned (?u t) pgdir (page_at ?e # fs) (Suc p) hi"
        using unmap_page [OF g v own p(1) _ Some e] p by (auto simp: Let_def)
      have "may_free s fs (page_at ?e)" using own e p(1) unfolding vm_owned_def by blast
      then have "PTE_ADDR ?e \<noteq> 0" by (auto simp: page_at_def may_free_def frame_ok_def P2V_def)
      then have run: "deallocuvm_loop (Suc fuel) pgdir a oldsz s = deallocuvm_loop fuel pgdir (a + 4096) oldsz (?u t)"
        using walk Some nz True less t(1) by (simp add: page_at_def)
      have "kmem_gives (?u t) (page_at ?e # fs)" "vm_ok (mem (?u t)) pgdir (page_at ?e # fs)"
        using t(2) by (simp_all add: vm_unmap_def)
      then show thesis using that [OF _ _ a' run _ _ t(3) vm_unmap_step [OF t(2)]] p by auto
    qed
  qed
qed

lemma dealloc_loop_returns:
  assumes "kmem_gives s fs" "vm_ok (mem s) pgdir fs" "vm_owned s pgdir fs p hi"
    and "unat a = 4096 * p" "p \<le> 524288" "hi = (unat oldsz + 4095) div 4096" "oldsz \<le> 0x80000000"
    and "hi - p < fuel"
  shows "\<exists>t fs'. deallocuvm_loop fuel pgdir a oldsz s = Ret () t \<and> vm_unmap pgdir p hi s fs t fs'"
  using assms
proof (induction fuel arbitrary: s fs a p)
  case (Suc fuel)
  note prems = Suc.prems
  have hi: "hi \<le> 524288" using prems(6,7) by (simp add: word_le_nat_alt)
  have less: "a < oldsz \<longleftrightarrow> p < hi" using prems(4,6) by (auto simp: word_less_nat_alt)
  show ?case
  proof (cases "p < hi")
    case False
    have "deallocuvm_loop (Suc fuel) pgdir a oldsz s = Ret () s" using False less by simp
    then show ?thesis using vm_unmap_refl [OF prems(1,2), of hi p] False by auto
  next
    case True
    then have lt: "a < oldsz" using less by simp
    show ?thesis
    proof (rule dealloc_step [OF prems(1-4) True hi lt, where fuel = fuel])
      fix p' a' u gs
      assume u: "p < p'" "p' \<le> 524288" "unat a' = 4096 * p'"
        "deallocuvm_loop (Suc fuel) pgdir a oldsz s = deallocuvm_loop fuel pgdir a' oldsz u"
        "kmem_gives u gs" "vm_ok (mem u) pgdir gs" "vm_owned u pgdir gs p' hi"
        "\<And>t fs'. vm_unmap pgdir p' hi u gs t fs' \<Longrightarrow> vm_unmap pgdir p hi s fs t fs'"
      have "hi - p' < fuel" using prems(8) u(1) True by simp
      then obtain t fs' where "deallocuvm_loop fuel pgdir a' oldsz u = Ret () t" "vm_unmap pgdir p' hi u gs t fs'"
        using Suc.IH [OF u(5,6,7,3,2) prems(6,7)] by blast
      then show ?thesis using u(4,8) by metis
    qed
  qed
qed simp

section \<open>Destroying an address space\<close>

definition tables :: "memory \<Rightarrow> addr \<Rightarrow> nat \<Rightarrow> addr list" where
  "tables m pgdir n = List.map_filter (tbl m pgdir) [0 ..< n]"

lemma set_tables: "set (tables m pgdir n) = {t. \<exists>i < n. tbl m pgdir i = Some t}"
  by (force simp: tables_def map_filter_def)

lemma tables_Suc:
  "tables m pgdir (Suc n) = tables m pgdir n @ (case tbl m pgdir n of None \<Rightarrow> [] | Some t \<Rightarrow> [t])"
  by (simp add: tables_def map_filter_def split: option.splits)

lemma tables_cong: "(\<And>k. k < n \<Longrightarrow> tbl m' pgdir k = tbl m pgdir k) \<Longrightarrow> tables m' pgdir n = tables m pgdir n"
  by (induction n) (simp_all add: tables_Suc tables_def map_filter_def)

lemma tables_fresh:
  assumes "vm_ok m pgdir fs" "n < 1024" "tbl m pgdir n = Some t"
  shows "t \<notin> set (tables m pgdir n)"
proof
  assume "t \<in> set (tables m pgdir n)"
  then obtain i where "i < n" "tbl m pgdir i = Some t" by (auto simp: set_tables)
  then show False using vm_okD(8) [OF assms(1), of i n t] assms(2,3) by simp
qed

lemma pgdir_no_table:
  assumes "vm_ok m pgdir fs" "n \<le> 1024"
  shows "pgdir \<notin> set (tables m pgdir n)"
proof
  assume "pgdir \<in> set (tables m pgdir n)"
  then obtain i where "i < n" "tbl m pgdir i = Some pgdir" by (auto simp: set_tables)
  then show False using vm_okD(6) [OF assms(1), of i pgdir] assms(2) by simp
qed

lemma free_tables:
  assumes g: "kmem_gives s fs" and v: "vm_ok (mem s) pgdir fs"
    and own: "\<And>f. f \<in> vm_frames (mem s) pgdir \<Longrightarrow> may_free s fs f" and n: "n \<le> 1024"
  shows "\<exists>t. forK [0 ..< n] (free_table pgdir) s = Ret () t \<and>
    kmem_frame s t \<and> kmem_gives t (rev (tables (mem s) pgdir n) @ fs) \<and>
    (\<forall>a. PGROUNDDOWN a \<notin> set (tables (mem s) pgdir n) \<longrightarrow> mem t a = mem s a)"
  using n
proof (induction n)
  case 0
  then show ?case using g by (simp add: tables_def map_filter_def)
next
  case (Suc n)
  have n: "n < 1024" using Suc.prems by simp
  obtain t where t: "forK [0 ..< n] (free_table pgdir) s = Ret () t" "kmem_frame s t"
    "kmem_gives t (rev (tables (mem s) pgdir n) @ fs)"
    "\<And>a. PGROUNDDOWN a \<notin> set (tables (mem s) pgdir n) \<Longrightarrow> mem t a = mem s a"
    using Suc by auto
  have np: "pgdir \<notin> set (tables (mem s) pgdir n)" using pgdir_no_table [OF v] n by simp
  have "tbl (mem t) pgdir n = tbl (mem s) pgdir n"
    using np vm_okD(2) [OF v] by (intro tbl_cong [OF n] t(4)) (simp add: in_page_iff)
  moreover have "unat (of_nat n :: u32) = n" using n by (simp add: unat_of_nat32)
  ultimately have step: "free_table pgdir n t = (case tbl (mem s) pgdir n of None \<Rightarrow> Ret () t | Some f \<Rightarrow> kfree f t)"
    by (auto simp: free_table_def entry_ptr_at tbl_def Let_def split: if_splits)
  have run: "forK [0 ..< Suc n] (free_table pgdir) s = free_table pgdir n t" using t(1) by (simp add: forK_append thenK_skip)
  show ?case
  proof (cases "tbl (mem s) pgdir n")
    case None
    then show ?thesis unfolding run step tables_Suc using t by auto
  next
    case (Some f)
    have "may_free s fs f" using own Some n by (auto simp: vm_frames_def)
    then have "may_free t (rev (tables (mem s) pgdir n) @ fs) f"
      using t(2) tables_fresh [OF v n Some] by (auto simp: may_free_def kmem_frame_def)
    then obtain u where u: "kfree f t = Ret () u" "kmem_frame t u" "kmem_ok u (f # rev (tables (mem s) pgdir n) @ fs)"
      "mem u = freed_mem (mem t) f (kmem_freelist t)"
      using t(3) kfree_frame [of t "rev (tables (mem s) pgdir n) @ fs" f] by (auto simp: kmem_gives_def may_free_def)
    have "mem u a = mem s a" if "PGROUNDDOWN a \<notin> set (tables (mem s) pgdir (Suc n))" for a
      using that t(4) vm_okD(5) [OF v n Some] by (simp add: u(4) tables_Suc Some freed_mem_other in_page_iff)
    moreover have "kmem_gives u (f # rev (tables (mem s) pgdir n) @ fs)"
      using u(3) t(3) kmem_ready_frame [OF u(2)] by (simp add: kmem_gives_def)
    ultimately show ?thesis unfolding run step using u(1) kmem_frame_trans [OF t(2) u(2)] Some
      by (auto simp: tables_Suc)
  qed
qed


lemma vm_owned_unmapped:
  assumes "vm_owned s pgdir fs lo hi" "vm_unmap pgdir lo hi s fs t fs'" "f \<in> vm_frames (mem s) pgdir"
  shows "may_free t fs' f"
proof -
  have "f \<notin> set (user_frames (mem s) pgdir lo hi)"
    using assms(1,3) by (auto simp: user_frames_def vm_owned_def split: option.splits)
  then show ?thesis using assms by (auto simp: vm_owned_def vm_unmap_def may_free_def kmem_frame_def)
qed

lemma freevm_returns:
  assumes g: "kmem_gives s fs" and v: "vm_ok (mem s) pgdir fs" and own: "vm_owned s pgdir fs 0 524288"
  shows "\<exists>t. freevm pgdir s = Ret () t \<and> kmem_frame s t \<and>
    kmem_gives t (pgdir # rev (tables (mem s) pgdir 1024) @ rev (user_frames (mem s) pgdir 0 524288) @ fs) \<and>
    (\<forall>a. PGROUNDDOWN a \<notin> vm_frames (mem s) pgdir \<union> set (user_frames (mem s) pgdir 0 524288) \<longrightarrow> mem t a = mem s a)"
proof -
  have "\<exists>t fs'. deallocuvm_loop 1048577 pgdir 0 0x80000000 s = Ret () t \<and> vm_unmap pgdir 0 524288 s fs t fs'"
    by (rule dealloc_loop_returns [OF g v own]) simp_all
  then obtain t fs' where t: "deallocuvm_loop 1048577 pgdir 0 0x80000000 s = Ret () t"
    "vm_unmap pgdir 0 524288 s fs t fs'" by blast
  have "PGROUNDUP 0 = 0" by (simp add: PGROUNDUP_def)
  then have dealloc: "deallocuvm pgdir KERNBASE 0 s = Ret 0 t" using t(1) by (simp add: deallocuvm_def)
  have T: "kmem_gives t fs'" "vm_ok (mem t) pgdir fs'" "fs' = rev (user_frames (mem s) pgdir 0 524288) @ fs"
    "\<And>k. k < 1024 \<Longrightarrow> tbl (mem t) pgdir k = tbl (mem s) pgdir k" "kmem_frame s t"
    using t(2) unfolding vm_unmap_def by blast+
  have fr: "vm_frames (mem t) pgdir = vm_frames (mem s) pgdir" using T(4) by (rule vm_frames_tbl)
  have tb: "tables (mem t) pgdir 1024 = tables (mem s) pgdir 1024"
    using T(4) by (rule tables_cong)
  note free = vm_owned_unmapped [OF own t(2)]
  obtain u where u: "forK [0 ..< 1024] (free_table pgdir) t = Ret () u" "kmem_frame t u"
    "kmem_gives u (rev (tables (mem s) pgdir 1024) @ fs')"
    "\<And>a. PGROUNDDOWN a \<notin> set (tables (mem s) pgdir 1024) \<Longrightarrow> mem u a = mem t a"
    using free_tables [OF T(1,2) free, of 1024] unfolding fr tb by (auto simp del: upt_rec_numeral)
  have "pgdir \<notin> set (tables (mem s) pgdir 1024)" using pgdir_no_table [OF v] by simp
  then have "may_free u (rev (tables (mem s) pgdir 1024) @ fs') pgdir"
    using free [of pgdir] u(2) by (auto simp: vm_frames_def may_free_def kmem_frame_def)
  then obtain w where w: "kfree pgdir u = Ret () w" "kmem_frame u w" "kmem_ok w (pgdir # rev (tables (mem s) pgdir 1024) @ fs')"
    "mem w = freed_mem (mem u) pgdir (kmem_freelist u)"
    using u(3) kfree_frame [of u "rev (tables (mem s) pgdir 1024) @ fs'" pgdir]
    by (auto simp: kmem_gives_def may_free_def)
  have "pgdir \<noteq> 0" using vm_okD(1) [OF v] by (auto simp: frame_ok_def)
  then have "freevm pgdir s = Ret () w" using dealloc u(1) w(1) by (simp add: freevm_def del: upt_rec_numeral)
  moreover have "kmem_frame s w" using T(5) u(2) w(2) by (blast intro: kmem_frame_trans)
  moreover have "kmem_gives w (pgdir # rev (tables (mem s) pgdir 1024) @ fs')"
    using w(3) u(3) kmem_ready_frame [OF w(2)] by (simp add: kmem_gives_def)
  moreover have "mem w a = mem s a"
    if "PGROUNDDOWN a \<notin> vm_frames (mem s) pgdir \<union> set (user_frames (mem s) pgdir 0 524288)" for a
  proof -
    have "PGROUNDDOWN a \<noteq> pgdir" "PGROUNDDOWN a \<notin> set (tables (mem s) pgdir 1024)"
      using that by (auto simp: vm_frames_def set_tables)
    then have "mem w a = mem t a" using u(4) vm_okD(2) [OF v] by (simp add: w(4) freed_mem_other in_page_iff)
    also have "\<dots> = mem s a" using that t(2) unfolding vm_unmap_def by blast
    finally show ?thesis .
  qed
  ultimately show ?thesis unfolding T(3) by blast
qed

section \<open>Loading the first program\<close>

text \<open>Writing into a frame that belongs to nobody else leaves address space and heap alone.\<close>

lemma write_private:
  assumes g: "kmem_gives s fs" and v: "vm_ok (mem s) pgdir fs"
    and f: "aligned 4096 f" "f \<notin> set fs" "f \<notin> vm_frames (mem s) pgdir"
    and m: "\<And>a. PGROUNDDOWN a \<noteq> f \<Longrightarrow> m a = mem s a"
  shows "kmem_gives (s\<lparr>mem := m\<rparr>) fs" "vm_ok m pgdir fs" "\<And>i. i < 1024 \<Longrightarrow> tbl m pgdir i = tbl (mem s) pgdir i"
    and "\<And>q. q < 1048576 \<Longrightarrow> vmem m pgdir q = vmem (mem s) pgdir q" "vm_frames m pgdir = vm_frames (mem s) pgdir"
proof -
  show "kmem_gives (s\<lparr>mem := m\<rparr>) fs"
  proof (rule kmem_gives_upd_mem [OF g])
    fix a
    assume "PGROUNDDOWN a \<in> set fs"
    then show "m a = mem s a" using f(2) by (intro m) auto
  qed
  show T: "tbl m pgdir i = tbl (mem s) pgdir i" if "i < 1024" for i
    using that f vm_okD(2) [OF v] by (intro tbl_cong m) (auto simp: in_page_iff vm_frames_def)
  show "vm_ok m pgdir fs" using v T unfolding vm_ok_def by simp
  show "vmem m pgdir q = vmem (mem s) pgdir q" if "q < 1048576" for q
    using that f vm_okD(2,5) [OF v] by (intro vmem_cong m) auto
  show "vm_frames m pgdir = vm_frames (mem s) pgdir" using T by (rule vm_frames_tbl)
qed

lemma memmove_disjoint:
  assumes "\<not> in_region src (unat count) dst"
  shows "snd (memmove m dst src count) = (\<lambda>a. if in_region dst (unat count) a then m (src + (a - dst)) else m a)"
proof -
  have "count \<le> dst - src" using assms by (simp add: in_region_def word_le_nat_alt not_less)
  then show ?thesis using memcpy_forward [of count dst src m] by (simp add: memmove_def memcpy_def)
qed

lemma missing_one:
  assumes "tbl m pgdir (p div 1024) \<noteq> None \<or> fs \<noteq> []"
  shows "card (missing m pgdir p (Suc 0)) \<le> length fs"
proof -
  have "missing m pgdir p (Suc 0) = (if tbl m pgdir (p div 1024) = None then {p div 1024} else {})"
    by (auto simp: missing_def)
  then show ?thesis using assms by (cases fs) auto
qed

lemma loaded_bytes:
  assumes "aligned 4096 f" "i < 4096"
  shows "PGROUNDDOWN (f + of_nat i) = f" "in_region f n (f + of_nat i) \<longleftrightarrow> i < n"
  using assms in_page_iff [OF assms(1), of "f + of_nat i"]
  by (simp_all add: in_region_def unat_of_nat32)

lemma inituvm_returns:
  assumes g: "kmem_gives s (f # fs)" and v: "vm_ok (mem s) pgdir (f # fs)"
    and sz: "sz < 4096" and free: "vmem (mem s) pgdir 0 = None" and room: "tbl (mem s) pgdir 0 \<noteq> None \<or> fs \<noteq> []"
    and init: "\<And>i. i < unat sz \<Longrightarrow>
      PGROUNDDOWN (init + of_nat i) \<notin> insert f (set fs) \<union> vm_frames (mem s) pgdir"
  shows "\<exists>t fs'. inituvm pgdir init sz s = Ret () t \<and> kmem_frame s t \<and> kmem_gives t fs' \<and> vm_ok (mem t) pgdir fs' \<and>
    f \<notin> set fs' \<union> vm_frames (mem t) pgdir \<and>
    (\<forall>q < 1048576. vmem (mem t) pgdir q = (if q = 0 then Some (V2P f OR (PTE_W OR PTE_U) OR PTE_P) else vmem (mem s) pgdir q)) \<and>
    (\<forall>i < 4096. mem t (f + of_nat i) = (if i < unat sz then mem s (init + of_nat i) else 0)) \<and>
    (\<forall>x. PGROUNDDOWN x \<notin> insert f (set fs) \<union> vm_frames (mem s) pgdir \<longrightarrow> mem t x = mem s x) \<and>
    vm_frames (mem t) pgdir \<union> set fs' \<subseteq> vm_frames (mem s) pgdir \<union> set fs"
proof -
  note F = kmem_givesD [OF g]
  obtain a where a: "kalloc s = Ret f a" "kmem_frame s a" "mem a = mem s" "kmem_ok a fs"
    using kalloc_frame [of s f fs] g by (auto simp: kmem_gives_def)
  have ga: "kmem_gives a fs" using a g kmem_ready_frame [OF a(2)] by (simp add: kmem_gives_def)
  have va: "vm_ok (mem a) pgdir fs" using vm_ok_mono [OF v] a(3) by auto
  have nf: "f \<notin> vm_frames (mem a) pgdir" using vm_frames_not_free [OF v, of f] a(3) by auto
  define z where "z = snd (memset (mem a) f 0 4096)"
  have z: "z x = (if PGROUNDDOWN x = f then 0 else mem s x)" for x
    using F(4) a(3) by (simp add: z_def memset_eq in_page_iff)
  have "z x = mem a x" if "PGROUNDDOWN x \<noteq> f" for x using that z a(3) by simp
  note Z = write_private [OF ga va F(4,2) nf this]
  have "card (missing z pgdir 0 (Suc 0)) \<le> length fs"
    using room Z(3) [of 0] a(3) by (intro missing_one) simp
  then obtain b fs' where b: "mappages pgdir 0 4096 (V2P f) (PTE_W OR PTE_U) (a\<lparr>mem := z\<rparr>) = Ret 0 b"
    "vm_grow pgdir (a\<lparr>mem := z\<rparr>) fs b fs'"
    "\<forall>q < 1048576. vmem (mem b) pgdir q = map_pages 0 1 (V2P f) (PTE_W OR PTE_U) (vmem z pgdir) q"
    using mappages_refines [of "a\<lparr>mem := z\<rparr>" fs pgdir 4096 0 0 0 "V2P f" "PTE_W OR PTE_U"] Z(1,2,4) free a(3) by auto
  note B = vm_growD [OF b(2)]
  obtain us where us: "fs = us @ fs'" "vm_frames (mem b) pgdir = vm_frames (mem s) pgdir \<union> set us"
    using b(2) Z(5) a(3) by (auto simp: vm_grow_def)
  have nb: "f \<notin> vm_frames (mem b) pgdir" "f \<notin> set fs'" using us nf a(3) F(2) by auto
  have old: "mem b x = z x" if "PGROUNDDOWN x \<notin> vm_frames (mem b) pgdir" for x
    using b(2) that by (simp add: vm_grow_def)
  define m where "m = snd (memmove (mem b) f init sz)"
  have "\<not> in_region init (unat sz) f"
  proof
    assume "in_region init (unat sz) f"
    then obtain i where "i < unat sz" "f = init + of_nat i" using unat_lt32 [of sz] by (auto simp: in_region_iff)
    then show False using init [of i] aligned_PGROUNDDOWN_id [OF F(4)] by auto
  qed
  note m = memmove_disjoint [OF this, of "mem b", folded m_def]
  have mo: "m x = mem b x" if "PGROUNDDOWN x \<noteq> f" for x
    using that sz in_region_mono [of f "unat sz" x 4096] in_page_iff [OF F(4), of x]
    by (auto simp: m word_less_nat_alt)
  note M = write_private [OF B(2,3) F(4) nb(2,1) mo]
  have "m x = mem s x" if "PGROUNDDOWN x \<notin> insert f (set fs) \<union> vm_frames (mem s) pgdir" for x
    using that mo [of x] old [of x] us z [of x] by auto
  moreover
  have "m (f + of_nat i) = (if i < unat sz then mem s (init + of_nat i) else 0)" if i: "i < 4096" for i
    using old [of "init + of_nat i"] old [of "f + of_nat i"] init [of i] us z nb i loaded_bytes [OF F(4) i]
    by (auto simp: m)
  moreover have "inituvm pgdir init sz s = Ret () (b\<lparr>mem := m\<rparr>)"
    using sz a(1) b(1) by (simp add: inituvm_def z_def m_def not_le)
  moreover have "kmem_frame s (b\<lparr>mem := m\<rparr>)"
    using a(2) kmem_frame_upd_mem [of a z] B(1) kmem_frame_upd_mem [of b m] by (blast intro: kmem_frame_trans)
  moreover have "vm_frames m pgdir \<union> set fs' \<subseteq> vm_frames (mem s) pgdir \<union> set fs" using M(5) us by auto
  ultimately show ?thesis using M b(3) Z(4) a(3) nb
    by (intro exI [of _ "b\<lparr>mem := m\<rparr>"] exI [of _ fs']) (auto simp: map_pages_def)
qed

lemma page_bound: "unat (x :: u32) div 4096 < 1048576"
  using unat_lt32 [of x] by (simp add: less_mult_imp_div_less)

text \<open>Addresses under a mapping of page 0.\<close>

lemma page0_translate:
  assumes al: "aligned 4096 f"
    and v: "\<forall>q < 1048576. vmem m' pgdir q = (if q = 0 then Some (V2P f OR (PTE_W OR PTE_U) OR PTE_P) else vmem m pgdir q)"
  shows "i < 4096 \<Longrightarrow> translate m' pgdir (of_nat i) = Some (V2P f + of_nat i)"
    "4096 \<le> x \<Longrightarrow> translate m' pgdir x = translate m pgdir x"
proof -
  have "aligned 4096 (V2P f)" using al aligned_P2V [of "V2P f"] by simp
  then have tr: "translate m' pgdir x = (if unat x div 4096 = 0 then Some (V2P f + ADDR_PAGE_OFFSET x)
      else translate m pgdir x)" for x
    using v PTE_ADDR_mapped [of "V2P f" "PTE_W OR PTE_U" 0] page_bound [of x] by (simp add: translate_def)
  show "translate m' pgdir (of_nat i) = Some (V2P f + of_nat i)" if "i < 4096"
  proof -
    have u: "unat (of_nat i :: u32) = i" using that by (simp add: unat_of_nat32)
    then have "ADDR_PAGE_OFFSET (of_nat i) = of_nat i"
      using that unat_ADDR_PAGE_OFFSET [of "of_nat i"] by (simp add: word_unat_eq_iff)
    then show ?thesis using u that tr by simp
  qed
  show "translate m' pgdir x = translate m pgdir x" if "4096 \<le> x"
    using that tr by (simp add: word_le_nat_alt div_eq_0_iff)
qed

section \<open>Concrete address spaces\<close>

lemma PTE_ADDR_user: "PTE_ADDR (0x00400007) = 0x00400000"
  by (simp add: PTE_ADDR_def)

text \<open>The address space of the witnesses: one user page at 0 in the frame \<open>0x80400000\<close>, its
  table in \<open>0x80300000\<close>, its directory in \<open>0x80200000\<close>, and no other free frame.\<close>

lemma user_vm:
  obtains s :: kmem where "kmem_gives s []" "vm_ok (mem s) 0x80200000 []" "vm_owned s 0x80200000 [] 0 524288"
    "user_frames (mem s) 0x80200000 0 524288 = [0x80400000]" "vm_frames (mem s) 0x80200000 = {0x80200000, 0x80300000}"
    "\<And>q. q < 1048576 \<Longrightarrow> vmem (mem s) 0x80200000 q = (if q = 0 then Some 0x00400007 else None)"
proof (rule boot_vm)
  fix s :: kmem
  assume s: "kmem_gives s [0x80300000]" "kmem_frame boot_kmem s" "vm_ok (mem s) 0x80200000 [0x80300000]"
    "\<And>i. i < 1024 \<Longrightarrow> tbl (mem s) 0x80200000 i = None"
    "\<And>q. q < 1048576 \<Longrightarrow> vmem (mem s) 0x80200000 q = None"
  have "card (missing (mem s) 0x80200000 0 (Suc 0)) \<le> length [0x80300000 :: addr]" by (rule missing_one) simp
  then obtain t fs' where t: "vm_grow 0x80200000 s [0x80300000] t fs'"
    "\<forall>q < 1048576. vmem (mem t) 0x80200000 q = map_pages 0 1 0x00400000 6 (vmem (mem s) 0x80200000) q"
    using mappages_refines [OF s(1,3), of 1 0 0 0 "0x00400000" 6] s(5) by auto
  have vm: "vmem (mem t) 0x80200000 q = (if q = 0 then Some 0x00400007 else None)" if "q < 1048576" for q
    using t(2) s(5) that by (auto simp: map_pages_def)
  note T = vm_growD [OF t(1)]
  obtain us where us: "[0x80300000] = us @ fs'" "vm_frames (mem t) 0x80200000 = vm_frames (mem s) 0x80200000 \<union> set us"
    using t(1) by (auto simp: vm_grow_def)
  have "vm_frames (mem s) 0x80200000 = {0x80200000}" using s(4) by (auto simp: vm_frames_def)
  have tb: "tbl (mem t) 0x80200000 0 \<noteq> None" using vm [of 0] by (auto simp: vmem_def split: option.splits)
  have "us \<noteq> []"
  proof
    assume "us = []"
    then have one: "vm_frames (mem t) 0x80200000 = {0x80200000}"
      using us(2) \<open>vm_frames (mem s) 0x80200000 = {0x80200000}\<close> by simp
    obtain y where y: "tbl (mem t) 0x80200000 0 = Some y" using tb by auto
    then have "y \<in> vm_frames (mem t) 0x80200000" unfolding vm_frames_def by force
    then show False using one vm_okD(6) [OF T(3) _ y] by simp
  qed
  then have fs': "us = [0x80300000]" "fs' = []" using us(1) by (cases us; auto)+
  have fr: "vm_frames (mem t) 0x80200000 = {0x80200000, 0x80300000}"
    using us(2) fs'(1) \<open>vm_frames (mem s) 0x80200000 = {0x80200000}\<close> by auto
  have heap: "kheap_start t = 0x80110000" "kheap_end t = 0x07fe0000" "kmem_sentinel t = 0x8010e004"
    using kmem_frame_trans [OF s(2) T(1)] by (simp_all add: kmem_frame_def boot_kmem_def)
  have pg: "page_at 0x00400007 = 0x80400000" by (simp add: page_at_def PTE_ADDR_user P2V_def)
  have "vm_owned t 0x80200000 [] 0 524288"
    unfolding vm_owned_def fr using vm
    by (auto simp: may_free_def frame_ok_def aligned_def V2P_def heap pg split: if_splits)
  moreover have "user_frames (mem t) 0x80200000 0 524288 = [0x80400000]"
    using user_frames_skip [of 1 524288 "mem t" "0x80200000" 524288] vm
    by (simp add: user_frames_step [of 0] user_frames_empty pg)
  ultimately show thesis using that [of t] T fs'(2) fr vm by blast
qed

text \<open>Two free frames, an empty page directory and a byte of program at \<open>0x80110000\<close>.\<close>

lemma program_vm:
  obtains s :: kmem where "kmem_gives s [0x80400000, 0x80300000]" "vm_ok (mem s) 0x80200000 [0x80400000, 0x80300000]"
    "\<And>q. q < 1048576 \<Longrightarrow> vmem (mem s) 0x80200000 q = None" "vm_frames (mem s) 0x80200000 = {0x80200000}"
    "mem s 0x80110000 = 0xEB"
proof (rule boot_vm)
  fix s :: kmem
  assume s: "kmem_gives s [0x80300000]" "kmem_frame boot_kmem s" "\<And>a. PGROUNDDOWN a \<noteq> 0x80300000 \<Longrightarrow> mem s a = 0"
  let ?s = "s\<lparr>mem := (mem s)(0x80110000 := 0xEB)\<rparr>"
  have "PGROUNDDOWN 0x80110000 = 0x80110000" by (simp add: PGROUNDDOWN_def)
  then have g: "kmem_gives ?s [0x80300000]" by (intro kmem_gives_upd_mem [OF s(1)]) auto
  have "may_free ?s [0x80300000] 0x80400000"
    using s(2) by (simp add: may_free_def frame_ok_def aligned_def V2P_def kmem_frame_def boot_kmem_def)
  then obtain t where t: "kmem_frame ?s t" "kmem_ok t [0x80400000, 0x80300000]"
    "mem t = freed_mem (mem ?s) 0x80400000 (kmem_freelist ?s)"
    using kfree_frame [of ?s "[0x80300000]" "0x80400000"] g by (auto simp: kmem_gives_def may_free_def)
  have al: "aligned 4096 0x80400000" by (simp add: aligned_def)
  have m: "mem t a = ((mem s)(0x80110000 := 0xEB)) a" if "PGROUNDDOWN a \<noteq> 0x80400000" for a
    using that in_page_iff [OF al, of a] by (simp add: t(3) freed_mem_other)
  have none: "tbl (mem t) 0x80200000 i = None" if "i < 1024" for i
  proof (rule empty_dir [OF _ _ that])
    fix a
    assume "PGROUNDDOWN a = 0x80200000"
    moreover from this have "a \<noteq> 0x80110000" using \<open>PGROUNDDOWN 0x80110000 = 0x80110000\<close> by auto
    ultimately show "mem t a = 0" using m [of a] s(3) [of a] by simp
  qed (simp add: aligned_def)
  have "vmem (mem t) 0x80200000 q = None" if "q < 1048576" for q
    using none page_indices(1) [OF that] by (simp add: vmem_def)
  moreover have "vm_frames (mem t) 0x80200000 = {0x80200000}" using none by (auto simp: vm_frames_def)
  moreover have "mem t 0x80110000 = 0xEB" using m \<open>PGROUNDDOWN 0x80110000 = 0x80110000\<close> by simp
  moreover have "vm_ok (mem t) 0x80200000 [0x80400000, 0x80300000]"
    using none by (simp add: vm_ok_def frame_ok_def aligned_def)
  moreover have "kmem_gives t [0x80400000, 0x80300000]"
    using t(2) g kmem_ready_frame [OF t(1)] by (simp add: kmem_gives_def)
  ultimately show thesis using that by blast
qed

section \<open>Properties\<close>

text \<open>C14: \<open>deallocuvm\<close> shrinks a user address space. When the new size is smaller it returns the
  new size after unmapping exactly the pages from the rounded-up new size to the old size and giving each of their
  frames back to the allocator; the page tables and all other mappings stay. When the new
  size is not smaller nothing happens and the old size is returned.\<close>

theorem deallocuvm_spec:
  assumes "kmem_gives s fs" and "vm_ok (mem s) pgdir fs" and "oldsz \<le> 0x80000000"
    and "vm_owned s pgdir fs ((unat newsz + 4095) div 4096) ((unat oldsz + 4095) div 4096)"
  shows "(newsz < oldsz \<longrightarrow> (\<exists>t fs'. deallocuvm pgdir oldsz newsz s = Ret newsz t \<and>
      vm_unmap pgdir ((unat newsz + 4095) div 4096) ((unat oldsz + 4095) div 4096) s fs t fs')) \<and>
    (oldsz \<le> newsz \<longrightarrow> deallocuvm pgdir oldsz newsz s = Ret oldsz s)"
proof (intro conjI impI)
  assume less: "newsz < oldsz"
  let ?lo = "(unat newsz + 4095) div 4096"
  have n: "unat newsz < 2147483648" using less assms(3) by (simp add: word_less_nat_alt word_le_nat_alt)
  then have up: "unat (PGROUNDUP newsz) = 4096 * ?lo" by (simp add: unat_PGROUNDUP)
  have "(unat oldsz + 4095) div 4096 - ?lo < 1048577"
    using assms(3) by (simp add: word_le_nat_alt less_mult_imp_div_less)
  moreover have "?lo \<le> 524288" using n by simp
  ultimately obtain t fs' where "deallocuvm_loop 1048577 pgdir (PGROUNDUP newsz) oldsz s = Ret () t"
    "vm_unmap pgdir ?lo ((unat oldsz + 4095) div 4096) s fs t fs'"
    using dealloc_loop_returns [OF assms(1,2,4) up _ refl assms(3)] by blast
  then show "\<exists>t fs'. deallocuvm pgdir oldsz newsz s = Ret newsz t \<and>
      vm_unmap pgdir ?lo ((unat oldsz + 4095) div 4096) s fs t fs'"
    using less by (auto simp: deallocuvm_def)
qed (simp add: deallocuvm_def)

theorem deallocuvm_spec_witness:
  "\<exists>(s :: kmem) t. vmem (mem s) 0x80200000 0 = Some 0x00400007 \<and> deallocuvm 0x80200000 0x80000000 0 s = Ret 0 t \<and>
     kmem_gives t [0x80400000] \<and> vmem (mem t) 0x80200000 0 = None"
proof (rule user_vm)
  fix s :: kmem
  assume s: "kmem_gives s []" "vm_ok (mem s) 0x80200000 []" "vm_owned s 0x80200000 [] 0 524288"
    "user_frames (mem s) 0x80200000 0 524288 = [0x80400000]"
    "\<And>q. q < 1048576 \<Longrightarrow> vmem (mem s) 0x80200000 q = (if q = 0 then Some 0x00400007 else None)"
  obtain t fs' where t: "deallocuvm 0x80200000 0x80000000 0 s = Ret 0 t" "vm_unmap 0x80200000 0 524288 s [] t fs'"
    using deallocuvm_spec [OF s(1,2), of "0x80000000" 0] s(3) by auto
  then have "kmem_gives t [0x80400000]" "vmem (mem t) 0x80200000 0 = None"
    using s(4) by (auto simp: vm_unmap_def)
  then show ?thesis using t(1) s(5) [of 0] by auto
qed

text \<open>C7: \<open>freevm\<close> leaks nothing. An address space whose tables and user pages came from the
  allocator goes back completely: the free list afterwards consists of the page directory,
  every page table, every user frame and the frames that were free before, each once.
  No memory outside the freed frames changes.\<close>

theorem freevm_spec:
  assumes "kmem_gives s fs" and "vm_ok (mem s) pgdir fs" and "vm_owned s pgdir fs 0 524288"
  shows "\<exists>t gs. freevm pgdir s = Ret () t \<and> kmem_gives t gs \<and> distinct gs \<and>
    set gs = vm_frames (mem s) pgdir \<union> set (user_frames (mem s) pgdir 0 524288) \<union> set fs \<and>
    (\<forall>a. PGROUNDDOWN a \<notin> vm_frames (mem s) pgdir \<union> set (user_frames (mem s) pgdir 0 524288) \<longrightarrow> mem t a = mem s a)"
proof -
  obtain t where t: "freevm pgdir s = Ret () t"
    "kmem_gives t (pgdir # rev (tables (mem s) pgdir 1024) @ rev (user_frames (mem s) pgdir 0 524288) @ fs)"
    "\<forall>a. PGROUNDDOWN a \<notin> vm_frames (mem s) pgdir \<union> set (user_frames (mem s) pgdir 0 524288) \<longrightarrow> mem t a = mem s a"
    using freevm_returns [OF assms] by blast
  have "vm_frames (mem s) pgdir = insert pgdir (set (tables (mem s) pgdir 1024))"
    by (simp add: vm_frames_def set_tables)
  then have "set (pgdir # rev (tables (mem s) pgdir 1024) @ rev (user_frames (mem s) pgdir 0 524288) @ fs) =
      vm_frames (mem s) pgdir \<union> set (user_frames (mem s) pgdir 0 524288) \<union> set fs" by auto
  then show ?thesis using t kheap.gives_distinct [OF t(2)] by blast
qed

theorem freevm_spec_witness:
  "\<exists>(s :: kmem) t gs. vmem (mem s) 0x80200000 0 = Some 0x00400007 \<and> freevm 0x80200000 s = Ret () t \<and>
     kmem_gives t gs \<and> set gs = {0x80200000, 0x80300000, 0x80400000}"
proof (rule user_vm)
  fix s :: kmem
  assume s: "kmem_gives s []" "vm_ok (mem s) 0x80200000 []" "vm_owned s 0x80200000 [] 0 524288"
    "user_frames (mem s) 0x80200000 0 524288 = [0x80400000]" "vm_frames (mem s) 0x80200000 = {0x80200000, 0x80300000}"
    "\<And>q. q < 1048576 \<Longrightarrow> vmem (mem s) 0x80200000 q = (if q = 0 then Some 0x00400007 else None)"
  obtain t gs where "freevm 0x80200000 s = Ret () t" "kmem_gives t gs"
    "set gs = {0x80200000, 0x80300000} \<union> set [0x80400000] \<union> set []"
    using freevm_spec [OF s(1-3)] unfolding s(4,5) by blast
  then show ?thesis using s(6) [of 0] by auto
qed



end
