(* ===== verification/Kvm.thy ===== *)
theory Kvm
  imports Uart Uvm
begin

text \<open>
  The kernel's own address space (\<^verbatim>\<open>kernel/paging.c\<close>: \<open>setupkvm\<close>, \<open>paging_init\<close>,
  \<open>paging_switch_pgdir\<close>, \<open>paging_get_paddr\<close>, \<open>page_fault_handler\<close>). Every process's
  page directory starts as the result of \<open>setupkvm\<close>. The register \<open>cr2\<close> holds the address
  of the last page fault.
\<close>

section \<open>Definitions\<close>

record kvm = ioapic_state +
  kpgdir :: addr
  cr2 :: u32

definition setupkvm :: "(addr, 'z kvm_scheme) kern" where
  "setupkvm = bindK kalloc (\<lambda>pgdir.
     if pgdir = 0 then panicK ''kalloc''
     else thenK (upd_mem (\<lambda>m. snd (memset m pgdir 0 PGSIZE)))
     (let mapfail = thenK (freevm pgdir) (panicK ''mappages'') in
      bindK (getK phys_end) (\<lambda>e. bindK (mappages pgdir KERNBASE (e - 0) 0 PTE_W) (\<lambda>r.
      if r < 0 then mapfail else
      bindK (getK (\<lambda>s. (acpi s, acpi_len s))) (\<lambda>(a, l). bindK (mappages pgdir (P2V a) l a PTE_W) (\<lambda>r.
      if r < 0 then mapfail else
      bindK (mappages pgdir DEVSPACE 0xf00000 DEVSPACE PTE_W) (\<lambda>r.
      if r < 0 then mapfail else retK pgdir)))))))"

definition paging_get_paddr :: "u32 \<Rightarrow> (u32, 'z kvm_scheme) kern" where
  "paging_get_paddr vaddr = bindK (getK kpgdir) (\<lambda>dir. bindK (walkpgdir dir vaddr False) (\<lambda>pte.
     thenK (assertK ''paging_get_paddr'' ''kernel/paging.c'' 48 (pte \<noteq> 0))
       (getK (\<lambda>s. read32 (mem s) pte + ADDR_PAGE_OFFSET vaddr))))"

definition page_fault_handler :: "interrupt_state \<Rightarrow> (unit, 'z kvm_scheme) kern" where
  "page_fault_handler state = bindK (getK cr2) (\<lambda>faulty_addr.
     let present = is_err_code state AND 1 \<noteq> 0;
         write = is_err_code state AND 2 \<noteq> 0;
         user = is_err_code state AND 4 \<noteq> 0
     in thenK (warn (''Caught page fault {\<newline>'' @ ''  faulty addr = 0x%p\<newline>'' @ ''  present: %d\<newline>'' @
           ''  write:   %d\<newline>'' @ ''  user:    %d\<newline>'' @ ''}'')
         [CWord faulty_addr, CWord (of_bool present), CWord (of_bool write), CWord (of_bool user)])
       (panicK ''page fault not handled!''))"

definition paging_switch_pgdir :: "u32 \<Rightarrow> (unit, 'z kvm_scheme) kern" where
  "paging_switch_pgdir pgdir = thenK (assertK ''paging_switch_pgdir'' ''kernel/paging.c'' 113 (pgdir \<noteq> 0))
     (modK (\<lambda>s. s\<lparr>cr3 := pgdir\<rparr>))"

definition paging_init :: "(unit, 'z kvm_scheme) kern" where
  "paging_init = thenK (bindK setupkvm (\<lambda>d. modK (\<lambda>s. s\<lparr>kpgdir := d\<rparr>)))
     (thenK (isr_register IDT_INT_PGFLT PageFaultHandler)
     (bindK (getK kpgdir) (\<lambda>d. paging_switch_pgdir (V2P d))))"

section \<open>The kernel mappings\<close>

lemma kmem_more_field:
  fixes f :: "'z kmem_scheme \<Rightarrow> 'b"
  assumes "kmem.more t = kmem.more s"
    and "\<And>(s :: 'z kmem_scheme) m e c k l d8 d16 d32 cp lk cl u ul fl hs he se. f (s\<lparr>mem := m, eflags := e, cr3 := c, kstk := k,
      io_log := l, dev8 := d8, dev16 := d16, dev32 := d32, cpus := cp, locks := lk, cons_locking := cl, uart := u,
      kmem_use_lock := ul, kmem_freelist := fl, kheap_start := hs, kheap_end := he, kmem_sentinel := se\<rparr>) = f s"
  shows "f t = f s"
proof -
  have "t = s\<lparr>mem := mem t, eflags := eflags t, cr3 := cr3 t, kstk := kstk t, io_log := io_log t,
      dev8 := dev8 t, dev16 := dev16 t, dev32 := dev32 t, cpus := cpus t, locks := locks t,
      cons_locking := cons_locking t, uart := uart t, kmem_use_lock := kmem_use_lock t, kmem_freelist := kmem_freelist t,
      kheap_start := kheap_start t, kheap_end := kheap_end t, kmem_sentinel := kmem_sentinel t\<rparr>"
    using assms(1) by (intro kmem.equality) simp_all
  then show ?thesis using assms(2) by metis
qed

lemma kmem_more_fields:
  fixes s t :: "'z kvm_scheme"
  assumes "kmem.more t = kmem.more s"
  shows "phys_end t = phys_end s" "acpi t = acpi s" "acpi_len t = acpi_len s" "isr_table t = isr_table s"
    "kpgdir t = kpgdir s" "kvm.more t = kvm.more s" "acpi_info t = acpi_info s" "ioapic t = ioapic s"
  by (rule kmem_more_field [OF assms], simp)+

lemma kmem_frame_fields:
  fixes s t :: "'z kvm_scheme"
  assumes "kmem_frame s t"
  shows "phys_end t = phys_end s" "acpi t = acpi s" "acpi_len t = acpi_len s" "isr_table t = isr_table s"
    "kpgdir t = kpgdir s" "kvm.more t = kvm.more s" "acpi_info t = acpi_info s" "ioapic t = ioapic s"
  using assms by (auto intro!: kmem_more_fields simp: kmem_frame_def)

text \<open>The number of page tables that a range of pages touches.\<close>

definition dir_span :: "nat \<Rightarrow> nat \<Rightarrow> nat" where
  "dir_span p n = (p + n) div 1024 - p div 1024 + 1"

lemma missing_span: "card (missing m pgdir p (Suc n)) \<le> dir_span p n"
proof -
  have "missing m pgdir p (Suc n) \<subseteq> {p div 1024 .. (p + n) div 1024}"
    by (auto simp: missing_def div_le_mono)
  then have "card (missing m pgdir p (Suc n)) \<le> card {p div 1024 .. (p + n) div 1024}" by (intro card_mono) auto
  then show ?thesis by (simp add: dir_span_def div_le_mono Suc_diff_le)
qed

lemma map_region:
  assumes "kmem_gives s fs" "vm_ok (mem s) pgdir fs" "0 < unat sz" "unat va + unat sz \<le> 4294967296"
    and "p = unat va div 4096" "p + n = (unat va + unat sz - 1) div 4096"
    and "\<And>q. p \<le> q \<Longrightarrow> q \<le> p + n \<Longrightarrow> vmem (mem s) pgdir q = None" "dir_span p n + rest \<le> length fs"
  obtains t fs' where "mappages pgdir va sz pa perm s = Ret 0 t" "vm_grow pgdir s fs t fs'" "rest \<le> length fs'"
    "\<forall>q < 1048576. vmem (mem t) pgdir q = map_pages p (Suc n) pa perm (vmem (mem s) pgdir) q"
proof -
  have card: "card (missing (mem s) pgdir p (Suc n)) \<le> dir_span p n" by (rule missing_span)
  then have "card (missing (mem s) pgdir p (Suc n)) \<le> length fs" using assms(8) by simp
  then obtain t fs' where "mappages pgdir va sz pa perm s = Ret 0 t" "vm_grow pgdir s fs t fs'"
    "\<forall>q < 1048576. vmem (mem t) pgdir q = map_pages p (Suc n) pa perm (vmem (mem s) pgdir) q"
    "length fs \<le> length fs' + card (missing (mem s) pgdir p (Suc n))"
    using mappages_refines [OF assms(1-7), of pa perm] by auto
  then show thesis using that card assms(8) by simp
qed

text \<open>The layout of physical memory the mappings rely on: the ACPI region starts on a page of
  its own above the usable memory, and both end below the device space.\<close>

definition layout_ok :: "'z pmem_scheme \<Rightarrow> bool" where
  "layout_ok s \<longleftrightarrow> 0 < unat (phys_end s) \<and> unat (phys_end s) \<le> 2113929216 \<and> aligned 4096 (acpi s) \<and> 0 < unat (acpi_len s) \<and>
     unat (acpi s) + unat (acpi_len s) \<le> 2113929216 \<and> (unat (phys_end s) - 1) div 4096 < unat (acpi s) div 4096"

definition ram_last :: "'z pmem_scheme \<Rightarrow> nat" where "ram_last s = (unat (phys_end s) - 1) div 4096"
definition acpi_first :: "'z pmem_scheme \<Rightarrow> nat" where "acpi_first s = unat (acpi s) div 4096"
definition acpi_last :: "'z pmem_scheme \<Rightarrow> nat" where "acpi_last s = (unat (acpi s) + unat (acpi_len s) - 1) div 4096"

definition kvm_tables :: "'z pmem_scheme \<Rightarrow> nat" where
  "kvm_tables s = dir_span 524288 (ram_last s) + (dir_span (524288 + acpi_first s) (acpi_last s - acpi_first s) + dir_span 1040384 3839)"

definition kvm_pages :: "'z pmem_scheme \<Rightarrow> nat \<Rightarrow> u32 option" where
  "kvm_pages s = map_pages 1040384 3840 DEVSPACE PTE_W (map_pages (524288 + acpi_first s) (Suc (acpi_last s - acpi_first s)) (acpi s) PTE_W
     (map_pages 524288 (Suc (ram_last s)) 0 PTE_W (\<lambda>_. None)))"

lemma layout_okD:
  assumes "layout_ok s"
  shows "ram_last s < acpi_first s" "acpi_first s \<le> acpi_last s" "acpi_last s < 516096" "aligned 4096 (acpi s)"
    "unat (P2V (acpi s)) = 2147483648 + unat (acpi s)" "0 < unat (phys_end s)" "0 < unat (acpi_len s)"
    "unat (phys_end s) \<le> 2113929216" "unat (acpi s) + unat (acpi_len s) \<le> 2113929216"
proof -
  note a = assms [unfolded layout_ok_def]
  then show "ram_last s < acpi_first s" "aligned 4096 (acpi s)" "0 < unat (phys_end s)" "0 < unat (acpi_len s)"
    "unat (phys_end s) \<le> 2113929216" "unat (acpi s) + unat (acpi_len s) \<le> 2113929216"
    by (simp_all add: ram_last_def acpi_first_def)
  show "unat (P2V (acpi s)) = 2147483648 + unat (acpi s)" using a by (simp add: unat_P2V)
  show "acpi_first s \<le> acpi_last s" unfolding acpi_first_def acpi_last_def using a by (intro div_le_mono) linarith
  have "unat (acpi s) + unat (acpi_len s) - 1 < 516096 * 4096" using a by linarith
  then show "acpi_last s < 516096" unfolding acpi_last_def by (rule less_mult_imp_div_less)
qed

text \<open>A zeroed frame is an empty address space.\<close>

lemma fresh_dir:
  assumes "kmem_gives s (f # fs)"
  obtains a where "kalloc s = Ret f a" "kmem_frame s (a\<lparr>mem := snd (memset (mem a) f 0 4096)\<rparr>)"
    "kmem_gives (a\<lparr>mem := snd (memset (mem a) f 0 4096)\<rparr>) fs" "vm_ok (snd (memset (mem a) f 0 4096)) f fs"
    "\<And>i. i < 1024 \<Longrightarrow> tbl (snd (memset (mem a) f 0 4096)) f i = None"
    "\<And>x. PGROUNDDOWN x \<noteq> f \<Longrightarrow> snd (memset (mem a) f 0 4096) x = mem s x"
proof -
  note F = kmem_givesD [OF assms]
  obtain a where a: "kalloc s = Ret f a" "kmem_frame s a" "mem a = mem s" "kmem_ok a fs"
    using kalloc_frame [of s f fs] assms by (auto simp: kmem_gives_def)
  have ga: "kmem_gives a fs" using a assms kmem_ready_frame [OF a(2)] by (simp add: kmem_gives_def)
  define z where "z = snd (memset (mem a) f 0 4096)"
  have z: "z x = (if PGROUNDDOWN x = f then 0 else mem s x)" for x
    using F(4) a(3) by (simp add: z_def memset_eq in_page_iff)
  have none: "tbl z f i = None" if "i < 1024" for i
    using that z F(4) by (intro empty_dir) auto
  have "kmem_gives (a\<lparr>mem := z\<rparr>) fs" using F(2) z a(3) by (intro kmem_gives_upd_mem [OF ga]) auto
  moreover have "vm_ok z f fs" using none F(1,2) by (simp add: vm_ok_def)
  moreover have "kmem_frame s (a\<lparr>mem := z\<rparr>)" using a(2) kmem_frame_upd_mem by (rule kmem_frame_trans)
  moreover have "z x = mem s x" if "PGROUNDDOWN x \<noteq> f" for x using that z by simp
  ultimately show thesis using that a(1) none unfolding z_def by blast
qed

lemma empty_vmem:
  assumes "\<And>i. i < 1024 \<Longrightarrow> tbl m f i = None" "q < 1048576"
  shows "vmem m f q = None"
  using assms(1) [of "q div 1024"] page_indices(1) [OF assms(2)] by (simp add: vmem_def)

lemma kvm_ranges:
  assumes "layout_ok s"
  shows "524288 = unat (0x80000000 :: u32) div 4096" "524288 + ram_last s = (unat (0x80000000 :: u32) + unat (phys_end s) - 1) div 4096"
    "unat (0x80000000 :: u32) + unat (phys_end s) \<le> 4294967296"
    "524288 + acpi_first s = unat (P2V (acpi s)) div 4096"
    "524288 + acpi_first s + (acpi_last s - acpi_first s) = (unat (P2V (acpi s)) + unat (acpi_len s) - 1) div 4096"
    "unat (P2V (acpi s)) + unat (acpi_len s) \<le> 4294967296"
proof -
  note L = layout_okD [OF assms]
  have shift: "(2147483648 + k) div 4096 = 524288 + k div 4096" for k :: nat by simp
  have "unat (0x80000000 :: u32) + unat (phys_end s) - 1 = 2147483648 + (unat (phys_end s) - 1)" using L(6) by simp
  then show "524288 + ram_last s = (unat (0x80000000 :: u32) + unat (phys_end s) - 1) div 4096" by (simp only: shift ram_last_def)
  have "unat (P2V (acpi s)) + unat (acpi_len s) - 1 = 2147483648 + (unat (acpi s) + unat (acpi_len s) - 1)" using L(5,7) by simp
  then have "(unat (P2V (acpi s)) + unat (acpi_len s) - 1) div 4096 = 524288 + acpi_last s" by (simp only: shift acpi_last_def)
  then show "524288 + acpi_first s + (acpi_last s - acpi_first s) = (unat (P2V (acpi s)) + unat (acpi_len s) - 1) div 4096" using L(2) by simp
  show "524288 + acpi_first s = unat (P2V (acpi s)) div 4096" by (simp only: L(5) shift acpi_first_def)
  show "unat (0x80000000 :: u32) + unat (phys_end s) \<le> 4294967296" "unat (P2V (acpi s)) + unat (acpi_len s) \<le> 4294967296"
    using L by simp_all
qed simp

lemma kvm_mapped:
  assumes "kmem_gives z fs" "vm_ok (mem z) f fs" "\<And>i. i < 1024 \<Longrightarrow> tbl (mem z) f i = None"
    and lay: "layout_ok s" and room: "kvm_tables s + rest \<le> length fs"
  obtains b c t fs' where "mappages f 0x80000000 (phys_end s) 0 2 z = Ret 0 b" "kmem_frame z b"
    "mappages f (P2V (acpi s)) (acpi_len s) (acpi s) 2 b = Ret 0 c" "kmem_frame z c"
    "mappages f 0xFE000000 0xf00000 0xFE000000 2 c = Ret 0 t" "vm_grow f z fs t fs'" "rest \<le> length fs'"
    "\<forall>q < 1048576. vmem (mem t) f q = kvm_pages s q"
proof -
  note L = layout_okD [OF lay] and R = kvm_ranges [OF lay] and zv = empty_vmem [of "mem z" f, OF assms(3)]
  let ?n = "acpi_last s - acpi_first s"
  have r: "dir_span 524288 (ram_last s) + (dir_span (524288 + acpi_first s) ?n + (dir_span 1040384 3839 + rest)) \<le> length fs"
    using room by (simp add: kvm_tables_def)
  have "vmem (mem z) f q = None" if "524288 \<le> q" "q \<le> 524288 + ram_last s" for q using that L zv by simp
  then obtain b fs1 where b: "mappages f 0x80000000 (phys_end s) 0 2 z = Ret 0 b" "vm_grow f z fs b fs1"
      "dir_span (524288 + acpi_first s) ?n + (dir_span 1040384 3839 + rest) \<le> length fs1"
      "\<forall>q < 1048576. vmem (mem b) f q = map_pages 524288 (Suc (ram_last s)) 0 2 (vmem (mem z) f) q"
    by (rule map_region [OF assms(1,2) L(6) R(3,1,2) _ r])
  note B = vm_growD [OF b(2)]
  have "vmem (mem b) f q = None" if "524288 + acpi_first s \<le> q" "q \<le> 524288 + acpi_first s + ?n" for q
    using that L(1-3) zv [of q] b(4) [rule_format, of q] by (simp add: map_pages_def)
  then obtain c fs2 where c: "mappages f (P2V (acpi s)) (acpi_len s) (acpi s) 2 b = Ret 0 c" "vm_grow f b fs1 c fs2"
      "dir_span 1040384 3839 + rest \<le> length fs2"
      "\<forall>q < 1048576. vmem (mem c) f q = map_pages (524288 + acpi_first s) (Suc ?n) (acpi s) 2 (vmem (mem b) f) q"
    by (rule map_region [OF B(2,3) L(7) R(6,4,5) _ b(3)])
  note C = vm_growD [OF c(2)]
  have d: "0 < unat (0xf00000 :: u32)" "unat (0xFE000000 :: u32) + unat (0xf00000 :: u32) \<le> 4294967296"
    "1040384 = unat (0xFE000000 :: u32) div 4096" "1040384 + 3839 = (unat (0xFE000000 :: u32) + unat (0xf00000 :: u32) - 1) div 4096"
    by simp_all
  have "vmem (mem c) f q = None" if "1040384 \<le> q" "q \<le> 1040384 + 3839" for q
    using that L(1-3) zv [of q] b(4) [rule_format, of q] c(4) [rule_format, of q] by (simp add: map_pages_def)
  then obtain t fs' where t: "mappages f 0xFE000000 0xf00000 0xFE000000 2 c = Ret 0 t" "vm_grow f c fs2 t fs'" "rest \<le> length fs'"
      "\<forall>q < 1048576. vmem (mem t) f q = map_pages 1040384 (Suc 3839) 0xFE000000 2 (vmem (mem c) f) q"
    by (rule map_region [OF C(2,3) d _ c(3)])
  have "vmem (mem t) f q = kvm_pages s q" if "q < 1048576" for q
    using that t(4) c(4) b(4) zv by (simp add: kvm_pages_def map_pages_def)
  moreover have "vm_grow f z fs t fs'" by (rule vm_grow_trans [OF vm_grow_trans [OF b(2) c(2)] t(2)])
  ultimately show thesis using that b(1) c(1) t(1,3) B(1) C(1) kmem_frame_trans by blast
qed

lemma setupkvm_returns:
  fixes s :: "'z kvm_scheme"
  assumes g: "kmem_gives s (f # fs)" and lay: "layout_ok s" and room: "kvm_tables s + rest \<le> length fs"
  obtains t fs' us where "setupkvm s = Ret f t" "kmem_frame s t" "kmem_gives t fs'" "vm_ok (mem t) f fs'" "rest \<le> length fs'"
    "\<forall>q < 1048576. vmem (mem t) f q = kvm_pages s q" "fs = us @ fs'" "vm_frames (mem t) f = insert f (set us)"
    "\<forall>x. PGROUNDDOWN x \<notin> insert f (set us) \<longrightarrow> mem t x = mem s x"
proof -
  obtain a where a: "kalloc s = Ret f a" "kmem_frame s (a\<lparr>mem := snd (memset (mem a) f 0 4096)\<rparr>)"
    "kmem_gives (a\<lparr>mem := snd (memset (mem a) f 0 4096)\<rparr>) fs" "vm_ok (snd (memset (mem a) f 0 4096)) f fs"
    "\<And>i. i < 1024 \<Longrightarrow> tbl (snd (memset (mem a) f 0 4096)) f i = None"
    "\<And>x. PGROUNDDOWN x \<noteq> f \<Longrightarrow> snd (memset (mem a) f 0 4096) x = mem s x"
    using fresh_dir [OF g] by blast
  define z where "z = a\<lparr>mem := snd (memset (mem a) f 0 4096)\<rparr>"
  have Z: "kmem_frame s z" "kmem_gives z fs" "vm_ok (mem z) f fs" "\<And>i. i < 1024 \<Longrightarrow> tbl (mem z) f i = None"
    "\<And>x. PGROUNDDOWN x \<noteq> f \<Longrightarrow> mem z x = mem s x" using a by (simp_all add: z_def)
  obtain b c t fs' where m: "mappages f 0x80000000 (phys_end s) 0 2 z = Ret 0 b" "kmem_frame z b"
    "mappages f (P2V (acpi s)) (acpi_len s) (acpi s) 2 b = Ret 0 c" "kmem_frame z c"
    "mappages f 0xFE000000 0xf00000 0xFE000000 2 c = Ret 0 t" "vm_grow f z fs t fs'" "rest \<le> length fs'"
    "\<forall>q < 1048576. vmem (mem t) f q = kvm_pages s q"
    using kvm_mapped [OF Z(2-4) lay room] by blast
  note fields = kmem_frame_fields [OF Z(1)] kmem_frame_fields [OF kmem_frame_trans [OF Z(1) m(2)]]
  have set0: "upd_mem (\<lambda>m. snd (memset m f 0 4096)) a = Ret () z" by (simp add: z_def upd_mem_def)
  have nz: "(f = 0) = False" "((0 :: int) < 0) = False" using kmem_givesD(3) [OF g] by simp_all
  have "setupkvm s = Ret f t"
    by (simp only: setupkvm_def Let_def bindK_Ret thenK_Ret a(1) set0 getK_apply prod.case nz if_False fields m(1,3,5) diff_zero retK_apply)
  moreover obtain us where us: "fs = us @ fs'" "vm_frames (mem t) f = vm_frames (mem z) f \<union> set us"
    using m(6) by (auto simp: vm_grow_def)
  moreover have "vm_frames (mem z) f = {f}" using Z(4) by (auto simp: vm_frames_def)
  moreover have "mem t x = mem s x" if "PGROUNDDOWN x \<notin> insert f (set us)" for x
    using that us(2) calculation(4) m(6) Z(5) by (auto simp: vm_grow_def)
  ultimately show thesis using that [of t fs' us] vm_growD [OF m(6)] m(7,8) kmem_frame_trans [OF Z(1)] by simp
qed

text \<open>What the memory management unit makes of an address under these mappings.\<close>

definition kvm_translate :: "'z pmem_scheme \<Rightarrow> u32 \<Rightarrow> u32 option" where
  "kvm_translate s x = (let q = unat x div 4096 in
     if 524288 \<le> q \<and> q \<le> 524288 + ram_last s \<or> 524288 + acpi_first s \<le> q \<and> q \<le> 524288 + acpi_last s then Some (V2P x)
     else if 1040384 \<le> q \<and> q < 1044224 then Some x else None)"

lemma map_pages_entry:
  assumes "p \<le> q" "q < p + k" "q = unat x div 4096" "p = unat va div 4096" "aligned 4096 pa"
  shows "map_option (\<lambda>e. PTE_ADDR e + ADDR_PAGE_OFFSET x) (map_pages p k pa 2 f q) = Some (pa + (x - PGROUNDDOWN va))"
proof -
  have "PTE_ADDR ((pa + of_nat (4096 * (q - p))) OR 2 OR PTE_P) = pa + of_nat (4096 * (q - p))"
    using assms(5) by (rule PTE_ADDR_mapped) simp
  moreover have "pa + of_nat (4096 * (q - p)) + ADDR_PAGE_OFFSET x = pa + (x - PGROUNDDOWN va)"
    unfolding assms(3) by (rule page_shift) (use assms in simp_all)
  ultimately show ?thesis using assms(1,2) by (simp only: map_pages_def if_True simp_thms option.map)
qed

lemma map_pages_out: "\<not> (p \<le> q \<and> q < p + k) \<Longrightarrow> map_pages p k pa perm f q = f q"
  by (auto simp: map_pages_def)

lemma kvm_pages_translate:
  assumes "layout_ok s" "\<forall>q < 1048576. vmem m f q = kvm_pages s q"
  shows "translate m f x = kvm_translate s x"
proof -
  note L = layout_okD [OF assms(1)] and R = kvm_ranges [OF assms(1)]
  define q where "q = unat x div 4096"
  have t: "translate m f x = map_option (\<lambda>e. PTE_ADDR e + ADDR_PAGE_OFFSET x) (kvm_pages s q)"
    using assms(2) page_bound [of x] by (simp add: translate_def q_def)
  have al: "aligned 4096 (0xFE000000 :: u32)" "aligned 4096 (0 :: u32)" "aligned 4096 (0x80000000 :: u32)" by (simp_all add: aligned_def)
  have rd: "PGROUNDDOWN 0x80000000 = 0x80000000" "PGROUNDDOWN (P2V (acpi s)) = P2V (acpi s)" "PGROUNDDOWN 0xFE000000 = 0xFE000000"
    using L(4) al by (auto intro!: aligned_PGROUNDDOWN_id)
  let ?r = "524288 \<le> q \<and> q \<le> 524288 + ram_last s" and ?a = "524288 + acpi_first s \<le> q \<and> q \<le> 524288 + acpi_last s"
    and ?d = "1040384 \<le> q \<and> q < 1044224"
  have v: "V2P x = 0 + (x - 0x80000000)" "V2P x = acpi s + (x - P2V (acpi s))" by (simp_all add: V2P_def P2V_def)
  let ?ram = "map_pages 524288 (Suc (ram_last s)) 0 2 (\<lambda>_. None)"
  let ?tab = "map_pages (524288 + acpi_first s) (Suc (acpi_last s - acpi_first s)) (acpi s) 2 ?ram"
  have d: "kvm_pages s q = ?tab q" if "\<not> ?d" unfolding kvm_pages_def using that by (intro map_pages_out) simp
  have a: "?tab q = ?ram q" if "\<not> ?a" using that L(2) by (intro map_pages_out) auto
  consider (dev) ?d | (tab) "\<not> ?d" ?a | (ram) "\<not> ?d" "\<not> ?a" ?r | (none) "\<not> ?d" "\<not> ?a" "\<not> ?r" by blast
  then show ?thesis
  proof cases
    case dev
    have "translate m f x = Some (0xFE000000 + (x - PGROUNDDOWN 0xFE000000))"
      unfolding t kvm_pages_def by (rule map_pages_entry [OF _ _ q_def _ al(1)]) (use dev in simp_all)
    moreover have "\<not> ?r" "\<not> ?a" using dev L(1-3) by auto
    ultimately show ?thesis using dev unfolding rd kvm_translate_def Let_def q_def [symmetric] by auto
  next
    case tab
    have "translate m f x = Some (acpi s + (x - PGROUNDDOWN (P2V (acpi s))))"
      unfolding t d [OF tab(1)] by (rule map_pages_entry [OF _ _ q_def R(4) L(4)]) (use tab(2) L(2) in simp_all)
    then show ?thesis using tab(2) unfolding rd kvm_translate_def Let_def q_def [symmetric] v(2) by simp
  next
    case ram
    have "translate m f x = Some (0 + (x - PGROUNDDOWN 0x80000000))"
      unfolding t d [OF ram(1)] a [OF ram(2)] by (rule map_pages_entry [OF _ _ q_def R(1) al(2)]) (use ram(3) in simp_all)
    then show ?thesis using ram(3) unfolding rd kvm_translate_def Let_def q_def [symmetric] v(1) by simp
  next
    case none
    have "?ram q = None" using none(3) by (subst map_pages_out) auto
    then show ?thesis unfolding t d [OF none(1)] a [OF none(2)] using none by (auto simp: kvm_translate_def Let_def q_def [symmetric])
  qed
qed

lemma cons_ready_kmem_frame: "kmem_frame s t \<Longrightarrow> cons_ready t = cons_ready s"
  by (rule cons_ready_same_sync) (simp_all add: kmem_frame_def)

lemma paging_switch_apply: "pgdir \<noteq> 0 \<Longrightarrow> paging_switch_pgdir pgdir s = Ret () (s\<lparr>cr3 := pgdir\<rparr>)"
  by (simp add: paging_switch_pgdir_def)

lemma frame_phys: "frame_ok f \<Longrightarrow> V2P f \<noteq> 0"
  using frame_ok_def [of f] by (auto simp: V2P_def)

lemma paging_init_returns:
  fixes s :: "'z kvm_scheme"
  assumes g: "kmem_gives s (f # fs)" and lay: "layout_ok s" and room: "kvm_tables s + rest \<le> length fs" and free: "isr_table s 14 = None"
  obtains t fs' us where "paging_init s = Ret () t" "kmem_gives t fs'" "vm_ok (mem t) f fs'" "rest \<le> length fs'" "kpgdir t = f"
    "cr3 t = V2P f" "isr_table t = (isr_table s)(14 \<mapsto> PageFaultHandler)"
    "\<forall>q < 1048576. vmem (mem t) f q = kvm_pages s q" "fs = us @ fs'"
    "\<forall>x. PGROUNDDOWN x \<notin> insert f (set us) \<longrightarrow> mem t x = mem s x"
    "kmem_frame s (t\<lparr>cr3 := cr3 s, kpgdir := kpgdir s, isr_table := isr_table s\<rparr>)"
proof -
  obtain u fs' us where u: "setupkvm s = Ret f u" "kmem_frame s u" "kmem_gives u fs'" "vm_ok (mem u) f fs'" "rest \<le> length fs'"
    "\<forall>q < 1048576. vmem (mem u) f q = kvm_pages s q" "fs = us @ fs'"
    "\<forall>x. PGROUNDDOWN x \<notin> insert f (set us) \<longrightarrow> mem u x = mem s x"
    using setupkvm_returns [OF g lay room] by metis
  define t where "t = u\<lparr>kpgdir := f, isr_table := (isr_table u)(14 \<mapsto> PageFaultHandler), cr3 := V2P f\<rparr>"
  note U = kmem_frame_fields [OF u(2)]
  have nz: "V2P f \<noteq> 0" using kmem_givesD(1) [OF g] by (rule frame_phys)
  have "paging_init s = Ret () t"
    using free U(4) nz by (simp add: paging_init_def u(1) paging_switch_apply t_def)
  moreover have "kmem_gives t fs'" using u(3) unfolding t_def
    by (simp add: kmem_gives_def kmem_ok_def kmem_ready_def cli_ok_def IF_on_def lock_free_def)
  moreover have "isr_table t = (isr_table s)(14 \<mapsto> PageFaultHandler)" by (simp add: t_def U(4))
  moreover have "t\<lparr>cr3 := cr3 s, kpgdir := kpgdir s, isr_table := isr_table s\<rparr> = u"
  proof -
    have "cr3 s = cr3 u" using u(2) by (simp add: kmem_frame_def)
    then show ?thesis unfolding U(4,5) [symmetric] t_def by simp
  qed
  ultimately show thesis using u that [of t fs' us] by (simp add: t_def)
qed

section \<open>Looking up a physical address\<close>

text \<open>\<open>paging_get_paddr\<close> adds the page offset to the whole entry, so its result still carries the
  entry's flag bits: for a mapped address it is the physical address plus these flags.\<close>

lemma paging_get_paddr_flags:
  fixes s :: "'z kvm_scheme"
  assumes v: "vm_ok (mem s) (kpgdir s) fs" and e: "vmem (mem s) (kpgdir s) (unat va div 4096) = Some e"
  shows "paging_get_paddr va s = Ret (e + ADDR_PAGE_OFFSET va) s"
    "translate (mem s) (kpgdir s) va = Some (PTE_ADDR e + ADDR_PAGE_OFFSET va)"
proof -
  have ix: "unat (PDX va) = unat va div 4096 div 1024" "unat (PTX va) = unat va div 4096 mod 1024"
    by (simp_all add: unat_PDX unat_PTX div_mult2_eq)
  obtain t where t: "tbl (mem s) (kpgdir s) (unat (PDX va)) = Some t" "read32 (mem s) (entry_at t (unat (PTX va))) = e"
    using e unfolding vmem_def ix by (auto simp: Let_def split: option.splits if_splits)
  have "entry_at t (unat (PTX va)) \<noteq> 0"
    by (rule entry_at_neq_0 [OF vm_okD(4) [OF v unat_PDX_lt t(1)] unat_PTX_lt])
  then show "paging_get_paddr va s = Ret (e + ADDR_PAGE_OFFSET va) s"
    using walk_present [OF t(1), of False] t(2) by (simp add: paging_get_paddr_def)
  show "translate (mem s) (kpgdir s) va = Some (PTE_ADDR e + ADDR_PAGE_OFFSET va)" using e by (simp add: translate_def)
qed

section \<open>A machine with 128 MiB\<close>

definition boot_kvm :: kvm where
  "boot_kvm = ioapic_state.extend (boot_ioapic\<lparr>phys_end := 0x7fe0000, acpi := 0x7fe0000, acpi_len := 0x20000\<rparr>) \<lparr>kpgdir = 0, cr2 = 0\<rparr>"

lemmas boot_kvm_defs = boot_kvm_def ioapic_state.defs boot_ioapic_defs

lemma length_frames_from [simp]: "length (frames_from p n) = n"
  by (induction n arbitrary: p) simp_all

lemma boot_kvm_heap:
  obtains s :: kvm and f fs where "kinit1 0x80110000 0x80150000 boot_kvm = Ret () s" "kmem_gives s (f # fs)" "length fs = 63"
    "phys_end s = 0x7fe0000" "acpi s = 0x7fe0000" "acpi_len s = 0x20000" "isr_table s = (\<lambda>_. None)"
proof -
  have b: "kheap_end boot_kvm = 0x07fe0000" "kmem_sentinel boot_kvm = 0x8010e004" "phys_end boot_kvm = 0x7fe0000"
    "acpi boot_kvm = 0x7fe0000" "acpi_len boot_kvm = 0x20000" "isr_table boot_kvm = (\<lambda>_. None)" by (simp_all add: boot_kvm_defs)
  have p: "PGROUNDUP 0x80110000 = 0x80110000" by (simp add: PGROUNDUP_def)
  have "\<exists>s. kinit1 0x80110000 0x80150000 boot_kvm = Ret () s \<and> kmem_ok s (rev (frames_from (PGROUNDUP 0x80110000) 64)) \<and>
    kmem_use_lock s = 0 \<and> kheap_start s = 0x80110000 \<and> kheap_end s = kheap_end boot_kvm \<and> lock_free KmemLock s \<and>
    kmem_sentinel s = kmem_sentinel boot_kvm \<and> kmem.more s = kmem.more boot_kvm"
    by (rule kinit1_returns) (simp_all add: b p)
  then obtain s where s: "kinit1 0x80110000 0x80150000 boot_kvm = Ret () s"
      "kmem_ok s (rev (frames_from 0x80110000 64))" "kmem_use_lock s = 0" "kmem.more s = kmem.more boot_kvm"
    unfolding p by blast
  have "kmem_gives s (rev (frames_from 0x80110000 64))" using s by (simp add: kmem_gives_def kmem_ready_def)
  moreover have "length (rev (frames_from 0x80110000 64)) = Suc 63" by (simp only: length_rev length_frames_from)
  then obtain f fs where "rev (frames_from 0x80110000 64) = f # fs" "length fs = 63" unfolding length_Suc_conv by blast
  ultimately show thesis using that s(1) kmem_more_fields [OF s(4)] b by metis
qed

section \<open>Properties\<close>

text \<open>C5: \<open>paging_init\<close> puts the processor on the kernel's address space. When the heap has a frame
  for the directory and for every table the three regions touch, and the regions do not overlap, it returns
  with the page directory register on a fresh directory under which exactly three regions are mapped: all usable physical memory and the
  ACPI tables at their address plus \<open>KERNBASE\<close> (so that \<open>P2V\<close> and \<open>V2P\<close> are what the memory management
  unit does), and the device space at itself. The page fault vector has its routine before
  the switch.\<close>

theorem paging_init_spec:
  fixes s :: "'z kvm_scheme"
  assumes "kmem_gives s (f # fs)" "layout_ok s" "kvm_tables s \<le> length fs" "isr_table s 14 = None"
  shows "\<exists>t. paging_init s = Ret () t \<and> kpgdir t = f \<and> cr3 t = V2P f \<and> isr_table t = (isr_table s)(14 \<mapsto> PageFaultHandler) \<and>
    (\<forall>x. translate (mem t) f x = kvm_translate s x)"
proof -
  obtain t fs' where "paging_init s = Ret () t" "kpgdir t = f" "cr3 t = V2P f" "isr_table t = (isr_table s)(14 \<mapsto> PageFaultHandler)"
    "\<forall>q < 1048576. vmem (mem t) f q = kvm_pages s q"
    using paging_init_returns [OF assms(1,2) _ assms(4), of 0] assms(3) by auto
  then show ?thesis using kvm_pages_translate [OF assms(2)] by blast
qed

theorem paging_init_spec_witness:
  "\<exists>s t. kinit1 0x80110000 0x80150000 boot_kvm = Ret () s \<and> paging_init s = Ret () t \<and>
     translate (mem t) (kpgdir t) 0x80000123 = Some 0x123 \<and> translate (mem t) (kpgdir t) 0xfec00000 = Some 0xfec00000 \<and>
     translate (mem t) (kpgdir t) 0x1000 = None"
proof (rule boot_kvm_heap)
  fix s :: kvm and f fs
  assume s: "kinit1 0x80110000 0x80150000 boot_kvm = Ret () s" "kmem_gives s (f # fs)" "length fs = 63"
    "phys_end s = 0x7fe0000" "acpi s = 0x7fe0000" "acpi_len s = 0x20000" "isr_table s = (\<lambda>_. None)"
  have r: "ram_last s = 32735" "acpi_first s = 32736" "acpi_last s = 32767"
    by (simp_all add: ram_last_def acpi_first_def acpi_last_def s)
  have "layout_ok s" by (simp add: layout_ok_def s aligned_def)
  moreover have "kvm_tables s \<le> length fs" by (simp add: kvm_tables_def r dir_span_def s)
  ultimately obtain t where t: "paging_init s = Ret () t" "kpgdir t = f" "\<forall>x. translate (mem t) f x = kvm_translate s x"
    using paging_init_spec [OF s(2)] s(7) by auto
  have "kvm_translate s 0x80000123 = Some 0x123" "kvm_translate s 0xfec00000 = Some 0xfec00000" "kvm_translate s 0x1000 = None"
    by (simp_all add: kvm_translate_def Let_def r V2P_def)
  then show ?thesis using s(1) t by auto
qed

end
