(* ===== verification/Proc.thy ===== *)
theory Proc
  imports Kvm
begin

text \<open>
  Processes and the scheduler (\<^verbatim>\<open>kernel/proc.h\<close>, \<^verbatim>\<open>kernel/proc.c\<close>, \<^verbatim>\<open>kernel/swtch.asm\<close> and
  \<open>trapret\<close> of \<^verbatim>\<open>kernel/isr.asm\<close>). A pointer to a process is its slot in \<open>ptable\<close>. The
  stack pointer and the callee-saved registers are part of the state, because \<open>swtch\<close>
  exchanges them; it returns the address at which execution goes on. The addresses of
  \<open>trapret\<close>, \<open>enter_process\<close>, of the instructions after the two calls of \<open>swtch\<close> and of the
  embedded program are fields that no operation changes.
\<close>

section \<open>Data\<close>

datatype process_state = UNUSED | INITIAL | RUNNABLE | RUNNING | SLEEPING | ZOMBIE

record process =
  p_name :: "u8 list"
  p_pid :: u16
  p_context :: addr
  p_state :: process_state
  p_xstate :: u32
  p_pgdir :: addr
  p_kstack :: u32
  p_sz :: u32
  p_tf :: addr

record proc = kvm +
  ptable :: "process list"
  initproc :: "nat option"
  nextpid :: u16
  r_edi :: u32
  r_esi :: u32
  r_ebx :: u32
  r_ebp :: u32
  r_esp :: u32
  trapret_addr :: u32
  enter_process_addr :: u32
  scheduler_ra :: u32
  enter_scheduler_ra :: u32
  init_start :: addr
  init_size :: u32

abbreviation (input) NPROC :: nat where "NPROC \<equiv> 64"
abbreviation (input) KSTACKSIZE :: u32 where "KSTACKSIZE \<equiv> 4096"
abbreviation (input) SIZEOF_TF :: u32 where "SIZEOF_TF \<equiv> 64"
abbreviation (input) SIZEOF_CONTEXT :: u32 where "SIZEOF_CONTEXT \<equiv> 20"
abbreviation (input) SIZEOF_TS :: u32 where "SIZEOF_TS \<equiv> 104"

text \<open>What \<open>&p->context\<close> and \<open>&c->scheduler\<close> point to.\<close>

datatype context_ref = ProcContext nat | CpuScheduler nat

section \<open>Definitions\<close>

definition upd_proc :: "nat \<Rightarrow> (process \<Rightarrow> process) \<Rightarrow> (unit, 'z proc_scheme) kern" where
  "upd_proc i f = modK (\<lambda>s. s\<lparr>ptable := (ptable s)[i := f (ptable s ! i)]\<rparr>)"

definition process_init :: "(unit, 'z proc_scheme) kern" where
  "process_init = thenK (initlock PtableLock ''ptable'')
     (isr_register (of_nat IDT_TRAP_SYSCALL) SyscallHandler)"

definition enter_process :: "(unit, 'z proc_scheme) kern" where
  "enter_process = release PtableLock"

definition find_slot :: "process list \<Rightarrow> nat option" where
  "find_slot ps = find (\<lambda>i. p_state (ps ! i) = UNUSED) [0 ..< NPROC]"

text \<open>The stack of a new process, from the top: trap state, \<open>trapret\<close>, context.\<close>

definition new_stack :: "nat \<Rightarrow> (unit, 'z proc_scheme) kern" where
  "new_stack p = bindK (getK (\<lambda>s. p_kstack (ptable s ! p) + KSTACKSIZE)) (\<lambda>sp.
     let sp = sp - SIZEOF_TF in thenK (upd_proc p (\<lambda>q. q\<lparr>p_tf := sp\<rparr>))
     (let sp = sp - 4 in bindK (getK trapret_addr) (\<lambda>tr. thenK (upd_mem (\<lambda>m. write32 m sp tr))
     (let sp = sp - SIZEOF_CONTEXT in thenK (upd_proc p (\<lambda>q. q\<lparr>p_context := sp\<rparr>))
     (thenK (upd_mem (\<lambda>m. snd (memset m sp 0 SIZEOF_CONTEXT)))
     (bindK (getK enter_process_addr) (\<lambda>ep. upd_mem (\<lambda>m. write32 m (sp + 16) ep))))))))"

definition process_alloc :: "(nat option, 'z proc_scheme) kern" where
  "process_alloc = thenK (acquire PtableLock) (bindK (getK (\<lambda>s. find_slot (ptable s))) (\<lambda>slot.
     case slot of
       None \<Rightarrow> thenK (release PtableLock)
         (thenK (warn ''new_process: process table is full, no free slot'' []) (retK None))
     | Some p \<Rightarrow>
         thenK (upd_proc p (\<lambda>q. q\<lparr>p_state := INITIAL\<rparr>))
         (bindK (getK nextpid) (\<lambda>n. thenK (upd_proc p (\<lambda>q. q\<lparr>p_pid := n\<rparr>))
         (thenK (modK (\<lambda>s. s\<lparr>nextpid := n + 1\<rparr>))
         (thenK (release PtableLock)
         (bindK kalloc (\<lambda>k. thenK (upd_proc p (\<lambda>q. q\<lparr>p_kstack := k\<rparr>))
         (if k = 0 then thenK (upd_proc p (\<lambda>q. q\<lparr>p_state := UNUSED\<rparr>))
            (thenK (warn ''new_process: failed to allocate kernel stack page'' []) (retK None))
          else thenK (new_stack p) (retK (Some p)))))))))))"

text \<open>\<open>strncpy\<close> into a field of a process: the library routine on a memory that holds the
  field at 0 and the literal at \<open>0x1000\<close>.\<close>

definition strncpy_field :: "u8 list \<Rightarrow> string \<Rightarrow> u32 \<Rightarrow> u8 list" where
  "strncpy_field dst src count =
     (let m = (\<lambda>a :: addr. if unat a < length dst then dst ! unat a
           else if 0x1000 \<le> unat a \<and> unat a < 0x1000 + length src then of_char (src ! (unat a - 0x1000)) else 0);
          m' = snd (strncpy m 0 0x1000 count)
      in map (\<lambda>i. m' (of_nat i)) [0 ..< length dst])"

text \<open>The fields of a trap state on a kernel stack.\<close>

definition init_tf :: "addr \<Rightarrow> memory \<Rightarrow> memory" where
  "init_tf tf m =
     (let m = snd (memset m tf 0 SIZEOF_TF);
          m = write32 m (tf + 48) (push_bit 3 3 OR 3);
          m = write32 m tf (push_bit 3 4 OR 3);
          m = write32 m (tf + 60) (read32 m tf);
          m = write32 m (tf + 52) FL_IF;
          m = write32 m (tf + 56) PGSIZE
      in write32 m (tf + 44) 0)"

definition initproc_init :: "(unit, 'z proc_scheme) kern" where
  "initproc_init = bindK process_alloc (\<lambda>po.
     thenK (assertK ''initproc_init'' ''kernel/proc.c'' 126 (po \<noteq> None))
     (case po of None \<Rightarrow> faultK | Some p \<Rightarrow>
       thenK (modK (\<lambda>s. s\<lparr>initproc := Some p\<rparr>))
       (bindK setupkvm (\<lambda>d. thenK (upd_proc p (\<lambda>q. q\<lparr>p_pgdir := d\<rparr>))
       (if d = 0 then panicK ''initproc: out of memory?''
        else bindK (getK (\<lambda>s. (init_start s, init_size s))) (\<lambda>(start, size).
          seqK [inituvm d start size,
            upd_proc p (\<lambda>q. q\<lparr>p_sz := PGSIZE\<rparr>),
            bindK (getK (\<lambda>s. p_tf (ptable s ! p))) (\<lambda>tf. upd_mem (init_tf tf)),
            upd_proc p (\<lambda>q. q\<lparr>p_name := strncpy_field (p_name q) ''init'' 15\<rparr>),
            acquire PtableLock,
            upd_proc p (\<lambda>q. q\<lparr>p_state := RUNNABLE\<rparr>),
            release PtableLock]))))))"

definition myproc :: "(nat option, 'z proc_scheme) kern" where
  "myproc = thenK pushcli (bindK mycpu (\<lambda>c. bindK (getK (\<lambda>s. cpu_proc (cpus s c))) (\<lambda>p.
     thenK popcli (retK p))))"

section \<open>Context switch\<close>

definition push32 :: "u32 \<Rightarrow> (unit, 'z proc_scheme) kern" where
  "push32 v = modK (\<lambda>s. s\<lparr>r_esp := r_esp s - 4, mem := write32 (mem s) (r_esp s - 4) v\<rparr>)"

definition pop32 :: "(u32, 'z proc_scheme) kern" where
  "pop32 = bindK (getK (\<lambda>s. read32 (mem s) (r_esp s))) (\<lambda>v.
     thenK (modK (\<lambda>s. s\<lparr>r_esp := r_esp s + 4\<rparr>)) (retK v))"

definition set_context :: "context_ref \<Rightarrow> addr \<Rightarrow> (unit, 'z proc_scheme) kern" where
  "set_context old a = (case old of
     ProcContext p \<Rightarrow> upd_proc p (\<lambda>q. q\<lparr>p_context := a\<rparr>)
   | CpuScheduler c \<Rightarrow> upd_cpu c (\<lambda>q. q\<lparr>cpu_scheduler := a\<rparr>))"

definition swtch :: "context_ref \<Rightarrow> addr \<Rightarrow> (u32, 'z proc_scheme) kern" where
  "swtch old new =
     thenK (bindK (getK r_ebp) push32)
     (thenK (bindK (getK r_ebx) push32)
     (thenK (bindK (getK r_esi) push32)
     (thenK (bindK (getK r_edi) push32)
     (thenK (bindK (getK r_esp) (set_context old))
     (thenK (modK (\<lambda>s. s\<lparr>r_esp := new\<rparr>))
     (thenK (bindK pop32 (\<lambda>v. modK (\<lambda>s. s\<lparr>r_edi := v\<rparr>)))
     (thenK (bindK pop32 (\<lambda>v. modK (\<lambda>s. s\<lparr>r_esi := v\<rparr>)))
     (thenK (bindK pop32 (\<lambda>v. modK (\<lambda>s. s\<lparr>r_ebx := v\<rparr>)))
     (thenK (bindK pop32 (\<lambda>v. modK (\<lambda>s. s\<lparr>r_ebp := v\<rparr>)))
     pop32)))))))))"

text \<open>The call: room for the two arguments, and the return address \<open>ra\<close>.\<close>

definition call_swtch :: "u32 \<Rightarrow> context_ref \<Rightarrow> addr \<Rightarrow> (u32, 'z proc_scheme) kern" where
  "call_swtch ra old new = thenK (modK (\<lambda>s. s\<lparr>r_esp := r_esp s - 8\<rparr>)) (thenK (push32 ra) (swtch old new))"

text \<open>\<open>enter_scheduler\<close> up to its \<open>swtch\<close>, with the value of its local variable \<open>intena\<close>
  and the address where execution goes on. The rest of it, and of \<open>exit\<close>, runs when the
  process is switched to again.\<close>

definition enter_scheduler :: "(u32 \<times> u32, 'z proc_scheme) kern" where
  "enter_scheduler = bindK (holding PtableLock) (\<lambda>h.
     if \<not> h then panicK ''sched ptable.lock''
     else bindK mycpu (\<lambda>c. bindK (getK (\<lambda>s. ncli (cpus s c))) (\<lambda>n.
     if n \<noteq> 1 then panicK ''sched locks''
     else bindK myproc (\<lambda>po. case po of None \<Rightarrow> faultK | Some p \<Rightarrow>
     bindK (getK (\<lambda>s. p_state (ptable s ! p))) (\<lambda>st.
     if st = RUNNING then panicK ''sched running''
     else bindK readeflags (\<lambda>fl.
     if fl AND FL_IF \<noteq> 0 then panicK ''sched interruptible''
     else bindK mycpu (\<lambda>c. bindK (getK (\<lambda>s. intena (cpus s c))) (\<lambda>ie.
     bindK mycpu (\<lambda>c. bindK (getK (\<lambda>s. (enter_scheduler_ra s, cpu_scheduler (cpus s c)))) (\<lambda>(ra, sched).
     bindK (call_swtch ra (ProcContext p) sched) (\<lambda>eip. retK (ie, eip))))))))))))"

definition enter_scheduler_tail :: "u32 \<Rightarrow> (unit, 'z proc_scheme) kern" where
  "enter_scheduler_tail ie = bindK mycpu (\<lambda>c. upd_cpu c (\<lambda>q. q\<lparr>intena := ie\<rparr>))"

definition exit_process :: "u32 \<Rightarrow> (u32 \<times> u32, 'z proc_scheme) kern" where
  "exit_process status = bindK myproc (\<lambda>po. bindK (getK initproc) (\<lambda>ip.
     thenK (whenK (po = ip) (warn ''init exiting'' []))
     (thenK (acquire PtableLock)
     (case po of None \<Rightarrow> faultK | Some p \<Rightarrow>
       thenK (upd_proc p (\<lambda>q. q\<lparr>p_xstate := status\<rparr>))
       (thenK (upd_proc p (\<lambda>q. q\<lparr>p_state := ZOMBIE\<rparr>)) enter_scheduler)))))"

definition exit_tail :: "u32 \<Rightarrow> (unit, 'z proc_scheme) kern" where
  "exit_tail ie = thenK (enter_scheduler_tail ie) (panicK ''zombie exit'')"

section \<open>Address spaces\<close>

definition proc_load_task_reg :: "u16 \<Rightarrow> (unit, 'z proc_scheme) kern" where
  "proc_load_task_reg sel = modK (\<lambda>s. s\<lparr>task_reg := sel\<rparr>)"

definition switchuvm :: "nat option \<Rightarrow> (unit, 'z proc_scheme) kern" where
  "switchuvm po = (case po of None \<Rightarrow> panicK ''switchuvm: no process'' | Some p \<Rightarrow>
     bindK (getK (\<lambda>s. ptable s ! p)) (\<lambda>q.
     if p_kstack q = 0 then panicK ''switchuvm: no kstack''
     else if p_pgdir q = 0 then panicK ''switchuvm: no pgdir''
     else seqK [pushcli,
       bindK mycpu (\<lambda>c. bindK (getK tss_addr) (\<lambda>base.
         set_gdt c TSS_IX (gdt_set_entry base (SIZEOF_TS - 1) (SEG_PRESENT OR SEG_RING0 OR SEG_TSS32_AVAIL) 0))),
       bindK mycpu (\<lambda>c. upd_cpu c (\<lambda>r. r\<lparr>cpu_ts := (cpu_ts r)\<lparr>ts_ss0 := push_bit 3 2\<rparr>\<rparr>)),
       bindK mycpu (\<lambda>c. upd_cpu c (\<lambda>r. r\<lparr>cpu_ts := (cpu_ts r)\<lparr>ts_esp0 := p_kstack q + KSTACKSIZE\<rparr>\<rparr>)),
       bindK mycpu (\<lambda>c. upd_cpu c (\<lambda>r. r\<lparr>cpu_ts := (cpu_ts r)\<lparr>ts_iomb := 0xFFFF\<rparr>\<rparr>)),
       proc_load_task_reg (push_bit 3 5),
       paging_switch_pgdir (V2P (p_pgdir q)),
       popcli]))"

definition switchkvm :: "(unit, 'z proc_scheme) kern" where
  "switchkvm = bindK (getK kpgdir) (\<lambda>d. paging_switch_pgdir (V2P d))"

section \<open>Scheduler\<close>

text \<open>
  \<open>scheduler\<close> never returns, and its \<open>swtch\<close> goes to another stack: its stages are operations
  of their own, joined by the step relation below. In order: before the loop, the head of the
  loop, the body for a runnable slot up to \<open>swtch\<close>, the body after \<open>swtch\<close>, and the end of the loop.
\<close>

definition scheduler_start :: "(unit, 'z proc_scheme) kern" where
  "scheduler_start = bindK mycpu (\<lambda>c. upd_cpu c (\<lambda>r. r\<lparr>cpu_proc := None\<rparr>))"

definition scheduler_head :: "(unit, 'z proc_scheme) kern" where
  "scheduler_head = thenK sti (acquire PtableLock)"

definition scheduler_run :: "nat \<Rightarrow> nat \<Rightarrow> (u32, 'z proc_scheme) kern" where
  "scheduler_run c p = thenK (upd_cpu c (\<lambda>r. r\<lparr>cpu_proc := Some p\<rparr>))
     (thenK (switchuvm (Some p))
     (thenK (upd_proc p (\<lambda>q. q\<lparr>p_state := RUNNING\<rparr>))
     (bindK (getK (\<lambda>s. (scheduler_ra s, p_context (ptable s ! p)))) (\<lambda>(ra, ctx).
      call_swtch ra (CpuScheduler c) ctx))))"

definition scheduler_back :: "nat \<Rightarrow> (unit, 'z proc_scheme) kern" where
  "scheduler_back c = thenK (modK (\<lambda>s. s\<lparr>r_esp := r_esp s + 8\<rparr>))
     (thenK switchkvm (upd_cpu c (\<lambda>r. r\<lparr>cpu_proc := None\<rparr>)))"

definition scheduler_end :: "(unit, 'z proc_scheme) kern" where
  "scheduler_end = release PtableLock"

text \<open>\<open>trapret\<close>: pop the trap state at the stack pointer and leave the kernel by \<open>iret\<close>.\<close>

definition read_frame :: "memory \<Rightarrow> addr \<Rightarrow> interrupt_state" where
  "read_frame m a = \<lparr>is_ds = read32 m a, is_edi = read32 m (a + 4), is_esi = read32 m (a + 8),
     is_ebp = read32 m (a + 12), is_useless = read32 m (a + 16), is_ebx = read32 m (a + 20),
     is_edx = read32 m (a + 24), is_ecx = read32 m (a + 28), is_eax = read32 m (a + 32),
     is_int_no = read32 m (a + 36), is_err_code = read32 m (a + 40), is_eip = read32 m (a + 44),
     is_cs = read32 m (a + 48), is_eflags = read32 m (a + 52), is_esp = read32 m (a + 56), is_ss = read32 m (a + 60)\<rparr>"

definition trapret :: "(interrupt_state, 'z proc_scheme) kern" where
  "trapret = bindK (getK (\<lambda>s. read_frame (mem s) (r_esp s))) (\<lambda>f.
     thenK (modK (\<lambda>s. s\<lparr>r_edi := is_edi f, r_esi := is_esi f, r_ebp := is_ebp f, r_ebx := is_ebx f,
       r_esp := is_esp f, eflags := is_eflags f\<rparr>)) (retK f))"

section \<open>Interrupt nesting and locks leave the process data alone\<close>

lemma pushed_proc [simp]:
  fixes s :: "'z proc_scheme"
  shows
  "ptable (pushed s) = ptable s" "initproc (pushed s) = initproc s" "nextpid (pushed s) = nextpid s" "r_edi (pushed s) = r_edi s"
  "r_esi (pushed s) = r_esi s" "r_ebx (pushed s) = r_ebx s" "r_ebp (pushed s) = r_ebp s" "r_esp (pushed s) = r_esp s"
  "trapret_addr (pushed s) = trapret_addr s" "enter_process_addr (pushed s) = enter_process_addr s" "scheduler_ra (pushed s) = scheduler_ra s" "enter_scheduler_ra (pushed s) = enter_scheduler_ra s"
  "init_start (pushed s) = init_start s" "init_size (pushed s) = init_size s" "kpgdir (pushed s) = kpgdir s" "tss_addr (pushed s) = tss_addr s"
  by (simp_all add: pushed_def)

lemma resave_proc [simp]:
  fixes s :: "'z proc_scheme"
  shows
  "ptable (resave s) = ptable s" "initproc (resave s) = initproc s" "nextpid (resave s) = nextpid s" "r_edi (resave s) = r_edi s"
  "r_esi (resave s) = r_esi s" "r_ebx (resave s) = r_ebx s" "r_ebp (resave s) = r_ebp s" "r_esp (resave s) = r_esp s"
  "trapret_addr (resave s) = trapret_addr s" "enter_process_addr (resave s) = enter_process_addr s" "scheduler_ra (resave s) = scheduler_ra s" "enter_scheduler_ra (resave s) = enter_scheduler_ra s"
  "init_start (resave s) = init_start s" "init_size (resave s) = init_size s" "kpgdir (resave s) = kpgdir s" "tss_addr (resave s) = tss_addr s"
  by (simp_all add: resave_def)

lemma acquired_proc [simp]:
  fixes s :: "'z proc_scheme"
  shows
  "ptable (acquired lk s) = ptable s" "initproc (acquired lk s) = initproc s" "nextpid (acquired lk s) = nextpid s" "r_edi (acquired lk s) = r_edi s"
  "r_esi (acquired lk s) = r_esi s" "r_ebx (acquired lk s) = r_ebx s" "r_ebp (acquired lk s) = r_ebp s" "r_esp (acquired lk s) = r_esp s"
  "trapret_addr (acquired lk s) = trapret_addr s" "enter_process_addr (acquired lk s) = enter_process_addr s" "scheduler_ra (acquired lk s) = scheduler_ra s" "enter_scheduler_ra (acquired lk s) = enter_scheduler_ra s"
  "init_start (acquired lk s) = init_start s" "init_size (acquired lk s) = init_size s" "kpgdir (acquired lk s) = kpgdir s" "tss_addr (acquired lk s) = tss_addr s"
  by (simp_all add: acquired_def pushed_def)

lemma released_proc [simp]:
  fixes s :: "'z proc_scheme"
  shows
  "ptable (released lk s) = ptable s" "initproc (released lk s) = initproc s" "nextpid (released lk s) = nextpid s" "r_edi (released lk s) = r_edi s"
  "r_esi (released lk s) = r_esi s" "r_ebx (released lk s) = r_ebx s" "r_ebp (released lk s) = r_ebp s" "r_esp (released lk s) = r_esp s"
  "trapret_addr (released lk s) = trapret_addr s" "enter_process_addr (released lk s) = enter_process_addr s" "scheduler_ra (released lk s) = scheduler_ra s" "enter_scheduler_ra (released lk s) = enter_scheduler_ra s"
  "init_start (released lk s) = init_start s" "init_size (released lk s) = init_size s" "kpgdir (released lk s) = kpgdir s" "tss_addr (released lk s) = tss_addr s"
  by (simp_all add: released_def)

lemma cprintf_frame_proc:
  fixes s t :: "'z proc_scheme"
  assumes "cprintf_frame s t"
  shows
  "ptable t = ptable s" "initproc t = initproc s" "nextpid t = nextpid s" "r_edi t = r_edi s"
  "r_esi t = r_esi s" "r_ebx t = r_ebx s" "r_ebp t = r_ebp s" "r_esp t = r_esp s"
  "trapret_addr t = trapret_addr s" "enter_process_addr t = enter_process_addr s" "scheduler_ra t = scheduler_ra s" "enter_scheduler_ra t = enter_scheduler_ra s"
  "init_start t = init_start s" "init_size t = init_size s" "kpgdir t = kpgdir s" "tss_addr t = tss_addr s"
  by (rule frame_field [OF assms], simp)+

section \<open>The context switch\<close>

definition put_context :: "context_ref \<Rightarrow> addr \<Rightarrow> 'z proc_scheme \<Rightarrow> 'z proc_scheme" where
  "put_context old a s = (case old of
     ProcContext p \<Rightarrow> s\<lparr>ptable := (ptable s)[p := (ptable s ! p)\<lparr>p_context := a\<rparr>]\<rparr>
   | CpuScheduler c \<Rightarrow> s\<lparr>cpus := (cpus s)(c := (cpus s c)\<lparr>cpu_scheduler := a\<rparr>)\<rparr>)"

definition pushed_regs :: "'z proc_scheme \<Rightarrow> memory" where
  "pushed_regs s = write32 (write32 (write32 (write32 (mem s) (r_esp s - 4) (r_ebp s))
     (r_esp s - 8) (r_ebx s)) (r_esp s - 12) (r_esi s)) (r_esp s - 16) (r_edi s)"

definition load_context :: "addr \<Rightarrow> 'z proc_scheme \<Rightarrow> 'z proc_scheme" where
  "load_context new s = s\<lparr>r_edi := read32 (mem s) new, r_esi := read32 (mem s) (new + 4),
     r_ebx := read32 (mem s) (new + 8), r_ebp := read32 (mem s) (new + 12), r_esp := new + 20\<rparr>"

lemma put_context_simps [simp]:
  "mem (put_context old a s) = mem s" "r_esp (put_context old a s) = r_esp s" "r_edi (put_context old a s) = r_edi s"
  by (simp_all add: put_context_def split: context_ref.split)

lemma swtch_apply:
  "swtch old new s = Ret (read32 (pushed_regs s) (new + 16))
     (load_context new (put_context old (r_esp s - 16) (s\<lparr>mem := pushed_regs s\<rparr>)))"
  by (cases old) (simp_all add: swtch_def push32_def pop32_def set_context_def upd_proc_def upd_cpu_def
      put_context_def load_context_def pushed_regs_def ac_simps)

lemma in_subregion:
  assumes "in_region (a + of_nat k) n x" "k + n \<le> N" "N \<le> 4294967296"
  shows "in_region a N x"
proof -
  have "n \<le> 2 ^ 32" using assms by simp
  then obtain i where "i < n" "x = a + of_nat k + of_nat i" using assms(1) by (auto simp: in_region_iff)
  then have "k + i < N" "x = a + of_nat (k + i)" using assms by (simp_all add: add.assoc)
  then show ?thesis using assms(3) by (auto simp: in_region_iff)
qed

lemma pushed_regs_other:
  assumes "\<not> in_region (r_esp s - 16) 16 x"
  shows "pushed_regs s x = mem s x"
proof -
  have "\<not> in_region (r_esp s - 16 + of_nat k) 4 x" if "k + 4 \<le> 16" for k
    using assms that in_subregion [of "r_esp s - 16" k 4 x 16] by auto
  from this [of 0] this [of 4] this [of 8] this [of 12] show ?thesis
    by (simp add: pushed_regs_def write32_other)
qed

lemma pushed_regs_read:
  "read32 (pushed_regs s) (r_esp s - 16) = r_edi s" "read32 (pushed_regs s) (r_esp s - 12) = r_esi s"
  "read32 (pushed_regs s) (r_esp s - 8) = r_ebx s" "read32 (pushed_regs s) (r_esp s - 4) = r_ebp s"
  "read32 (pushed_regs s) (r_esp s) = read32 (mem s) (r_esp s)"
  by (simp_all add: pushed_regs_def read32_write32_other disjoint_regions_def)

definition called :: "u32 \<Rightarrow> 'z proc_scheme \<Rightarrow> 'z proc_scheme" where
  "called ra s = s\<lparr>r_esp := r_esp s - 12, mem := write32 (mem s) (r_esp s - 12) ra\<rparr>"

lemma call_swtch_apply: "call_swtch ra old new s = swtch old new (called ra s)"
  by (simp add: call_swtch_def push32_def called_def)

lemma called_simps [simp]: "r_esp (called ra s) = r_esp s - 12" "ptable (called ra s) = ptable s" "cpus (called ra s) = cpus s"
  by (simp_all add: called_def)

text \<open>The words a call of \<open>swtch\<close> leaves on the stack, 28 bytes below the stack pointer.\<close>

lemma call_swtch_stack:
  "read32 (pushed_regs (called ra s)) (r_esp s - 28 + 16) = ra"
  "\<not> in_region (r_esp s - 28) 20 x \<Longrightarrow> pushed_regs (called ra s) x = mem s x"
proof -
  show "read32 (pushed_regs (called ra s)) (r_esp s - 28 + 16) = ra"
    using pushed_regs_read(5) [of "called ra s"] by (simp add: called_def)
  assume x: "\<not> in_region (r_esp s - 28) 20 x"
  then have "\<not> in_region (r_esp s - 28 + of_nat 0) 16 x" "\<not> in_region (r_esp s - 28 + of_nat 16) 4 x"
    using in_subregion [of "r_esp s - 28" 0 16 x 20] in_subregion [of "r_esp s - 28" 16 4 x 20] by auto
  then show "pushed_regs (called ra s) x = mem s x" by (subst pushed_regs_other) (simp_all add: called_def write32_other)
qed

section \<open>Switching to a process\<close>

definition tss_cpu :: "u32 \<Rightarrow> u32 \<Rightarrow> cpu \<Rightarrow> cpu" where
  "tss_cpu base k r = r\<lparr>cpu_gdt := (cpu_gdt r)[5 := gdt_set_entry base 103 0x89 0],
     cpu_ts := (cpu_ts r)\<lparr>ts_ss0 := 0x10, ts_esp0 := k + 4096, ts_iomb := 0xFFFF\<rparr>\<rparr>"

lemma switchuvm_apply:
  assumes "cli_ok s" "0 < ncli (cpus s 0)" "p_kstack (ptable s ! p) \<noteq> 0" "p_pgdir (ptable s ! p) \<noteq> 0"
    "V2P (p_pgdir (ptable s ! p)) \<noteq> 0"
  shows "switchuvm (Some p) s = Ret () (s\<lparr>cpus := (cpus s)(0 := tss_cpu (tss_addr s) (p_kstack (ptable s ! p)) (cpus s 0)),
     task_reg := 0x28, cr3 := V2P (p_pgdir (ptable s ! p))\<rparr>)"
proof -
  have f: "eflags s AND - 513 = eflags s" "eflags s AND 512 = 0" using assms(1,2) by (simp_all add: cli_ok_def IF_on_bit and_FL_IF_bit)
  have n: "ncli (cpus s 0) \<noteq> 0" "0 < ncli (cpus s 0) + 1" using assms(2) by simp_all
  let ?t = "(pushed s)\<lparr>cpus := (cpus (pushed s))(0 := tss_cpu (tss_addr s) (p_kstack (ptable s ! p)) (cpus (pushed s) 0)),
     task_reg := 0x28, cr3 := V2P (p_pgdir (ptable s ! p))\<rparr>"
  have m: "mycpu t = Ret 0 t" if "eflags t = eflags (pushed s)" for t :: "'z proc_scheme"
    using that by (simp add: mycpu_def readeflags_def)
  have "popcli ?t = Ret () (s\<lparr>cpus := (cpus s)(0 := tss_cpu (tss_addr s) (p_kstack (ptable s ! p)) (cpus s 0)),
     task_reg := 0x28, cr3 := V2P (p_pgdir (ptable s ! p))\<rparr>)"
    using n by (subst popcli_apply) (simp_all add: IF_on_def tss_cpu_def pushed_def set_ncli_def saved_if_def f)
  then show ?thesis using assms(3-5)
    by (simp add: switchuvm_def pushcli_apply m set_gdt_def upd_cpu_def proc_load_task_reg_def
      paging_switch_apply tss_cpu_def SEG_PRESENT_def SEG_RING0_def SEG_TSS32_AVAIL_def)
qed

section \<open>Scheduling\<close>

text \<open>
  The system as a transition relation. Control is at the head of the scheduler's loop, in
  its scan of the process table, at the start of a process that is switched to for the
  first time (\<open>Entering\<close>) or again (\<open>Resumed\<close>), in a process, or back behind the scheduler's
  \<open>swtch\<close>. \<open>user_step i\<close> is everything that happens while process \<open>i\<close> runs, traps and
  interrupts included: it is not the scheduler's code, and is only assumed to leave alone
  the process table (but for the pointer to the trap state), the locks, the processor's
  scheduling state, the stack the scheduler is suspended on and the kernel stacks of other
  processes.
\<close>

datatype control = AtHead | AtScan nat | Entering nat | Resumed nat | InProc nat | Returning nat

definition live :: "'z proc_scheme \<Rightarrow> nat \<Rightarrow> bool" where
  "live s i \<longleftrightarrow> i < length (ptable s) \<and> p_state (ptable s ! i) \<noteq> UNUSED"

definition sched_const :: "'z proc_scheme \<Rightarrow> 'z proc_scheme \<Rightarrow> bool" where
  "sched_const s t \<longleftrightarrow> kpgdir t = kpgdir s \<and> trapret_addr t = trapret_addr s \<and> enter_process_addr t = enter_process_addr s \<and>
     scheduler_ra t = scheduler_ra s \<and> enter_scheduler_ra t = enter_scheduler_ra s"

definition user_step :: "nat \<Rightarrow> 'z proc_scheme \<Rightarrow> 'z proc_scheme \<Rightarrow> bool" where
  "user_step i s t \<longleftrightarrow> sched_const s t \<and>
     (\<exists>tf. ptable t = (ptable s)[i := (ptable s ! i)\<lparr>p_tf := tf\<rparr>]) \<and>
     (\<forall>lk. lock_free lk s \<longrightarrow> lock_free lk t) \<and> (cpus t 0)\<lparr>intena := 0\<rparr> = (cpus s 0)\<lparr>intena := 0\<rparr> \<and>
     (\<forall>a. in_region (cpu_scheduler (cpus s 0)) 20 a \<longrightarrow> mem t a = mem s a) \<and>
     (\<forall>a j. live s j \<and> j \<noteq> i \<and> PGROUNDDOWN a = p_kstack (ptable s ! j) \<longrightarrow> mem t a = mem s a)"

definition on_kstack :: "nat \<Rightarrow> 'z proc_scheme \<Rightarrow> bool" where
  "on_kstack i s \<longleftrightarrow> unat (p_kstack (ptable s ! i)) + 28 \<le> unat (r_esp s) \<and>
     unat (r_esp s) - 8 \<le> unat (p_kstack (ptable s ! i)) + 4096"

inductive sched_step :: "control \<times> 'z proc_scheme \<Rightarrow> control \<times> 'z proc_scheme \<Rightarrow> bool" where
  st_head: "scheduler_head s = Ret () t \<Longrightarrow> sched_step (AtHead, s) (AtScan 0, t)"
| st_skip: "i < NPROC \<Longrightarrow> p_state (ptable s ! i) \<noteq> RUNNABLE \<Longrightarrow> sched_step (AtScan i, s) (AtScan (Suc i), s)"
| st_run: "i < NPROC \<Longrightarrow> p_state (ptable s ! i) = RUNNABLE \<Longrightarrow> scheduler_run 0 i s = Ret eip t \<Longrightarrow>
    eip = enter_process_addr t \<Longrightarrow> sched_step (AtScan i, s) (Entering i, t)"
| st_rerun: "i < NPROC \<Longrightarrow> p_state (ptable s ! i) = RUNNABLE \<Longrightarrow> scheduler_run 0 i s = Ret eip t \<Longrightarrow>
    eip \<noteq> enter_process_addr t \<Longrightarrow> eip = enter_scheduler_ra t \<Longrightarrow> sched_step (AtScan i, s) (Resumed i, t)"
| st_end: "scheduler_end s = Ret () t \<Longrightarrow> sched_step (AtScan NPROC, s) (AtHead, t)"
| st_enter: "enter_process s = Ret () t \<Longrightarrow> pop32 t = Ret (trapret_addr t) u \<Longrightarrow> trapret u = Ret f v \<Longrightarrow>
    sched_step (Entering i, s) (InProc i, v)"
| st_user: "user_step i s t \<Longrightarrow> sched_step (InProc i, s) (InProc i, t)"
| st_exit: "on_kstack i s \<Longrightarrow> exit_process status s = Ret (ie, eip) t \<Longrightarrow> eip = scheduler_ra t \<Longrightarrow>
    sched_step (InProc i, s) (Returning i, t)"
| st_back: "scheduler_back 0 s = Ret () t \<Longrightarrow> sched_step (Returning i, s) (AtScan (Suc i), t)"

definition running :: "'z proc_scheme \<Rightarrow> nat set" where
  "running s = {i. i < length (ptable s) \<and> p_state (ptable s ! i) = RUNNING}"

text \<open>The invariant. \<open>E\<close> is the scheduler's stack pointer.\<close>

definition fresh_stack :: "'z proc_scheme \<Rightarrow> process \<Rightarrow> bool" where
  "fresh_stack s p \<longleftrightarrow> p_context p = p_kstack p + 4008 \<and> p_tf p = p_kstack p + 4032 \<and>
     read32 (mem s) (p_kstack p + 4024) = enter_process_addr s \<and> read32 (mem s) (p_kstack p + 4028) = trapret_addr s"

definition ptable_ok :: "u32 \<Rightarrow> 'z proc_scheme \<Rightarrow> bool" where
  "ptable_ok E s \<longleftrightarrow> length (ptable s) = NPROC \<and> V2P (kpgdir s) \<noteq> 0 \<and>
     (\<forall>x. in_region (E - 28) 28 x \<longrightarrow> \<not> in_region vidmem 131072 x) \<and> (\<forall>lk. lk \<noteq> PtableLock \<longrightarrow> lock_free lk s) \<and>
     (\<forall>i. live s i \<longrightarrow> frame_ok (p_kstack (ptable s ! i)) \<and>
        (\<forall>x. in_region (E - 28) 28 x \<longrightarrow> PGROUNDDOWN x \<noteq> p_kstack (ptable s ! i))) \<and>
     (\<forall>i j. live s i \<and> live s j \<and> i \<noteq> j \<longrightarrow> p_kstack (ptable s ! i) \<noteq> p_kstack (ptable s ! j)) \<and>
     (\<forall>i. live s i \<and> p_state (ptable s ! i) = RUNNABLE \<longrightarrow> frame_ok (p_pgdir (ptable s ! i)) \<and> fresh_stack s (ptable s ! i))"

definition in_scheduler :: "'z proc_scheme \<Rightarrow> bool" where
  "in_scheduler s \<longleftrightarrow> lock_held PtableLock s \<and> ncli (cpus s 0) = 1 \<and> \<not> IF_on s"

definition suspended :: "u32 \<Rightarrow> 'z proc_scheme \<Rightarrow> bool" where
  "suspended E s \<longleftrightarrow> cpu_scheduler (cpus s 0) = E - 28 \<and> read32 (mem s) (E - 12) = scheduler_ra s"

fun control_ok :: "u32 \<Rightarrow> control \<Rightarrow> 'z proc_scheme \<Rightarrow> bool" where
  "control_ok E AtHead s \<longleftrightarrow> lock_free PtableLock s \<and> ncli (cpus s 0) = 0 \<and> cpu_proc (cpus s 0) = None \<and>
     running s = {} \<and> r_esp s = E"
| "control_ok E (AtScan i) s \<longleftrightarrow> i \<le> NPROC \<and> in_scheduler s \<and> cpu_proc (cpus s 0) = None \<and> running s = {} \<and> r_esp s = E"
| "control_ok E (Entering i) s \<longleftrightarrow> i < NPROC \<and> in_scheduler s \<and> cpu_proc (cpus s 0) = Some i \<and> running s = {i} \<and>
     suspended E s \<and> r_esp s = p_kstack (ptable s ! i) + 4028 \<and> read32 (mem s) (p_kstack (ptable s ! i) + 4028) = trapret_addr s"
| "control_ok E (Resumed i) s \<longleftrightarrow> False"
| "control_ok E (InProc i) s \<longleftrightarrow> i < NPROC \<and> lock_free PtableLock s \<and> ncli (cpus s 0) = 0 \<and> cpu_proc (cpus s 0) = Some i \<and>
     running s = {i} \<and> suspended E s"
| "control_ok E (Returning i) s \<longleftrightarrow> i < NPROC \<and> in_scheduler s \<and> cpu_proc (cpus s 0) = Some i \<and> running s = {} \<and>
     p_state (ptable s ! i) = ZOMBIE \<and> r_esp s = E - 8"

definition sched_inv :: "u32 \<Rightarrow> control \<times> 'z proc_scheme \<Rightarrow> bool" where
  "sched_inv E = (\<lambda>(c, s). ptable_ok E s \<and> control_ok E c s)"

section \<open>The invariant is kept\<close>

lemma page_read32:
  assumes "aligned 4096 k" "n \<le> 4092" "\<And>x. PGROUNDDOWN x = k \<Longrightarrow> m x = m' x"
  shows "read32 m (k + of_nat n) = read32 m' (k + of_nat n)"
proof (rule read32_cong)
  fix i :: nat
  assume "i < 4"
  then have "PGROUNDDOWN (k + of_nat (n + i)) = k" using assms(1,2) by (intro loaded_bytes) auto
  then show "m (k + of_nat n + of_nat i) = m' (k + of_nat n + of_nat i)" using assms(3) by (simp add: add.assoc)
qed

lemma fresh_stack_cong:
  assumes "fresh_stack s p" "aligned 4096 (p_kstack p)" "\<And>x. PGROUNDDOWN x = p_kstack p \<Longrightarrow> mem t x = mem s x"
    "sched_const s t"
  shows "fresh_stack t p"
  using assms(1,4) page_read32 [OF assms(2) _ assms(3), of 4024] page_read32 [OF assms(2) _ assms(3), of 4028]
  by (simp add: fresh_stack_def sched_const_def)

lemma ptable_ok_step:
  assumes ok: "ptable_ok E s" and c: "sched_const s t" and len: "length (ptable t) = length (ptable s)"
    and l: "\<And>lk. lk \<noteq> PtableLock \<Longrightarrow> lock_free lk t"
    and keep: "\<And>j. j < NPROC \<Longrightarrow> p_kstack (ptable t ! j) = p_kstack (ptable s ! j) \<and>
        (p_state (ptable t ! j) = UNUSED \<longleftrightarrow> p_state (ptable s ! j) = UNUSED)"
    and other: "\<And>j. j < NPROC \<Longrightarrow> p_state (ptable t ! j) = RUNNABLE \<Longrightarrow> ptable t ! j = ptable s ! j \<and>
        (\<forall>x. PGROUNDDOWN x = p_kstack (ptable s ! j) \<longrightarrow> mem t x = mem s x)"
  shows "ptable_ok E t"
proof -
  have n: "length (ptable s) = NPROC" using ok by (simp add: ptable_ok_def)
  have live: "live t j = live s j" for j using len keep n by (auto simp: live_def)
  have k: "p_kstack (ptable t ! j) = p_kstack (ptable s ! j)" if "live s j" for j using that keep n by (simp add: live_def)
  have "frame_ok (p_pgdir (ptable t ! j)) \<and> fresh_stack t (ptable t ! j)" if j: "live s j" "p_state (ptable t ! j) = RUNNABLE" for j
  proof -
    have o: "ptable t ! j = ptable s ! j" "\<And>x. PGROUNDDOWN x = p_kstack (ptable s ! j) \<Longrightarrow> mem t x = mem s x"
      using other [of j] j n by (auto simp: live_def)
    have "frame_ok (p_kstack (ptable s ! j))" "frame_ok (p_pgdir (ptable s ! j))" "fresh_stack s (ptable s ! j)"
      using ok j o(1) by (simp_all add: ptable_ok_def)
    then show ?thesis using o c by (auto simp: frame_ok_def intro!: fresh_stack_cong [of s])
  qed
  then show ?thesis using ok c len l k unfolding ptable_ok_def live sched_const_def by auto
qed

lemma sched_const_refl [simp]: "sched_const s s"
  by (simp add: sched_const_def)

lemma ptable_ok_same:
  assumes "ptable_ok E s" "sched_const s t" "ptable t = ptable s" "\<And>lk. lk \<noteq> PtableLock \<Longrightarrow> lock_free lk t"
    "mem t = mem s"
  shows "ptable_ok E t"
  using assms by (intro ptable_ok_step [of E s t]) simp_all

lemma ptable_okD:
  assumes "ptable_ok E s"
  shows "length (ptable s) = NPROC" "V2P (kpgdir s) \<noteq> 0" "lk \<noteq> PtableLock \<Longrightarrow> lock_free lk s"
    "live s i \<Longrightarrow> frame_ok (p_kstack (ptable s ! i))"
    "live s i \<Longrightarrow> in_region (E - 28) 28 x \<Longrightarrow> PGROUNDDOWN x \<noteq> p_kstack (ptable s ! i)"
    "live s i \<Longrightarrow> live s j \<Longrightarrow> i \<noteq> j \<Longrightarrow> p_kstack (ptable s ! i) \<noteq> p_kstack (ptable s ! j)"
    "live s i \<Longrightarrow> p_state (ptable s ! i) = RUNNABLE \<Longrightarrow> frame_ok (p_pgdir (ptable s ! i))"
    "live s i \<Longrightarrow> p_state (ptable s ! i) = RUNNABLE \<Longrightarrow> fresh_stack s (ptable s ! i)"
    "in_region (E - 28) 28 x \<Longrightarrow> \<not> in_region vidmem 131072 x"
  using assms unfolding ptable_ok_def by blast+

lemma sched_invD:
  assumes "sched_inv E (c, s)"
  shows "ptable_ok E s" "control_ok E c s"
  using assms by (simp_all add: sched_inv_def)

lemma sched_invI: "ptable_ok E s \<Longrightarrow> control_ok E c s \<Longrightarrow> sched_inv E (c, s)"
  by (simp add: sched_inv_def)

lemma acquired_cpu [simp]:
  "cpu_proc (cpus (acquired lk s) 0) = cpu_proc (cpus s 0)" "cpu_scheduler (cpus (acquired lk s) 0) = cpu_scheduler (cpus s 0)"
  by (simp_all add: acquired_def pushed_def set_ncli_def)

lemma released_cpu [simp]:
  "cpu_proc (cpus (released lk s) 0) = cpu_proc (cpus s 0)" "cpu_scheduler (cpus (released lk s) 0) = cpu_scheduler (cpus s 0)"
  by (simp_all add: released_def set_ncli_def)

lemma running_same: "ptable t = ptable s \<Longrightarrow> running t = running s"
  by (simp add: running_def)

lemma ptable_ok_slot:
  assumes ok: "ptable_ok E s" and c: "sched_const s t" and l: "\<And>lk. lk \<noteq> PtableLock \<Longrightarrow> lock_free lk t"
    and i: "live s i" "ptable t = (ptable s)[i := q]" "p_kstack q = p_kstack (ptable s ! i)" "p_state q \<noteq> UNUSED" "p_state q \<noteq> RUNNABLE"
    and keep: "\<And>j x. live s j \<Longrightarrow> j \<noteq> i \<Longrightarrow> PGROUNDDOWN x = p_kstack (ptable s ! j) \<Longrightarrow> mem t x = mem s x"
  shows "ptable_ok E t"
proof (rule ptable_ok_step [OF ok c])
  note n = ptable_okD(1) [OF ok]
  show "length (ptable t) = length (ptable s)" by (simp add: i(2))
  show "lock_free lk t" if "lk \<noteq> PtableLock" for lk using that by (rule l)
  show "p_kstack (ptable t ! j) = p_kstack (ptable s ! j) \<and> (p_state (ptable t ! j) = UNUSED \<longleftrightarrow> p_state (ptable s ! j) = UNUSED)" for j
    using i n by (cases "j = i") (simp_all add: live_def)
  show "ptable t ! j = ptable s ! j \<and> (\<forall>x. PGROUNDDOWN x = p_kstack (ptable s ! j) \<longrightarrow> mem t x = mem s x)"
    if "j < NPROC" "p_state (ptable t ! j) = RUNNABLE" for j
    using that i n keep [of j] by (cases "j = i") (simp_all add: live_def)
qed

lemma head_inv:
  assumes "sched_inv E (AtHead, s)"
  shows "\<exists>t. scheduler_head s = Ret () t \<and> sched_inv E (AtScan 0, t) \<and> ptable t = ptable s \<and> mem t = mem s"
proof -
  note I = sched_invD [OF assms]
  define u where "u = s\<lparr>eflags := eflags s OR 512\<rparr>"
  have u: "ptable u = ptable s" "mem u = mem s" "cpus u = cpus s" "r_esp u = r_esp s" "sched_const s u"
    "lock_free lk u = lock_free lk s" for lk by (simp_all add: u_def sched_const_def lock_free_def)
  have c: "cli_ok u" "lock_free PtableLock u" using I(2) u by (simp_all add: cli_ok_def)
  have "ptable_ok E (acquired PtableLock u)"
    using u by (intro ptable_ok_same [OF I(1)]) (simp_all add: sched_const_def ptable_okD(3) [OF I(1)])
  moreover have "control_ok E (AtScan 0) (acquired PtableLock u)"
    using I(2) u by (simp add: in_scheduler_def running_same [of "acquired PtableLock u" s])
  moreover have "scheduler_head s = Ret () (acquired PtableLock u)"
    using acquire_free [OF c] by (simp add: scheduler_head_def sti_def u_def)
  ultimately show ?thesis using u(1,2) by (auto simp: sched_inv_def)
qed

lemma end_inv:
  assumes "sched_inv E (AtScan NPROC, s)"
  shows "\<exists>t. scheduler_end s = Ret () t \<and> sched_inv E (AtHead, t) \<and> ptable t = ptable s"
proof -
  note I = sched_invD [OF assms]
  have "release PtableLock s = Ret () (released PtableLock s)"
    using I(2) by (intro release_held) (simp_all add: in_scheduler_def cli_ok_def)
  moreover have "ptable_ok E (released PtableLock s)"
    by (intro ptable_ok_same [OF I(1)]) (simp_all add: sched_const_def ptable_okD(3) [OF I(1)])
  moreover have "control_ok E AtHead (released PtableLock s)"
    using I(2) by (simp add: in_scheduler_def running_same [of "released PtableLock s" s])
  ultimately show ?thesis by (auto simp: sched_inv_def scheduler_end_def)
qed

lemma call_swtch_returns:
  fixes s :: "'z proc_scheme"
  obtains t where "call_swtch ra old new s = Ret (read32 (mem t) (new + 16)) t" "r_esp t = new + 20"
    "mem t = pushed_regs (called ra s)" "locks t = locks s" "eflags t = eflags s" "sched_const s t"
    "ptable t = ptable (put_context old (r_esp s - 28) s)" "cpus t = cpus (put_context old (r_esp s - 28) s)" "cr3 t = cr3 s"
proof -
  define t where "t = load_context new (put_context old (r_esp s - 28) ((called ra s)\<lparr>mem := pushed_regs (called ra s)\<rparr>))"
  have c: "call_swtch ra old new s = Ret (read32 (mem t) (new + 16)) t"
    by (simp add: call_swtch_apply swtch_apply t_def load_context_def)
  have t: "r_esp t = new + 20" "mem t = pushed_regs (called ra s)" "locks t = locks s" "eflags t = eflags s" "sched_const s t"
    "ptable t = ptable (put_context old (r_esp s - 28) s)" "cpus t = cpus (put_context old (r_esp s - 28) s)" "cr3 t = cr3 s"
    by (cases old; simp add: t_def load_context_def put_context_def sched_const_def called_def)+
  show thesis by (rule that [OF c t])
qed

lemma lock_same: "locks t = locks s \<Longrightarrow> lock_free lk t = lock_free lk s" "locks t = locks s \<Longrightarrow> lock_held lk t = lock_held lk s"
  by (simp_all add: lock_free_def lock_held_def)

lemma frame_ok_nonzero: "frame_ok f \<Longrightarrow> f \<noteq> 0"
  by (auto simp: frame_ok_def)

lemma running_update:
  assumes "i < length (ptable s)" "ptable t = (ptable s)[i := q]"
  shows "running t = (if p_state q = RUNNING then insert i (running s) else running s - {i})"
  using assms by (auto simp: running_def nth_list_update)

text \<open>The state in which the scheduler calls \<open>swtch\<close>.\<close>

definition about_to_run :: "nat \<Rightarrow> 'z proc_scheme \<Rightarrow> 'z proc_scheme" where
  "about_to_run i s = s\<lparr>
     cpus := (cpus s)(0 := tss_cpu (tss_addr s) (p_kstack (ptable s ! i)) ((cpus s 0)\<lparr>cpu_proc := Some i\<rparr>)),
     task_reg := 0x28, cr3 := V2P (p_pgdir (ptable s ! i)),
     ptable := (ptable s)[i := (ptable s ! i)\<lparr>p_state := RUNNING\<rparr>]\<rparr>"

lemma scheduler_run_apply:
  assumes "cli_ok s" "0 < ncli (cpus s 0)" "p_kstack (ptable s ! i) \<noteq> 0" "frame_ok (p_pgdir (ptable s ! i))" "i < length (ptable s)"
  shows "scheduler_run 0 i s = call_swtch (scheduler_ra s) (CpuScheduler 0) (p_context (ptable s ! i)) (about_to_run i s)"
proof -
  let ?s = "s\<lparr>cpus := (cpus s)(0 := (cpus s 0)\<lparr>cpu_proc := Some i\<rparr>)\<rparr>"
  have "cli_ok ?s" using assms(1) by (simp add: cli_ok_def IF_on_def)
  then have "switchuvm (Some i) ?s = Ret () (?s\<lparr>cpus := (cpus ?s)(0 := tss_cpu (tss_addr s) (p_kstack (ptable s ! i)) (cpus ?s 0)),
     task_reg := 0x28, cr3 := V2P (p_pgdir (ptable s ! i))\<rparr>)"
    using assms frame_ok_nonzero [OF assms(4)] frame_phys [OF assms(4)] switchuvm_apply [of ?s i] by simp
  then show ?thesis using assms(5) by (simp add: scheduler_run_def upd_cpu_def upd_proc_def about_to_run_def)
qed

lemma run_inv:
  assumes inv: "sched_inv E (AtScan i, s)" and i: "i < NPROC" "p_state (ptable s ! i) = RUNNABLE"
  shows "\<exists>t. scheduler_run 0 i s = Ret (enter_process_addr t) t \<and> sched_inv E (Entering i, t) \<and>
    ptable t = (ptable s)[i := (ptable s ! i)\<lparr>p_state := RUNNING\<rparr>] \<and> cr3 t = V2P (p_pgdir (ptable s ! i)) \<and>
    (\<forall>x. \<not> in_region (E - 28) 28 x \<longrightarrow> mem t x = mem s x)"
proof -
  note I = sched_invD [OF inv] and P = ptable_okD [OF sched_invD(1) [OF inv]]
  let ?k = "p_kstack (ptable s ! i)"
  have lv: "live s i" using i P(1) by (simp add: live_def)
  note k = P(4) [OF lv] and fresh = P(8) [OF lv i(2), unfolded fresh_stack_def]
  have sch: "in_scheduler s" "cpu_proc (cpus s 0) = None" "running s = {}" "r_esp s = E" using I(2) by simp_all
  have "cli_ok s" "0 < ncli (cpus s 0)" using sch(1) by (simp_all add: in_scheduler_def cli_ok_def)
  then have r: "scheduler_run 0 i s = call_swtch (scheduler_ra s) (CpuScheduler 0) (?k + 4008) (about_to_run i s)"
    using k P(7) [OF lv i(2)] i(1) P(1) fresh by (subst scheduler_run_apply) (simp_all add: frame_ok_nonzero)
  let ?u = "about_to_run i s"
  have u: "r_esp ?u = E" "mem ?u = mem s" "locks ?u = locks s" "eflags ?u = eflags s" "sched_const s ?u"
    "ptable ?u = (ptable s)[i := (ptable s ! i)\<lparr>p_state := RUNNING\<rparr>]" "ncli (cpus ?u 0) = ncli (cpus s 0)" "cpu_proc (cpus ?u 0) = Some i" "cr3 ?u = V2P (p_pgdir (ptable s ! i))"
    using sch(4) by (simp_all add: about_to_run_def sched_const_def tss_cpu_def)
  obtain t where t: "call_swtch (scheduler_ra s) (CpuScheduler 0) (?k + 4008) ?u = Ret (read32 (mem t) (?k + 4008 + 16)) t"
    "r_esp t = ?k + 4008 + 20" "mem t = pushed_regs (called (scheduler_ra s) ?u)" "locks t = locks s" "eflags t = eflags s"
    "sched_const ?u t" "ptable t = ptable ?u" "cpus t = (cpus ?u)(0 := (cpus ?u 0)\<lparr>cpu_scheduler := E - 28\<rparr>)" "cr3 t = cr3 ?u"
    by (rule call_swtch_returns [of "scheduler_ra s" "CpuScheduler 0" "?k + 4008" ?u]) (auto simp: put_context_def u)
  have c: "sched_const s t" using u(5) t(6) by (simp add: sched_const_def)
  have out: "mem t x = mem s x" if "\<not> in_region (E - 28) 28 x" for x
  proof -
    have "\<not> in_region (E - 28) 20 x" using that in_region_mono [of "E - 28" 20 x 28] by auto
    then show ?thesis using call_swtch_stack(2) [of ?u x "scheduler_ra s"] t(3) u(1,2) by simp
  qed
  have keep: "mem t x = mem s x" if "live s j" "PGROUNDDOWN x = p_kstack (ptable s ! j)" for x j
    using P(5) [OF that(1)] that(2) out by blast
  have rd: "read32 (mem t) (?k + 4024) = enter_process_addr t" "read32 (mem t) (?k + 4028) = trapret_addr t"
    using page_read32 [of ?k 4024 "mem t" "mem s"] page_read32 [of ?k 4028 "mem t" "mem s"] keep [OF lv] k fresh c
    by (simp_all add: frame_ok_def sched_const_def)
  have "ptable_ok E t"
    using t(7) u(6) keep lock_same(1) [OF t(4)] P(3) by (intro ptable_ok_slot [OF I(1) c _ lv, of "(ptable s ! i)\<lparr>p_state := RUNNING\<rparr>"]) simp_all
  moreover have "suspended E t"
    using t(8,3) call_swtch_stack(1) [of "scheduler_ra s" ?u] c u(1) by (simp add: suspended_def sched_const_def)
  moreover have "running t = {i}" using running_update [of i s t] i(1) P(1) t(7) u(6) sch(3) by simp
  moreover have "in_scheduler t" using sch(1) t(5,8) lock_same(2) [OF t(4)] u(7) by (simp add: in_scheduler_def IF_on_def)
  ultimately have "sched_inv E (Entering i, t)"
    using i(1) P(1) t(2,7,8) u(6,8) rd by (intro sched_invI) (simp_all add: add.commute [of 4028])
  moreover have "read32 (mem t) (?k + 4008 + 16) = enter_process_addr t" using rd(1) by (simp add: add.commute)
  ultimately show ?thesis using r t(1,7,9) u(6,9) out by auto
qed

lemma suspended_cong:
  assumes "suspended E s" "cpu_scheduler (cpus t 0) = cpu_scheduler (cpus s 0)" "sched_const s t"
    "\<And>x. in_region (E - 28) 20 x \<Longrightarrow> mem t x = mem s x"
  shows "suspended E t"
proof -
  have "read32 (mem t) (E - 12) = read32 (mem s) (E - 12)"
  proof (rule read32_cong)
    fix k :: nat
    assume k: "k < 4"
    then have "in_region (E - 28) 20 (E - 28 + of_nat (16 + k))" by (intro in_region_offset) simp_all
    then show "mem t (E - 12 + of_nat k) = mem s (E - 12 + of_nat k)" using assms(4) by (simp add: algebra_simps)
  qed
  then show ?thesis using assms(1-3) by (simp add: suspended_def sched_const_def)
qed

lemma enter_inv:
  assumes inv: "sched_inv E (Entering i, s)"
  shows "\<exists>t u f v. enter_process s = Ret () t \<and> pop32 t = Ret (trapret_addr t) u \<and> trapret u = Ret f v \<and>
    f = read_frame (mem s) (p_kstack (ptable s ! i) + 4032) \<and> sched_inv E (InProc i, v) \<and> ptable v = ptable s"
proof -
  note I = sched_invD [OF inv]
  let ?t = "released PtableLock s" and ?f = "read_frame (mem s) (p_kstack (ptable s ! i) + 4032)"
  define v where "v = ?t\<lparr>r_edi := is_edi ?f, r_esi := is_esi ?f, r_ebp := is_ebp ?f, r_ebx := is_ebx ?f,
       r_esp := is_esp ?f, eflags := is_eflags ?f\<rparr>"
  have "release PtableLock s = Ret () ?t"
    using I(2) by (intro release_held) (simp_all add: in_scheduler_def cli_ok_def)
  then have e: "enter_process s = Ret () ?t" by (simp add: enter_process_def)
  have C: "in_scheduler s" "r_esp s = p_kstack (ptable s ! i) + 4028" "read32 (mem s) (p_kstack (ptable s ! i) + 4028) = trapret_addr s"
    "suspended E s" using I(2) by simp_all
  have p: "pop32 ?t = Ret (trapret_addr ?t) (?t\<lparr>r_esp := p_kstack (ptable s ! i) + 4032\<rparr>)"
    using C(3) by (simp add: pop32_def C(2))
  have tr: "trapret (?t\<lparr>r_esp := p_kstack (ptable s ! i) + 4032\<rparr>) = Ret ?f v" by (simp add: trapret_def v_def)
  have v: "mem v = mem s" "ptable v = ptable s" "cpus v = cpus ?t" "locks v = locks ?t" "sched_const s v"
    by (simp_all add: v_def sched_const_def)
  have "ptable_ok E v" using lock_same [OF v(4)] v by (intro ptable_ok_same [OF I(1)]) (simp_all add: ptable_okD(3) [OF I(1)])
  moreover have "suspended E v" using v by (intro suspended_cong [OF C(4)]) simp_all
  then have "control_ok E (InProc i) v"
    using I(2) v lock_same(1) [OF v(4)] by (simp add: in_scheduler_def running_same [of v s])
  ultimately have "sched_inv E (InProc i, v)" by (rule sched_invI)
  with e p tr v(2) show ?thesis by (intro exI conjI) (assumption, assumption, assumption, rule refl)
qed

lemma intena_cpu_eqD:
  assumes "p\<lparr>intena := 0\<rparr> = q\<lparr>intena := 0\<rparr>"
  shows "cpu_proc p = cpu_proc q" "cpu_scheduler p = cpu_scheduler q" "ncli p = ncli q"
  using arg_cong [OF assms, of cpu_proc] arg_cong [OF assms, of cpu_scheduler] arg_cong [OF assms, of ncli] by simp_all

lemma user_inv:
  assumes inv: "sched_inv E (InProc i, s)" and u: "user_step i s t"
  shows "sched_inv E (InProc i, t)"
proof -
  note I = sched_invD [OF inv] and P = ptable_okD [OF sched_invD(1) [OF inv]]
  obtain tf where tf: "ptable t = (ptable s)[i := (ptable s ! i)\<lparr>p_tf := tf\<rparr>]" using u by (auto simp: user_step_def)
  have U: "sched_const s t" "\<And>lk. lock_free lk s \<Longrightarrow> lock_free lk t" "(cpus t 0)\<lparr>intena := 0\<rparr> = (cpus s 0)\<lparr>intena := 0\<rparr>"
    using u by (simp_all add: user_step_def)
  have C: "i < NPROC" "lock_free PtableLock s" "ncli (cpus s 0) = 0" "cpu_proc (cpus s 0) = Some i" "running s = {i}" "suspended E s"
    using I(2) by simp_all
  have st: "p_state (ptable s ! i) = RUNNING" using C(5) by (auto simp: running_def)
  have lv: "live s i" using st C(1) P(1) by (simp add: live_def)
  have "ptable_ok E t" using st u U(2) P(3) tf
    by (intro ptable_ok_slot [OF I(1) U(1) _ lv, of "(ptable s ! i)\<lparr>p_tf := tf\<rparr>"]) (auto simp: user_step_def)
  moreover have "suspended E t" using u C(6) intena_cpu_eqD [OF U(3)] U(1)
    by (intro suspended_cong [OF C(6)]) (auto simp: user_step_def suspended_def)
  moreover have "running t = {i}" using running_update [of i s t, OF _ tf] C(1,5) P(1) st by simp
  ultimately show ?thesis using C intena_cpu_eqD [OF U(3)] U(2) by (intro sched_invI) simp_all
qed

lemma back_inv:
  assumes inv: "sched_inv E (Returning i, s)"
  shows "\<exists>t. scheduler_back 0 s = Ret () t \<and> sched_inv E (AtScan (Suc i), t) \<and> ptable t = ptable s"
proof -
  note I = sched_invD [OF inv] and P = ptable_okD [OF sched_invD(1) [OF inv]]
  define t where "t = s\<lparr>r_esp := r_esp s + 8, cr3 := V2P (kpgdir s), cpus := (cpus s)(0 := (cpus s 0)\<lparr>cpu_proc := None\<rparr>)\<rparr>"
  have t: "mem t = mem s" "ptable t = ptable s" "locks t = locks s" "eflags t = eflags s" "sched_const s t" "r_esp t = r_esp s + 8"
    "cpus t 0 = (cpus s 0)\<lparr>cpu_proc := None\<rparr>" by (simp_all add: t_def sched_const_def)
  have "scheduler_back 0 s = Ret () t"
    using P(2) by (simp add: scheduler_back_def switchkvm_def paging_switch_apply upd_cpu_def t_def)
  moreover have "ptable_ok E t" using lock_same [OF t(3)] t P(3) by (intro ptable_ok_same [OF I(1)]) simp_all
  moreover have "control_ok E (AtScan (Suc i)) t"
    using I(2) t lock_same [OF t(3)] by (simp add: in_scheduler_def IF_on_def running_same [of t s])
  ultimately show ?thesis using sched_invI t(2) by blast
qed

lemma myproc_apply: "cli_ok s \<Longrightarrow> myproc s = Ret (cpu_proc (cpus s 0)) (resave s)"
  using popcli_pushed [of s]
  by (simp add: myproc_def pushcli_apply mycpu_def readeflags_def) (simp add: pushed_def set_ncli_def)

lemma enter_scheduler_apply:
  assumes "in_scheduler s" "cpu_proc (cpus s 0) = Some p" "p_state (ptable s ! p) \<noteq> RUNNING"
    and "call_swtch (enter_scheduler_ra s) (ProcContext p) (cpu_scheduler (cpus s 0)) s = Ret eip t"
  shows "enter_scheduler s = Ret (intena (cpus s 0), eip) t"
proof -
  have c: "cli_ok s" "eflags s AND 512 = 0" "ncli (cpus s 0) = 1" using assms(1) by (simp_all add: in_scheduler_def cli_ok_def IF_on_def)
  then have "resave s = s" by (simp add: resave_id)
  then have h: "holding PtableLock s = Ret True s" "myproc s = Ret (Some p) s"
    using assms(1,2) c(1) by (simp_all add: holding_apply myproc_apply in_scheduler_def lock_held_def)
  show ?thesis using assms(3,4) c h by (simp add: enter_scheduler_def mycpu_def readeflags_def)
qed

lemma vidmem_not_frame:
  assumes "frame_ok f" "in_region vidmem 131072 x"
  shows "PGROUNDDOWN x \<noteq> f"
proof -
  have "vidmem = 0x800b8000" by (simp add: vidmem_def P2V_def)
  then obtain i where "i < 131072" "x = 0x800b8000 + of_nat i" using assms(2) by (auto simp: in_region_iff)
  then have "unat x < 2148532224" by (simp add: unat_add32 unat_of_nat32)
  then have "unat (PGROUNDDOWN x) < 2148532224" by (simp add: unat_PGROUNDDOWN)
  then show ?thesis using assms(1) by (auto simp: frame_ok_def word_le_nat_alt)
qed

lemma kstack_window:
  assumes "on_kstack i s" "aligned 4096 (p_kstack (ptable s ! i))" "in_region (r_esp s - 28) 20 x"
  shows "PGROUNDDOWN x = p_kstack (ptable s ! i)"
proof -
  let ?k = "p_kstack (ptable s ! i)"
  have b: "unat ?k + 28 \<le> unat (r_esp s)" "unat (r_esp s) - 8 \<le> unat ?k + 4096" using assms(1) by (simp_all add: on_kstack_def)
  then obtain n where n: "unat (r_esp s) = unat ?k + 28 + n" by (auto simp: le_iff_add)
  from arg_cong [OF this, of "of_nat :: nat \<Rightarrow> u32"] have "r_esp s - 28 = ?k + of_nat n" by simp
  then have "in_region (?k + of_nat n) 20 x" using assms(3) by simp
  then have "in_region ?k 4096 x" using b(2) n by (elim in_subregion) simp_all
  then show ?thesis using in_page_iff [OF assms(2)] by blast
qed

lemma resave_simps:
  "lock_free lk (resave s) = lock_free lk s" "ncli (cpus (resave s) 0) = ncli (cpus s 0)" "mem (resave s) = mem s"
  "cpu_proc (cpus (resave s) 0) = cpu_proc (cpus s 0)" "cpu_scheduler (cpus (resave s) 0) = cpu_scheduler (cpus s 0)"
  by (simp_all add: resave_def lock_free_def)

lemma sched_const_trans: "sched_const s t \<Longrightarrow> sched_const t u \<Longrightarrow> sched_const s u"
  by (simp add: sched_const_def)

lemma exit_warns:
  fixes s :: "'z proc_scheme"
  assumes "\<And>lk. lock_free lk s" "ncli (cpus s 0) = 0"
  obtains w where "whenK b (warn ''init exiting'' []) s = Ret () w" "cprintf_frame s w"
proof (cases b)
  case True
  have "format_text (''WARN: '' @ ''init exiting'' @ ''\<newline>'') [] = Some ''WARN: init exiting\<newline>''" by simp
  then obtain w where "cprintf (Some (''WARN: '' @ ''init exiting'' @ ''\<newline>'')) [] s = Ret () w" "cprintf_frame s w"
    by (rule cprintf_seq [OF cons_ready_unlocked [OF assms]])
  then have "whenK b (warn ''init exiting'' []) s = Ret () w" "cprintf_frame s w" using True by (simp_all only: warn_def whenK_def if_True)
  then show ?thesis by (rule that)
next
  case False
  show ?thesis by (rule that [of s]) (simp_all add: False)
qed

lemma exit_reaches:
  fixes s :: "'z proc_scheme"
  assumes free: "\<And>lk. lock_free lk s" and n: "ncli (cpus s 0) = 0" and p: "cpu_proc (cpus s 0) = Some i" "i < length (ptable s)"
  obtains u where "exit_process status s = enter_scheduler u" "in_scheduler u" "cpu_proc (cpus u 0) = Some i"
    "cpu_scheduler (cpus u 0) = cpu_scheduler (cpus s 0)" "r_esp u = r_esp s" "sched_const s u"
    "\<forall>lk. lk \<noteq> PtableLock \<longrightarrow> lock_free lk u" "ptable u = (ptable s)[i := (ptable s ! i)\<lparr>p_xstate := status, p_state := ZOMBIE\<rparr>]"
    "\<forall>x. \<not> in_region vidmem 131072 x \<longrightarrow> mem u x = mem s x"
proof -
  let ?r = "resave s"
  have c: "cli_ok s" using n by (simp add: cli_ok_def)
  obtain w where w: "whenK (Some i = initproc s) (warn ''init exiting'' []) ?r = Ret () w" "cprintf_frame ?r w"
    using exit_warns [of ?r] free n by (auto simp: resave_simps)
  have sy: "same_sync ?r w" using w(2) by (simp add: cprintf_frame_def)
  then have wl: "\<And>lk. lock_free lk w" "(cpus w 0)\<lparr>intena := 0\<rparr> = (cpus ?r 0)\<lparr>intena := 0\<rparr>" using free by (simp_all add: same_sync_def resave_simps)
  note wc = intena_cpu_eqD [OF wl(2), unfolded resave_simps]
  have cw: "cli_ok w" using wc(3) n by (simp add: cli_ok_def)
  note a = acquire_free [OF cw wl(1), of PtableLock] and wf = cprintf_frame_proc [OF w(2)]
  define u where "u = (acquired PtableLock w)\<lparr>ptable := (ptable s)[i := (ptable s ! i)\<lparr>p_xstate := status, p_state := ZOMBIE\<rparr>]\<rparr>"
  have u: "cpus u = cpus (acquired PtableLock w)" "locks u = locks (acquired PtableLock w)" "eflags u = eflags (acquired PtableLock w)"
    "r_esp u = r_esp s" "sched_const s u" "mem u = mem w"
    "ptable u = (ptable s)[i := (ptable s ! i)\<lparr>p_xstate := status, p_state := ZOMBIE\<rparr>]"
    using wf by (simp_all add: u_def sched_const_def)
  have z: "upd_proc i (\<lambda>q. q\<lparr>p_state := ZOMBIE\<rparr>) ((acquired PtableLock w)\<lparr>ptable := (ptable s)[i := (ptable s ! i)\<lparr>p_xstate := status\<rparr>]\<rparr>) = Ret () u"
    "upd_proc i (\<lambda>q. q\<lparr>p_xstate := status\<rparr>) (acquired PtableLock w) = Ret () ((acquired PtableLock w)\<lparr>ptable := (ptable s)[i := (ptable s ! i)\<lparr>p_xstate := status\<rparr>]\<rparr>)"
    using p(2) wf(1) by (simp_all add: upd_proc_def u_def)
  have "exit_process status s = enter_scheduler u"
    unfolding exit_process_def using w(1) p(1)
    by (simp only: bindK_Ret thenK_Ret myproc_apply [OF c] getK_apply resave_proc a z option.case)
  moreover have "in_scheduler u" using u(1-3) wc(3) n lock_same(2) [OF u(2)] acquired_simps(9) [of PtableLock w]
    by (simp add: in_scheduler_def IF_on_def)
  moreover have "\<forall>lk. lk \<noteq> PtableLock \<longrightarrow> lock_free lk u" using lock_same(1) [OF u(2)] wl(1) by simp
  moreover have "\<forall>x. \<not> in_region vidmem 131072 x \<longrightarrow> mem u x = mem s x" using cprintf_frame_mem [OF w(2)] u(6) by (simp add: resave_simps)
  ultimately show thesis using that [of u] u wc p(1) by simp
qed

lemma exit_inv:
  assumes inv: "sched_inv E (InProc i, s)" and stack: "on_kstack i s"
  shows "\<exists>ie t. exit_process status s = Ret (ie, scheduler_ra t) t \<and> sched_inv E (Returning i, t) \<and>
    ptable t = (ptable s)[i := (ptable s ! i)\<lparr>p_xstate := status, p_state := ZOMBIE, p_context := r_esp s - 28\<rparr>]"
proof -
  note I = sched_invD [OF inv] and P = ptable_okD [OF sched_invD(1) [OF inv]]
  have C: "i < NPROC" "lock_free PtableLock s" "ncli (cpus s 0) = 0" "cpu_proc (cpus s 0) = Some i" "running s = {i}" "suspended E s"
    using I(2) by simp_all
  have free: "lock_free lk s" for lk using C(2) P(3) by (cases "lk = PtableLock") simp_all
  have "i \<in> running s" by (simp add: C(5))
  then have lv: "live s i" by (simp add: live_def running_def)
  let ?z = "(ptable s ! i)\<lparr>p_xstate := status, p_state := ZOMBIE\<rparr>"
  have "i < length (ptable s)" using C(1) P(1) by simp
  then obtain u where u: "exit_process status s = enter_scheduler u" "in_scheduler u" "cpu_proc (cpus u 0) = Some i"
    "cpu_scheduler (cpus u 0) = cpu_scheduler (cpus s 0)" "r_esp u = r_esp s" "sched_const s u"
    "\<forall>lk. lk \<noteq> PtableLock \<longrightarrow> lock_free lk u" "ptable u = (ptable s)[i := ?z]" "\<forall>x. \<not> in_region vidmem 131072 x \<longrightarrow> mem u x = mem s x"
    by (rule exit_reaches [OF free C(3,4)])
  have sch: "cpu_scheduler (cpus u 0) = E - 28" using u(4) C(6) by (simp add: suspended_def)
  obtain t where t: "call_swtch (enter_scheduler_ra u) (ProcContext i) (E - 28) u = Ret (read32 (mem t) (E - 28 + 16)) t"
    "r_esp t = E - 28 + 20" "mem t = pushed_regs (called (enter_scheduler_ra u) u)" "locks t = locks u" "eflags t = eflags u"
    "sched_const u t" "ptable t = ptable (put_context (ProcContext i) (r_esp u - 28) u)"
    "cpus t = cpus (put_context (ProcContext i) (r_esp u - 28) u)" by (rule call_swtch_returns)
  have c: "sched_const s t" using u(6) t(6) by (rule sched_const_trans)
  have pt: "ptable t = (ptable s)[i := ?z\<lparr>p_context := r_esp s - 28\<rparr>]" "cpus t = cpus u"
    using t(7,8) u(5,8) C(1) P(1) by (simp_all add: put_context_def)
  have mem: "mem t x = mem s x" if "PGROUNDDOWN x \<noteq> p_kstack (ptable s ! i)" "\<not> in_region vidmem 131072 x" for x
    using that u(9) t(3) call_swtch_stack(2) [of u x "enter_scheduler_ra u"] kstack_window [OF stack, of x] P(4) [OF lv] u(5)
    by (auto simp: frame_ok_def)
  have win: "mem t x = mem s x" if "in_region (E - 28) 20 x" for x
    using that mem P(5) [OF lv] P(9) in_region_mono [of "E - 28" 20 x 28] by auto
  have st: "suspended E t" using pt(2) u(4) by (intro suspended_cong [OF C(6) _ c win]) simp_all
  have "enter_scheduler u = Ret (intena (cpus u 0), read32 (mem t) (E - 28 + 16)) t"
    using u(2,3,8) C(1) P(1) sch t(1) by (intro enter_scheduler_apply) simp_all
  moreover have "mem t x = mem s x" if "live s j" "j \<noteq> i" "PGROUNDDOWN x = p_kstack (ptable s ! j)" for j x
    using mem [of x] vidmem_not_frame [OF P(4) [OF that(1)], of x] P(6) [OF that(1) lv that(2)] that(3) by auto
  then have "ptable_ok E t" using lock_same(1) [OF t(4)] u(7) pt(1)
    by (intro ptable_ok_slot [OF I(1) c _ lv, of "?z\<lparr>p_context := r_esp s - 28\<rparr>"]) auto
  moreover have "running t = {}" using running_update [of i s t, OF _ pt(1)] C(1,5) P(1) by simp
  moreover have "in_scheduler t" using u(2) t(5) lock_same(2) [OF t(4)] pt(2) by (simp add: in_scheduler_def IF_on_def)
  ultimately show ?thesis using u(1,3) pt t(2) C(1) P(1) st by (auto simp: suspended_def sched_inv_def)
qed

lemma sched_step_inv:
  assumes "sched_step x y" "sched_inv E x"
  shows "sched_inv E y"
  using assms(1)
proof cases
  case (st_head s t)
  then show ?thesis using head_inv [of E s] assms(2) by auto
next
  case (st_skip i s)
  then show ?thesis using assms(2) by (simp add: sched_inv_def)
next
  case (st_run i s eip t)
  then show ?thesis using run_inv [of E i s] assms(2) by auto
next
  case (st_rerun i s eip t)
  then show ?thesis using run_inv [of E i s] assms(2) by auto
next
  case (st_end s t)
  then show ?thesis using end_inv [of E s] assms(2) by auto
next
  case (st_enter s t u f v i)
  then show ?thesis using enter_inv [of E i s] assms(2) by auto
next
  case (st_user i s t)
  then show ?thesis using user_inv [of E i s t] assms(2) by simp
next
  case (st_exit i s status ie eip t)
  then show ?thesis using exit_inv [of E i s status] assms(2) by auto
next
  case (st_back s t i)
  then show ?thesis using back_inv [of E i s] assms(2) by auto
qed

lemma sched_steps_inv: "sched_step\<^sup>*\<^sup>* x y \<Longrightarrow> sched_inv E x \<Longrightarrow> sched_inv E y"
  by (induction rule: rtranclp_induct) (auto intro: sched_step_inv)

text \<open>What a step does to the state of a process.\<close>

lemma sched_step_ptable:
  assumes "sched_step (c, s) (d, t)" "sched_inv E (c, s)" "j < NPROC"
  shows "p_state (ptable t ! j) = p_state (ptable s ! j) \<or> c = AtScan j \<and> p_state (ptable s ! j) = RUNNABLE \<and> p_state (ptable t ! j) = RUNNING \<or>
    c = InProc j \<and> p_state (ptable s ! j) = RUNNING \<and> p_state (ptable t ! j) = ZOMBIE"
proof -
  note I = sched_invD [OF assms(2)]
  have len: "length (ptable s) = NPROC" by (rule ptable_okD(1) [OF I(1)])
  have upd: "p_state ((ptable s)[i := q] ! j) = (if j = i then p_state q else p_state (ptable s ! j))" for i q
    using assms(3) len by (auto simp: nth_list_update)
  have run: "p_state (ptable s ! i) = RUNNING" if "c = InProc i" for i
    using I(2) that by (auto simp: running_def)
  from assms(1) show ?thesis
  proof cases
    case st_head
    then show ?thesis using head_inv [of E s] assms(2) by auto
  next
    case (st_run i eip)
    then show ?thesis using run_inv [of E i s] assms(2) upd by auto
  next
    case (st_rerun i eip)
    then show ?thesis using run_inv [of E i s] assms(2) upd by auto
  next
    case st_end
    then show ?thesis using end_inv [of E s] assms(2) by auto
  next
    case (st_enter t u f i)
    then show ?thesis using enter_inv [of E i s] assms(2) by auto
  next
    case (st_user i)
    then obtain tf where "ptable t = (ptable s)[i := (ptable s ! i)\<lparr>p_tf := tf\<rparr>]" by (auto simp: user_step_def)
    then show ?thesis by (simp add: upd)
  next
    case (st_exit i status ie eip)
    then show ?thesis using exit_inv [of E i s status] assms(2) upd run by auto
  next
    case (st_back i)
    then show ?thesis using back_inv [of E i s] assms(2) by auto
  qed simp
qed

lemma zombie_steps:
  assumes "sched_step\<^sup>*\<^sup>* x y" "sched_inv E x" "p_state (ptable (snd x) ! j) = ZOMBIE" "j < NPROC"
  shows "p_state (ptable (snd y) ! j) = ZOMBIE"
  using assms(1)
proof (induction rule: rtranclp_induct)
  case (step y z)
  then have "sched_inv E y" using sched_steps_inv assms(2) by blast
  then show ?case using step sched_step_ptable [of "fst y" "snd y" "fst z" "snd z" E j] assms(4) by auto
qed (rule assms(3))

lemma sched_progress:
  assumes "sched_inv E (c, s)"
  shows "\<exists>y. sched_step (c, s) y"
proof (cases c)
  case AtHead
  then show ?thesis using head_inv [of E s] assms by (blast intro: st_head)
next
  case (AtScan i)
  then have i: "i \<le> NPROC" using assms by (simp add: sched_inv_def)
  show ?thesis
  proof (cases "i = NPROC")
    case True
    then show ?thesis using AtScan end_inv [of E s] assms by (blast intro: st_end)
  next
    case False
    then have "i < NPROC" using i by simp
    then show ?thesis using AtScan run_inv [of E i s] assms by (cases "p_state (ptable s ! i) = RUNNABLE") (blast intro: st_run st_skip)+
  qed
next
  case (Entering i)
  then show ?thesis using enter_inv [of E i s] assms by (blast intro: st_enter)
next
  case (InProc i)
  have "user_step i s s" by (auto simp: user_step_def intro!: exI [of _ "p_tf (ptable s ! i)"])
  then show ?thesis using InProc by (blast intro: st_user)
next
  case (Returning i)
  then show ?thesis using back_inv [of E i s] assms by (blast intro: st_back)
qed (use assms in \<open>simp add: sched_inv_def\<close>)

section \<open>A concrete process table\<close>

definition zero_process :: process where
  "zero_process = \<lparr>p_name = replicate 16 0, p_pid = 0, p_context = 0, p_state = UNUSED, p_xstate = 0, p_pgdir = 0,
     p_kstack = 0, p_sz = 0, p_tf = 0\<rparr>"

definition boot_proc :: proc where
  "boot_proc = kvm.extend (boot_kvm\<lparr>mem := \<lambda>_. 0, kpgdir := 0x8010f000\<rparr>) \<lparr>ptable = replicate NPROC zero_process, initproc = None, nextpid = 1,
     r_edi = 1, r_esi = 2, r_ebx = 3, r_ebp = 0x80104100, r_esp = 0x80104080, trapret_addr = 0x80100200, enter_process_addr = 0x80100300,
     scheduler_ra = 0x80100400, enter_scheduler_ra = 0x80100500, init_start = 0x8010d000, init_size = 32\<rparr>"

lemmas boot_proc_defs = boot_proc_def kvm.defs boot_kvm_defs

text \<open>One process is ready to run for the first time, with its stack in the frame \<open>0x80200000\<close>.\<close>

definition one_runnable :: proc where
  "one_runnable = boot_proc\<lparr>
     mem := write32 (write32 (mem boot_proc) 0x80200fb8 (enter_process_addr boot_proc)) 0x80200fbc (trapret_addr boot_proc),
     ptable := (ptable boot_proc)[0 := zero_process\<lparr>p_state := RUNNABLE, p_kstack := 0x80200000, p_pgdir := 0x80201000,
       p_context := 0x80200fa8, p_tf := 0x80200fc0, p_sz := 4096\<rparr>]\<rparr>"

lemma boot_proc_unlocked: "lock_free lk boot_proc" "ncli (cpus boot_proc 0) = 0"
  by (simp_all add: boot_proc_defs lock_free_def zero_lock_def zero_cpu_def)

lemma one_runnable_inv: "sched_inv 0x80104080 (AtHead, one_runnable)"
proof -
  have lv: "live one_runnable i \<longleftrightarrow> i = 0" for i
    by (auto simp: live_def one_runnable_def boot_proc_defs zero_process_def nth_list_update)
  have p: "ptable one_runnable ! 0 = zero_process\<lparr>p_state := RUNNABLE, p_kstack := 0x80200000, p_pgdir := 0x80201000,
       p_context := 0x80200fa8, p_tf := 0x80200fc0, p_sz := 4096\<rparr>" "length (ptable one_runnable) = NPROC"
    by (simp_all add: one_runnable_def boot_proc_defs)
  have k: "frame_ok (0x80104000 :: addr)" "frame_ok (0x80200000 :: addr)" "frame_ok (0x80201000 :: addr)"
    by (simp_all add: frame_ok_def aligned_def)
  have win: "PGROUNDDOWN x = 0x80104000" if "in_region (0x80104064 :: addr) 28 x" for x
    using that in_subregion [of "0x80104000" 100 28 x 4096] in_page_iff [of "0x80104000" x] k(1) by (simp add: frame_ok_def)
  have "\<not> in_region vidmem 131072 x" if "in_region (0x80104064 :: addr) 28 x" for x
    using win [OF that] vidmem_not_frame [OF k(1), of x] by blast
  moreover have "fresh_stack one_runnable (ptable one_runnable ! 0)"
    by (simp add: p fresh_stack_def zero_process_def) (simp add: one_runnable_def read32_write32_other disjoint_regions_def)
  moreover have "lock_free lk one_runnable" for lk
    using boot_proc_unlocked(1) [of lk] by (simp add: one_runnable_def lock_free_def)
  moreover have "V2P (kpgdir one_runnable) \<noteq> 0" by (simp add: one_runnable_def boot_proc_defs V2P_def)
  ultimately have "ptable_ok 0x80104080 one_runnable" using win p k by (auto simp: ptable_ok_def lv zero_process_def)
  moreover have "running one_runnable = {}"
    using p by (auto simp: running_def one_runnable_def boot_proc_defs zero_process_def nth_list_update)
  moreover have "r_esp one_runnable = 0x80104080" "cpu_proc (cpus one_runnable 0) = None" "ncli (cpus one_runnable 0) = 0"
    "lock_free PtableLock one_runnable"
    using boot_proc_unlocked by (simp_all add: one_runnable_def boot_proc_defs zero_cpu_def lock_free_def zero_lock_def)
  ultimately show ?thesis by (intro sched_invI) simp_all
qed

lemma one_runnable_runs:
  obtains s where "sched_step\<^sup>*\<^sup>* (AtHead, one_runnable) (InProc 0, s)" "on_kstack 0 s" "sched_inv 0x80104080 (InProc 0, s)"
    "p_kstack (ptable s ! 0) = 0x80200000" "p_sz (ptable s ! 0) = 4096" "\<forall>j. live s j \<longrightarrow> j = 0" "r_esp s = 0x80200f00"
proof -
  obtain a where a: "scheduler_head one_runnable = Ret () a" "sched_inv 0x80104080 (AtScan 0, a)" "ptable a = ptable one_runnable"
    using head_inv [OF one_runnable_inv] by blast
  have "p_state (ptable a ! 0) = RUNNABLE" by (simp add: a(3) one_runnable_def boot_proc_defs)
  then obtain b where b: "scheduler_run 0 0 a = Ret (enter_process_addr b) b" "sched_inv 0x80104080 (Entering 0, b)"
      "ptable b = (ptable a)[0 := (ptable a ! 0)\<lparr>p_state := RUNNING\<rparr>]" and r: "p_state (ptable a ! 0) = RUNNABLE"
    using run_inv [OF a(2)] by auto
  obtain c d f v where v: "enter_process b = Ret () c" "pop32 c = Ret (trapret_addr c) d" "trapret d = Ret f v"
      "sched_inv 0x80104080 (InProc 0, v)" "ptable v = ptable b"
    using enter_inv [OF b(2)] by blast
  let ?v = "v\<lparr>r_esp := 0x80200f00\<rparr>"
  have u: "user_step 0 v ?v"
    by (auto simp: user_step_def sched_const_def lock_free_def intro!: exI [of _ "p_tf (ptable v ! 0)"])
  have "sched_step\<^sup>*\<^sup>* (AtHead, one_runnable) (InProc 0, ?v)"
    using st_head [OF a(1)] st_run [OF _ r b(1) refl] st_enter [OF v(1,2,3), of 0] st_user [OF u]
    by (meson converse_rtranclp_into_rtranclp rtranclp.rtrancl_refl zero_less_numeral)
  moreover have "on_kstack 0 ?v" by (simp add: on_kstack_def v(5) b(3) a(3) one_runnable_def boot_proc_defs)
  moreover have pt: "ptable ?v = (ptable one_runnable)[0 := (ptable one_runnable ! 0)\<lparr>p_state := RUNNING\<rparr>]" by (simp add: v(5) b(3) a(3))
  have "p_kstack (ptable ?v ! 0) = 0x80200000" "p_sz (ptable ?v ! 0) = 4096"
    unfolding pt by (simp_all add: one_runnable_def boot_proc_defs)
  moreover have "\<forall>j. live ?v j \<longrightarrow> j = 0"
    unfolding live_def pt by (auto simp: one_runnable_def boot_proc_defs zero_process_def nth_list_update split: if_splits)
  ultimately show thesis using that [of ?v] user_inv [OF v(4) u] by simp
qed

section \<open>Properties\<close>



text \<open>C1: mutual exclusion in the scheduler. Whatever the processes do, at most one is running, and it is the processor's
  current process; while the scheduler or a process it just switched to has control, the table's lock is
  held and interrupts are off, and while a process runs the lock is free. The scheduler never
  resumes a process that gave up the processor.\<close>

theorem scheduler_exclusion:
  assumes "sched_inv E (AtHead, s)" and "sched_step\<^sup>*\<^sup>* (AtHead, s) (c, t)"
  shows "(case c of Entering i \<Rightarrow> running t = {i} \<and> cpu_proc (cpus t 0) = Some i \<and> lock_held PtableLock t \<and> \<not> IF_on t
     | InProc i \<Rightarrow> running t = {i} \<and> cpu_proc (cpus t 0) = Some i \<and> lock_free PtableLock t
     | AtHead \<Rightarrow> running t = {} \<and> cpu_proc (cpus t 0) = None \<and> lock_free PtableLock t
     | AtScan i \<Rightarrow> running t = {} \<and> cpu_proc (cpus t 0) = None \<and> lock_held PtableLock t \<and> \<not> IF_on t
     | Returning i \<Rightarrow> running t = {} \<and> lock_held PtableLock t \<and> \<not> IF_on t
     | Resumed i \<Rightarrow> False)"
  using sched_steps_inv [OF assms(2,1)] by (cases c) (simp_all add: sched_inv_def in_scheduler_def)

theorem scheduler_exclusion_witness:
  "\<exists>t. sched_step\<^sup>*\<^sup>* (AtHead, one_runnable) (InProc 0, t) \<and> running t = {0} \<and> cpu_proc (cpus t 0) = Some 0 \<and> lock_free PtableLock t"
proof (rule one_runnable_runs)
  fix t
  assume t: "sched_step\<^sup>*\<^sup>* (AtHead, one_runnable) (InProc 0, t)"
  show ?thesis using t scheduler_exclusion [OF one_runnable_inv t] by auto
qed

text \<open>C3: the scheduler is never stuck. Every configuration it reaches has a successor: none of its checks, nor
  those of \<open>switchuvm\<close>, \<open>acquire\<close> and \<open>release\<close>, ever panics. A process that calls \<open>exit\<close> on its own kernel stack always
  gets back to the scheduler, passing the four checks of \<open>enter_scheduler\<close>.\<close>

theorem scheduler_never_stuck:
  assumes "sched_inv E (AtHead, s)" and "sched_step\<^sup>*\<^sup>* (AtHead, s) (c, t)"
  shows "(\<exists>y. sched_step (c, t) y) \<and>
    (\<forall>i status. c = InProc i \<and> on_kstack i t \<longrightarrow> (\<exists>ie u. exit_process status t = Ret (ie, scheduler_ra u) u \<and>
       sched_step (c, t) (Returning i, u) \<and> p_state (ptable u ! i) = ZOMBIE))"
proof -
  have inv: "sched_inv E (c, t)" by (rule sched_steps_inv [OF assms(2,1)])
  have "\<exists>ie u. exit_process status t = Ret (ie, scheduler_ra u) u \<and> sched_step (c, t) (Returning i, u) \<and> p_state (ptable u ! i) = ZOMBIE"
    if c: "c = InProc i" "on_kstack i t" for i status
  proof -
    obtain ie u where u: "exit_process status t = Ret (ie, scheduler_ra u) u" "sched_inv E (Returning i, u)"
      using exit_inv [of E i t status] inv c by blast
    then show ?thesis using c st_exit [OF c(2) u(1) refl] by (auto simp: sched_inv_def)
  qed
  then show ?thesis using sched_progress [OF inv] by blast
qed

theorem scheduler_never_stuck_witness:
  "\<exists>t ie u. sched_step\<^sup>*\<^sup>* (AtHead, one_runnable) (InProc 0, t) \<and> exit_process 7 t = Ret (ie, scheduler_ra u) u \<and> p_state (ptable u ! 0) = ZOMBIE"
proof (rule one_runnable_runs)
  fix t
  assume t: "sched_step\<^sup>*\<^sup>* (AtHead, one_runnable) (InProc 0, t)" "on_kstack 0 t"
  show ?thesis using t scheduler_never_stuck [OF one_runnable_inv t(1)] by blast
qed

text \<open>C12: a process that has exited never runs again: its slot is a zombie in every configuration reached later.\<close>

theorem exited_stays_zombie:
  assumes "sched_inv E (InProc i, s)" and "sched_step (InProc i, s) (Returning i, t)" and "sched_step\<^sup>*\<^sup>* (Returning i, t) (c, u)"
  shows "p_state (ptable u ! i) = ZOMBIE \<and> i \<notin> running u \<and> c \<noteq> InProc i \<and> c \<noteq> Entering i"
proof -
  have t: "sched_inv E (Returning i, t)" by (rule sched_step_inv [OF assms(2,1)])
  then have u: "sched_inv E (c, u)" using sched_steps_inv [OF assms(3)] by blast
  have "p_state (ptable u ! i) = ZOMBIE" using zombie_steps [OF assms(3) t, of i] t by (simp add: sched_inv_def)
  moreover have "i \<in> running u" if "c = InProc i \<or> c = Entering i" using that u by (auto simp: sched_inv_def)
  ultimately show ?thesis by (auto simp: running_def)
qed

theorem exited_stays_zombie_witness:
  "\<exists>(s :: proc) t u. sched_step (InProc 0, s) (Returning 0, t) \<and> sched_step (Returning 0, t) (AtScan (Suc 0), u) \<and> p_state (ptable u ! 0) = ZOMBIE"
proof (rule one_runnable_runs)
  fix s :: proc
  assume s: "on_kstack 0 s" "sched_inv 0x80104080 (InProc 0, s)"
  obtain ie t where t: "exit_process 7 s = Ret (ie, scheduler_ra t) t" "sched_inv 0x80104080 (Returning 0, t)"
    using exit_inv [OF s(2,1)] by blast
  obtain u where u: "scheduler_back 0 t = Ret () u" using back_inv [OF t(2)] by blast
  note e = st_exit [OF s(1) t(1) refl] and b = st_back [OF u, of 0]
  then have "sched_step\<^sup>*\<^sup>* (Returning 0, t) (AtScan (Suc 0), u)" by blast
  then show ?thesis using exited_stays_zombie [OF s(2) e] e b by blast
qed

end
