(* ===== verification/Procinit.thy ===== *)
theory Procinit
  imports Proc
begin

text \<open>
  Creating processes: what \<open>process_alloc\<close> and \<open>initproc_init\<close> (\<^verbatim>\<open>kernel/proc.c\<close>) do, and that the
  state \<open>initproc_init\<close> leaves is one the scheduler can start from.
\<close>

section \<open>Creating a process\<close>

text \<open>\<open>proc_frame s t\<close>: what creating a process leaves alone.\<close>

definition proc_frame :: "'z proc_scheme \<Rightarrow> 'z proc_scheme \<Rightarrow> bool" where
  "proc_frame s t \<longleftrightarrow> same_sync s t \<and> cr3 t = cr3 s \<and> io_log t = io_log s \<and> cons_locking t = cons_locking s \<and> uart t = uart s \<and>
     kmem_use_lock t = kmem_use_lock s \<and> phys_end t = phys_end s \<and> acpi t = acpi s \<and> acpi_len t = acpi_len s \<and>
     isr_table t = isr_table s \<and> kpgdir t = kpgdir s \<and> trapret_addr t = trapret_addr s \<and>
     enter_process_addr t = enter_process_addr s \<and> scheduler_ra t = scheduler_ra s \<and> enter_scheduler_ra t = enter_scheduler_ra s \<and>
     r_esp t = r_esp s \<and> init_start t = init_start s \<and> init_size t = init_size s"

lemma proc_frame_trans: "proc_frame s t \<Longrightarrow> proc_frame t u \<Longrightarrow> proc_frame s u"
  unfolding proc_frame_def using same_sync_trans by metis

lemma proc_frame_upd:
  "proc_frame s (s\<lparr>ptable := p\<rparr>)" "proc_frame s (s\<lparr>nextpid := n\<rparr>)" "proc_frame s (s\<lparr>initproc := q\<rparr>)" "proc_frame s (s\<lparr>mem := m\<rparr>)"
  by (simp_all add: proc_frame_def same_sync_eq)

lemma kmem_proc_frame:
  fixes s t :: "'z proc_scheme"
  assumes "kmem_frame s t"
  shows "proc_frame s t" "ptable t = ptable s" "nextpid t = nextpid s" "initproc t = initproc s"
proof -
  have "kmem.more t = kmem.more s" using assms by (simp add: kmem_frame_def)
  note f = kmem_more_field [OF this]
  show p: "ptable t = ptable s" "nextpid t = nextpid s" "initproc t = initproc s"
    using f [of ptable] f [of nextpid] f [of initproc] by simp_all
  show "proc_frame s t" unfolding proc_frame_def using assms kmem_frame_fields [OF assms]
    f [of trapret_addr] f [of enter_process_addr] f [of scheduler_ra] f [of enter_scheduler_ra] f [of r_esp] f [of init_start] f [of init_size]
    by (simp add: kmem_frame_def)
qed

text \<open>The heap does not depend on the process table.\<close>

lemma kmem_gives_cong:
  assumes "mem t = mem s" "kmem_freelist t = kmem_freelist s" "kmem_sentinel t = kmem_sentinel s" "kmem_use_lock t = kmem_use_lock s"
    "same_sync s t"
  shows "kmem_gives t fs = kmem_gives s fs"
  using assms same_sync_ready [OF assms(5)] by (simp add: kmem_gives_def kmem_ok_def kmem_ready_def)

definition stack_mem :: "u32 \<Rightarrow> u32 \<Rightarrow> u32 \<Rightarrow> memory \<Rightarrow> memory" where
  "stack_mem k tr ep m = write32 (snd (memset (write32 m (k + 4028) tr) (k + 4008) 0 20)) (k + 4024) ep"

lemma new_stack_apply:
  assumes "p < length (ptable s)" "p_kstack (ptable s ! p) = k"
  shows "new_stack p s = Ret () (s\<lparr>ptable := (ptable s)[p := (ptable s ! p)\<lparr>p_tf := k + 4032, p_context := k + 4008\<rparr>],
     mem := stack_mem k (trapret_addr s) (enter_process_addr s) (mem s)\<rparr>)"
  using assms by (simp add: new_stack_def upd_proc_def upd_mem_def stack_mem_def Let_def add.commute [of k])

lemma stack_mem_spec:
  assumes "aligned 4096 k"
  shows "read32 (stack_mem k tr ep m) (k + 4024) = ep" "read32 (stack_mem k tr ep m) (k + 4028) = tr"
    "PGROUNDDOWN x \<noteq> k \<Longrightarrow> stack_mem k tr ep m x = m x"
proof -
  show "read32 (stack_mem k tr ep m) (k + 4024) = ep" by (simp add: stack_mem_def)
  have "read32 (snd (memset m' (k + 4008) 0 20)) (k + 4028) = read32 m' (k + 4028)" for m'
    by (rule read32_cong) (simp add: memset_eq in_region_def unat_of_nat32 unat_add32)
  then show "read32 (stack_mem k tr ep m) (k + 4028) = tr"
    by (simp add: stack_mem_def read32_write32_other disjoint_regions_def)
  assume x: "PGROUNDDOWN x \<noteq> k"
  have "\<not> in_region (k + of_nat n) l x" if "n + l \<le> 4096" for n l
    using that x in_page_iff [OF assms, of x] in_subregion [of k n l x 4096] by auto
  from this [of 4028 4] this [of 4008 20] this [of 4024 4] show "stack_mem k tr ep m x = m x"
    by (simp add: stack_mem_def write32_other memset_eq)
qed

text \<open>\<open>process_alloc\<close> with a free slot, up to the request for a stack.\<close>

definition claimed :: "nat \<Rightarrow> 'z proc_scheme \<Rightarrow> process" where
  "claimed p s = (ptable s ! p)\<lparr>p_state := INITIAL, p_pid := nextpid s\<rparr>"

lemma claim_slot:
  fixes s :: "'z proc_scheme"
  assumes c: "cli_ok s" "lock_free PtableLock s" and p: "find_slot (ptable s) = Some p" "p < length (ptable s)"
  obtains r where "process_alloc s = bindK kalloc (\<lambda>k. thenK (upd_proc p (\<lambda>q. q\<lparr>p_kstack := k\<rparr>))
         (if k = 0 then thenK (upd_proc p (\<lambda>q. q\<lparr>p_state := UNUSED\<rparr>))
            (thenK (warn ''new_process: failed to allocate kernel stack page'' []) (retK None))
          else thenK (new_stack p) (retK (Some p)))) r"
    "proc_frame s r" "mem r = mem s" "kmem_freelist r = kmem_freelist s" "kmem_sentinel r = kmem_sentinel s"
    "ptable r = (ptable s)[p := claimed p s]" "nextpid r = nextpid s + 1" "initproc r = initproc s"
proof -
  let ?a = "acquired PtableLock s"
  define b where "b = ?a\<lparr>ptable := (ptable s)[p := claimed p s], nextpid := nextpid s + 1\<rparr>"
  have b: "eflags b = eflags ?a" "cpus b = cpus ?a" "locks b = locks ?a" by (simp_all add: b_def)
  have "release PtableLock b = Ret () (released PtableLock b)"
    using c(1) b lock_same(2) [OF b(3)] acquired_simps(9) [of PtableLock s]
    by (intro release_held) (simp_all add: cli_ok_def IF_on_def)
  moreover define r where "r = released PtableLock b"
  ultimately have rel: "release PtableLock b = Ret () r" by simp
  have sy: "same_sync s r" unfolding r_def by (rule section_same_sync [OF c b])
  have steps: "upd_proc p (\<lambda>q. q\<lparr>p_state := INITIAL\<rparr>) ?a = Ret () (?a\<lparr>ptable := (ptable s)[p := (ptable s ! p)\<lparr>p_state := INITIAL\<rparr>]\<rparr>)"
    "upd_proc p (\<lambda>q. q\<lparr>p_pid := nextpid s\<rparr>) (?a\<lparr>ptable := (ptable s)[p := (ptable s ! p)\<lparr>p_state := INITIAL\<rparr>]\<rparr>) =
      Ret () (?a\<lparr>ptable := (ptable s)[p := claimed p s]\<rparr>)"
    "modK (\<lambda>x. x\<lparr>nextpid := nextpid s + 1\<rparr>) (?a\<lparr>ptable := (ptable s)[p := claimed p s]\<rparr>) = Ret () b"
    "nextpid (?a\<lparr>ptable := (ptable s)[p := (ptable s ! p)\<lparr>p_state := INITIAL\<rparr>]\<rparr>) = nextpid s" "find_slot (ptable ?a) = Some p"
    using p by (simp_all add: upd_proc_def claimed_def b_def)
  show thesis
  proof (rule that [of r])
    show "process_alloc s = bindK kalloc (\<lambda>k. thenK (upd_proc p (\<lambda>q. q\<lparr>p_kstack := k\<rparr>))
         (if k = 0 then thenK (upd_proc p (\<lambda>q. q\<lparr>p_state := UNUSED\<rparr>))
            (thenK (warn ''new_process: failed to allocate kernel stack page'' []) (retK None))
          else thenK (new_stack p) (retK (Some p)))) r"
      unfolding process_alloc_def by (simp only: thenK_Ret bindK_Ret acquire_free [OF c] getK_apply steps option.case rel)
    show "proc_frame s r" "mem r = mem s" "kmem_freelist r = kmem_freelist s" "kmem_sentinel r = kmem_sentinel s"
      "ptable r = (ptable s)[p := claimed p s]" "nextpid r = nextpid s + 1" "initproc r = initproc s"
      using sy by (simp_all add: proc_frame_def) (simp_all add: r_def b_def released_def acquired_def pushed_def)
  qed
qed

lemma find_slotD:
  assumes "find_slot ps = Some p"
  shows "p < NPROC" "p_state (ps ! p) = UNUSED" "\<forall>j < p. p_state (ps ! j) \<noteq> UNUSED"
  using assms by (auto simp: find_slot_def find_Some_iff simp del: upt_rec_numeral)

lemma process_alloc_returns:
  fixes s :: "'z proc_scheme"
  assumes c: "cli_ok s" "lock_free PtableLock s" and p: "find_slot (ptable s) = Some p" "length (ptable s) = NPROC"
    and g: "kmem_gives s (k # fs)"
  obtains t where "process_alloc s = Ret (Some p) t" "proc_frame s t" "kmem_gives t fs"
    "mem t = stack_mem k (trapret_addr s) (enter_process_addr s) (mem s)" "nextpid t = nextpid s + 1" "initproc t = initproc s"
    "ptable t = (ptable s)[p := (claimed p s)\<lparr>p_kstack := k, p_tf := k + 4032, p_context := k + 4008\<rparr>]"
proof -
  have pl: "p < length (ptable s)" using find_slotD(1) [OF p(1)] p(2) by simp
  obtain r where r: "process_alloc s = bindK kalloc (\<lambda>k. thenK (upd_proc p (\<lambda>q. q\<lparr>p_kstack := k\<rparr>))
         (if k = 0 then thenK (upd_proc p (\<lambda>q. q\<lparr>p_state := UNUSED\<rparr>))
            (thenK (warn ''new_process: failed to allocate kernel stack page'' []) (retK None))
          else thenK (new_stack p) (retK (Some p)))) r"
    "proc_frame s r" "mem r = mem s" "kmem_freelist r = kmem_freelist s" "kmem_sentinel r = kmem_sentinel s"
    "ptable r = (ptable s)[p := claimed p s]" "nextpid r = nextpid s + 1" "initproc r = initproc s"
    by (rule claim_slot [OF c p(1) pl])
  have "kmem_use_lock r = kmem_use_lock s" "same_sync s r" using r(2) by (simp_all add: proc_frame_def)
  then have gr: "kmem_gives r (k # fs)" using kmem_gives_cong [OF r(3-5)] g by blast
  then obtain a where a: "kalloc r = Ret k a" "kmem_frame r a" "mem a = mem r" "kmem_ok a fs"
    using kalloc_frame [of r k fs] unfolding kmem_gives_def by blast
  have ga: "kmem_gives a fs" using gr a(4) kmem_ready_frame [OF a(2)] by (simp add: kmem_gives_def)
  note F = kmem_givesD [OF g] and A = kmem_proc_frame [OF a(2)]
  note ra = proc_frame_trans [OF r(2) A(1)]
  let ?q = "(claimed p s)\<lparr>p_kstack := k\<rparr>"
  let ?b = "a\<lparr>ptable := (ptable s)[p := ?q]\<rparr>" and ?m = "stack_mem k (trapret_addr s) (enter_process_addr s) (mem s)"
  have u: "upd_proc p (\<lambda>q. q\<lparr>p_kstack := k\<rparr>) a = Ret () ?b" using A(2) r(6) pl by (simp add: upd_proc_def)
  have n: "new_stack p ?b = Ret () (a\<lparr>ptable := (ptable s)[p := ?q\<lparr>p_tf := k + 4032, p_context := k + 4008\<rparr>], mem := ?m\<rparr>)"
    using new_stack_apply [of p ?b k] pl ra a(3) r(3) by (simp add: proc_frame_def)
  let ?t = "a\<lparr>ptable := (ptable s)[p := ?q\<lparr>p_tf := k + 4032, p_context := k + 4008\<rparr>], mem := ?m\<rparr>"
  have "process_alloc s = Ret (Some p) ?t"
    unfolding r(1) using F(3) by (simp only: bindK_Ret thenK_Ret a(1) u n if_False retK_apply)
  moreover have "proc_frame s ?t" by (rule proc_frame_trans [OF ra proc_frame_trans [OF proc_frame_upd(1) proc_frame_upd(4)]])
  moreover have "?m x = mem a x" if "PGROUNDDOWN x \<in> set fs" for x
    using that F(2) stack_mem_spec(3) [OF F(4), of x] a(3) r(3) by (cases "PGROUNDDOWN x = k") simp_all
  then have "kmem_gives (a\<lparr>mem := ?m\<rparr>) fs" by (rule kmem_gives_upd_mem [OF ga])
  then have "kmem_gives ?t fs" using kmem_gives_cong [of ?t "a\<lparr>mem := ?m\<rparr>" fs] by (simp add: same_sync_eq)
  ultimately show thesis using that [of ?t] A(3,4) r(7,8) by simp
qed

lemma warn_returns:
  assumes "\<And>lk. lock_free lk s" "ncli (cpus s 0) = 0" "format_text (''WARN: '' @ fmt @ ''\<newline>'') [] = Some out"
  obtains t where "warn fmt [] s = Ret () t" "cprintf_frame s t"
  using cprintf_seq [OF cons_ready_unlocked [OF assms(1,2)] assms(3)] that unfolding warn_def by blast

lemma same_sync_unlocked:
  assumes "same_sync s t" "\<And>lk. lock_free lk s" "ncli (cpus s 0) = 0"
  shows "lock_free lk t" "ncli (cpus t 0) = 0"
  using assms same_sync_ncli [OF assms(1), of 0] by (simp_all add: same_sync_def)

lemma process_alloc_full:
  fixes s :: "'z proc_scheme"
  assumes u: "\<And>lk. lock_free lk s" "ncli (cpus s 0) = 0" and full: "find_slot (ptable s) = None"
  shows "\<exists>t. process_alloc s = Ret None t \<and> same_sync s t \<and> ptable t = ptable s \<and> nextpid t = nextpid s"
proof -
  have c: "cli_ok s" using u(2) by (simp add: cli_ok_def)
  let ?a = "acquired PtableLock s"
  let ?r = "released PtableLock ?a"
  have rel: "release PtableLock ?a = Ret () ?r" using c by (intro release_held) (simp_all add: cli_ok_def)
  have sy: "same_sync s ?r" by (rule section_same_sync [OF c u(1)]) simp_all
  obtain t where t: "warn ''new_process: process table is full, no free slot'' [] ?r = Ret () t" "cprintf_frame ?r t"
    by (rule warn_returns [OF same_sync_unlocked [OF sy u], of "''new_process: process table is full, no free slot''"]) simp_all
  have "process_alloc s = Ret None t"
    unfolding process_alloc_def
    by (simp only: thenK_Ret bindK_Ret acquire_free [OF c u(1)] getK_apply acquired_proc full option.case rel t retK_apply)
  moreover have "same_sync s t" using t(2) same_sync_trans [OF sy] by (simp add: cprintf_frame_def)
  ultimately show ?thesis using cprintf_frame_proc [OF t(2)] by simp
qed

lemma process_alloc_no_stack:
  fixes s :: "'z proc_scheme"
  assumes u: "\<And>lk. lock_free lk s" "ncli (cpus s 0) = 0" and p: "find_slot (ptable s) = Some p" "length (ptable s) = NPROC"
    and g: "kmem_gives s []"
  shows "\<exists>t. process_alloc s = Ret None t \<and> same_sync s t \<and> nextpid t = nextpid s + 1 \<and>
    ptable t = (ptable s)[p := (claimed p s)\<lparr>p_kstack := 0, p_state := UNUSED\<rparr>]"
proof -
  have c: "cli_ok s" using u(2) by (simp add: cli_ok_def)
  have pl: "p < length (ptable s)" using find_slotD(1) [OF p(1)] p(2) by simp
  obtain r where r: "process_alloc s = bindK kalloc (\<lambda>k. thenK (upd_proc p (\<lambda>q. q\<lparr>p_kstack := k\<rparr>))
         (if k = 0 then thenK (upd_proc p (\<lambda>q. q\<lparr>p_state := UNUSED\<rparr>))
            (thenK (warn ''new_process: failed to allocate kernel stack page'' []) (retK None))
          else thenK (new_stack p) (retK (Some p)))) r"
    "proc_frame s r" "mem r = mem s" "kmem_freelist r = kmem_freelist s" "kmem_sentinel r = kmem_sentinel s"
    "ptable r = (ptable s)[p := claimed p s]" "nextpid r = nextpid s + 1" "initproc r = initproc s"
    by (rule claim_slot [OF c u(1) p(1) pl])
  have "kmem_use_lock r = kmem_use_lock s" "same_sync s r" using r(2) by (simp_all add: proc_frame_def)
  then have "kmem_gives r []" using kmem_gives_cong [OF r(3-5)] g by blast
  then obtain a where a: "kalloc r = Ret 0 a" "kmem_frame r a" using kalloc_empty [of r] unfolding kmem_gives_def by blast
  note A = kmem_proc_frame [OF a(2)]
  let ?b = "a\<lparr>ptable := (ptable s)[p := (claimed p s)\<lparr>p_kstack := 0\<rparr>]\<rparr>"
  let ?c = "a\<lparr>ptable := (ptable s)[p := (claimed p s)\<lparr>p_kstack := 0, p_state := UNUSED\<rparr>]\<rparr>"
  have up: "upd_proc p (\<lambda>q. q\<lparr>p_kstack := 0\<rparr>) a = Ret () ?b" "upd_proc p (\<lambda>q. q\<lparr>p_state := UNUSED\<rparr>) ?b = Ret () ?c"
    using A(2) r(6) pl by (simp_all add: upd_proc_def)
  have "proc_frame s ?c" by (rule proc_frame_trans [OF proc_frame_trans [OF r(2) A(1)] proc_frame_upd(1)])
  then have sy: "same_sync s ?c" by (simp only: proc_frame_def)
  obtain t where t: "warn ''new_process: failed to allocate kernel stack page'' [] ?c = Ret () t" "cprintf_frame ?c t"
    by (rule warn_returns [OF same_sync_unlocked [OF sy u], of "''new_process: failed to allocate kernel stack page''"]) simp_all
  have "process_alloc s = Ret None t" unfolding r(1) by (simp only: bindK_Ret thenK_Ret a(1) up if_True refl t retK_apply)
  moreover have "same_sync s t" using t(2) same_sync_trans [OF sy] by (simp add: cprintf_frame_def)
  ultimately show ?thesis using cprintf_frame_proc [OF t(2)] A(3) r(7) by simp
qed

section \<open>The first process\<close>

definition init_frame :: interrupt_state where
  "init_frame = \<lparr>is_ds = 0x23, is_edi = 0, is_esi = 0, is_ebp = 0, is_useless = 0, is_ebx = 0, is_edx = 0, is_ecx = 0,
     is_eax = 0, is_int_no = 0, is_err_code = 0, is_eip = 0, is_cs = 0x1B, is_eflags = 0x200, is_esp = 0x1000, is_ss = 0x23\<rparr>"

lemma init_tf_frame: "read_frame (init_tf tf m) tf = init_frame"
proof -
  have z: "read32 (snd (memset m tf 0 64)) (tf + of_nat n) = 0" if "n \<le> 60" for n
    using that by (simp add: read32_def memset_eq in_region_def unat_of_nat32 unat_add32 add.assoc)
  have z0: "read32 (snd (memset m tf 0 64)) tf = 0" using z [of 0] by simp
  show ?thesis
    using z [of 4] z [of 8] z [of 12] z [of 16] z [of 20] z [of 24] z [of 28] z [of 32] z [of 36] z [of 40]
    by (simp add: read_frame_def init_tf_def init_frame_def Let_def read32_write32_other disjoint_regions_def z0)
qed

lemma init_tf_other:
  assumes "\<not> in_region tf 64 x"
  shows "init_tf tf m x = m x"
proof -
  have "\<not> in_region (tf + of_nat n) 4 x" if "n + 4 \<le> 64" for n
    using that assms in_subregion [of tf n 4 x 64] by auto
  from this [of 0] this [of 44] this [of 48] this [of 52] this [of 56] this [of 60] show ?thesis
    using assms by (simp add: init_tf_def Let_def write32_other memset_eq)
qed

lemma init_tf_page:
  assumes "aligned 4096 k"
  shows "PGROUNDDOWN x \<noteq> k \<Longrightarrow> init_tf (k + 4032) m x = m x"
    "n \<le> 4028 \<Longrightarrow> read32 (init_tf (k + 4032) m) (k + of_nat n) = read32 m (k + of_nat n)"
proof -
  assume x: "PGROUNDDOWN x \<noteq> k"
  then have "\<not> in_region (k + of_nat 4032) 64 x"
    using in_page_iff [OF assms, of x] in_subregion [of k 4032 64 x 4096] by auto
  then show "init_tf (k + 4032) m x = m x" by (simp add: init_tf_other)
next
  assume n: "n \<le> 4028"
  show "read32 (init_tf (k + 4032) m) (k + of_nat n) = read32 m (k + of_nat n)"
  proof (intro read32_cong init_tf_other)
    fix i :: nat
    assume i: "i < 4"
    then have "unat (of_nat (n + i) - 4032 :: u32) = n + i + 4294967296 - 4032" using n by (simp add: unat_sub32 unat_of_nat32 del: of_nat_add)
    then show "\<not> in_region (k + 4032) 64 (k + of_nat n + of_nat i)" by (simp add: in_region_def add.assoc)
  qed
qed

text \<open>The name field: the literal, zeros, and the last byte untouched.\<close>

lemma init_name:
  assumes "length nm = 16"
  shows "strncpy_field nm ''init'' 15 = map of_char ''init'' @ replicate 11 0 @ [nm ! 15]"
proof -
  define m where "m = (\<lambda>a :: addr. if unat a < length nm then nm ! unat a
     else if 0x1000 \<le> unat a \<and> unat a < 0x1000 + length ''init'' then of_char (''init'' ! (unat a - 0x1000)) else 0 :: u8)"
  have src: "m 0x1000 = 0x69" "m 0x1001 = 0x6e" "m 0x1002 = 0x69" "m 0x1003 = 0x74" "m 0x1004 = 0"
    using assms by (simp_all add: m_def)
  have d: "disjoint_regions (0 :: addr) (Suc (unat (15 :: u32))) 0x1000 (unat (15 :: u32))" by (simp add: disjoint_regions_def)
  have "strnlen_loop m 0x1000 0 (Suc (Suc (Suc (Suc (Suc 10))))) = 4" by (simp only: strnlen_loop.simps) (simp add: src)
  then have "strnlen m 0x1000 15 = 4" by (simp add: strnlen_def)
  then have "snd (strncpy m 0 0x1000 15) (of_nat i) = (if i < 4 then m (0x1000 + of_nat i) else if i < 15 then 0 else nm ! i)"
    if "i < 16" for i
    using strncpy_eq [OF d refl, of m] that assms by (simp add: in_region_def unat_of_nat32 m_def) (simp add: word_unat_eq_iff unat_of_nat32)
  then have "strncpy_field nm ''init'' 15 = map (\<lambda>i. if i < 4 then m (0x1000 + of_nat i) else if i < 15 then 0 else nm ! i) [0 ..< 16]"
    unfolding strncpy_field_def Let_def m_def [symmetric] unfolding assms by (intro map_cong) auto
  then show ?thesis by (simp add: src upt_rec numeral_eq_Suc)
qed

text \<open>The address space of the first process: its page at 0 in the frame \<open>g\<close>, the kernel above.\<close>

definition user_translate :: "'z pmem_scheme \<Rightarrow> addr \<Rightarrow> u32 \<Rightarrow> u32 option" where
  "user_translate s g x = (if x < 4096 then Some (V2P g + x) else kvm_translate s x)"

definition program_at :: "memory \<Rightarrow> addr \<Rightarrow> memory \<Rightarrow> addr \<Rightarrow> u32 \<Rightarrow> bool" where
  "program_at m g m0 start sz \<longleftrightarrow> (\<forall>i < 4096. m (g + of_nat i) = (if i < unat sz then m0 (start + of_nat i) else 0))"

lemma inituvm_kvm:
  fixes s :: "'z kvm_scheme" and s0 :: "'y pmem_scheme"
  assumes lay: "layout_ok s0" and vm: "\<forall>q < 1048576. vmem (mem s) d q = kvm_pages s0 q"
    and g: "kmem_gives s fs" "vm_ok (mem s) d fs" "2 \<le> length fs" and sz: "sz < 4096"
    and prog: "\<forall>i < unat sz. PGROUNDDOWN (start + of_nat i) \<notin> set fs \<union> vm_frames (mem s) d"
  obtains g t fs' where "inituvm d start sz s = Ret () t" "kmem_frame s t" "kmem_gives t fs'" "vm_ok (mem t) d fs'"
    "g \<in> set fs" "\<forall>x. translate (mem t) d x = user_translate s0 g x" "program_at (mem t) g (mem s) start sz"
    "\<forall>x. PGROUNDDOWN x \<notin> set fs \<union> vm_frames (mem s) d \<longrightarrow> mem t x = mem s x"
    "vm_frames (mem t) d \<union> set fs' \<subseteq> vm_frames (mem s) d \<union> set fs" "aligned 4096 g"
proof -
  obtain g h gs where fs: "fs = g # h # gs" using g(3) by (cases fs rule: remdups_adj.cases) simp_all
  have "vmem (mem s) d 0 = None" using vm layout_okD(1-3) [OF lay] by (simp add: kvm_pages_def map_pages_def)
  then obtain t fs' where t: "inituvm d start sz s = Ret () t" "kmem_frame s t" "kmem_gives t fs'" "vm_ok (mem t) d fs'"
    "\<forall>q < 1048576. vmem (mem t) d q = (if q = 0 then Some (V2P g OR (PTE_W OR PTE_U) OR PTE_P) else vmem (mem s) d q)"
    "\<forall>i < 4096. mem t (g + of_nat i) = (if i < unat sz then mem s (start + of_nat i) else 0)"
    "\<forall>x. PGROUNDDOWN x \<notin> insert g (set (h # gs)) \<union> vm_frames (mem s) d \<longrightarrow> mem t x = mem s x"
    "vm_frames (mem t) d \<union> set fs' \<subseteq> vm_frames (mem s) d \<union> set (h # gs)"
    using inituvm_returns [of s g "h # gs" d sz start] g sz prog unfolding fs by auto
  have al: "aligned 4096 g" using kmem_givesD(4) g(1) fs by blast
  have "translate (mem t) d x = user_translate s0 g x" for x
  proof (cases "x < 4096")
    case True
    then have "unat x < 4096" by (simp add: word_less_nat_alt)
    then show ?thesis using page0_translate(1) [OF al t(5), of "unat x"] True by (simp add: user_translate_def)
  next
    case False
    then have "4096 \<le> x" by simp
    then have "translate (mem t) d x = kvm_translate s0 x"
      using page0_translate(2) [OF al t(5)] kvm_pages_translate [OF lay vm] by simp
    then show ?thesis using False by (simp add: user_translate_def)
  qed
  moreover have "vm_frames (mem t) d \<union> set fs' \<subseteq> vm_frames (mem s) d \<union> set fs" using t(8) fs by auto
  moreover have "program_at (mem t) g (mem s) start sz" using t(6) by (simp add: program_at_def)
  ultimately show thesis using that [of t fs' g] t(1-4,7) fs al by simp
qed

text \<open>Writing to a page that belongs to neither the address space nor the heap.\<close>

lemma translate_private:
  assumes "kmem_gives s fs" "vm_ok (mem s) d fs" "aligned 4096 k" "k \<notin> set fs" "k \<notin> vm_frames (mem s) d"
    "\<And>a. PGROUNDDOWN a \<noteq> k \<Longrightarrow> m a = mem s a"
  shows "translate m d x = translate (mem s) d x"
  using write_private(4) [OF assms, of "unat x div 4096"] page_bound [of x] by (simp add: translate_def)

text \<open>The last statement of \<open>initproc_init\<close>: publish the process under the lock.\<close>

lemma publish:
  fixes s :: "'z proc_scheme"
  assumes c: "cli_ok s" "lock_free PtableLock s" and p: "p < length (ptable s)"
  obtains t where "seqK [acquire PtableLock, upd_proc p (\<lambda>q. q\<lparr>p_state := RUNNABLE\<rparr>), release PtableLock] s = Ret () t"
    "proc_frame s t" "mem t = mem s" "ptable t = (ptable s)[p := (ptable s ! p)\<lparr>p_state := RUNNABLE\<rparr>]"
    "nextpid t = nextpid s" "initproc t = initproc s" "kmem_freelist t = kmem_freelist s" "kmem_sentinel t = kmem_sentinel s"
proof -
  let ?a = "acquired PtableLock s"
  define b where "b = ?a\<lparr>ptable := (ptable s)[p := (ptable s ! p)\<lparr>p_state := RUNNABLE\<rparr>]\<rparr>"
  have b: "eflags b = eflags ?a" "cpus b = cpus ?a" "locks b = locks ?a" by (simp_all add: b_def)
  have rel: "release PtableLock b = Ret () (released PtableLock b)"
    using c(1) b lock_same(2) [OF b(3)] acquired_simps(9) [of PtableLock s]
    by (intro release_held) (simp_all add: cli_ok_def IF_on_def)
  have up: "upd_proc p (\<lambda>q. q\<lparr>p_state := RUNNABLE\<rparr>) ?a = Ret () b" using p by (simp add: upd_proc_def b_def)
  define r where "r = released PtableLock b"
  have sy: "same_sync s r" unfolding r_def by (rule section_same_sync [OF c b])
  show thesis
  proof (rule that [of r])
    show "seqK [acquire PtableLock, upd_proc p (\<lambda>q. q\<lparr>p_state := RUNNABLE\<rparr>), release PtableLock] s = Ret () r"
      by (simp add: acquire_free [OF c] up rel r_def)
    show "proc_frame s r" "mem r = mem s" "ptable r = (ptable s)[p := (ptable s ! p)\<lparr>p_state := RUNNABLE\<rparr>]"
      "nextpid r = nextpid s" "initproc r = initproc s" "kmem_freelist r = kmem_freelist s" "kmem_sentinel r = kmem_sentinel s"
      using sy by (simp_all add: proc_frame_def) (simp_all add: r_def b_def released_def acquired_def pushed_def)
  qed
qed

text \<open>The process control block \<open>initproc_init\<close> fills in.\<close>

definition init_process :: "nat \<Rightarrow> addr \<Rightarrow> addr \<Rightarrow> 'z proc_scheme \<Rightarrow> process" where
  "init_process p k d s = (ptable s ! p)\<lparr>p_pid := nextpid s, p_kstack := k, p_tf := k + 4032,
     p_context := k + 4008, p_pgdir := d, p_sz := 4096, p_name := strncpy_field (p_name (ptable s ! p)) ''init'' 15, p_state := RUNNABLE\<rparr>"

definition first_process :: "nat \<Rightarrow> addr \<Rightarrow> addr \<Rightarrow> addr \<Rightarrow> 'z proc_scheme \<Rightarrow> 'z proc_scheme \<Rightarrow> bool" where
  "first_process p k d g s t \<longleftrightarrow> proc_frame s t \<and> initproc t = Some p \<and> nextpid t = nextpid s + 1 \<and>
     ptable t = (ptable s)[p := init_process p k d s] \<and> fresh_stack t (init_process p k d s) \<and>
     read_frame (mem t) (k + 4032) = init_frame \<and>
     (\<forall>x. translate (mem t) d x = user_translate s g x) \<and> program_at (mem t) g (mem s) (init_start s) (init_size s)"

lemma layout_cong:
  assumes "phys_end t = phys_end s" "acpi t = acpi s" "acpi_len t = acpi_len s"
  shows "layout_ok t = layout_ok s" "kvm_tables t = kvm_tables s" "kvm_pages t = kvm_pages s"
  using assms by (simp_all add: layout_ok_def kvm_tables_def kvm_pages_def ram_last_def acpi_first_def acpi_last_def)

text \<open>The stages of \<open>initproc_init\<close> up to the new address space, and from there to the trap state.\<close>

lemma initproc_space:
  fixes a :: "'z proc_scheme"
  assumes g: "kmem_gives a (d # fs)" and lay: "layout_ok a" and room: "kvm_tables a + 2 \<le> length fs" and sz: "init_size a < 4096"
    and prog: "\<forall>i < unat (init_size a). PGROUNDDOWN (init_start a + of_nat i) \<notin> insert d (set fs)" and p: "p < length (ptable a)"
  obtains b c g fs' where "setupkvm (a\<lparr>initproc := Some p\<rparr>) = Ret d b" "upd_proc p (\<lambda>q. q\<lparr>p_pgdir := d\<rparr>) b = Ret () c"
    "kmem_gives c fs'" "vm_ok (mem c) d fs'" "2 \<le> length fs'" "\<forall>q < 1048576. vmem (mem c) d q = kvm_pages a q"
    "set fs' \<union> vm_frames (mem c) d \<subseteq> insert d (set fs)" "\<forall>x. PGROUNDDOWN x \<notin> insert d (set fs) \<longrightarrow> mem c x = mem a x"
    "proc_frame a c" "ptable c = (ptable a)[p := (ptable a ! p)\<lparr>p_pgdir := d\<rparr>]" "initproc c = Some p" "nextpid c = nextpid a"
proof -
  let ?a = "a\<lparr>initproc := Some p\<rparr>"
  have la: "layout_ok ?a" "kvm_tables ?a = kvm_tables a" "kvm_pages ?a = kvm_pages a"
    using layout_cong [of ?a a] lay by simp_all
  have ga: "kmem_gives ?a (d # fs)" using kmem_gives_cong [of ?a a] g by (simp add: same_sync_eq)
  have rm: "kvm_tables ?a + 2 \<le> length fs" using room la(2) by simp
  obtain b fs' us where b: "setupkvm ?a = Ret d b" "kmem_frame ?a b" "kmem_gives b fs'" "vm_ok (mem b) d fs'" "2 \<le> length fs'"
    "\<forall>q < 1048576. vmem (mem b) d q = kvm_pages ?a q" "fs = us @ fs'" "vm_frames (mem b) d = insert d (set us)"
    "\<forall>x. PGROUNDDOWN x \<notin> insert d (set us) \<longrightarrow> mem b x = mem ?a x"
    by (rule setupkvm_returns [OF ga la(1) rm])
  note B = kmem_proc_frame [OF b(2)]
  define c where "c = b\<lparr>ptable := (ptable a)[p := (ptable a ! p)\<lparr>p_pgdir := d\<rparr>]\<rparr>"
  show thesis
  proof (rule that [of b c fs'])
    show "upd_proc p (\<lambda>q. q\<lparr>p_pgdir := d\<rparr>) b = Ret () c" using B(2) by (simp add: upd_proc_def c_def)
    show "kmem_gives c fs'" using kmem_gives_cong [of c b fs'] b(3) by (simp add: c_def same_sync_eq)
    show "proc_frame a c" unfolding c_def
      by (rule proc_frame_trans [OF proc_frame_upd(3) proc_frame_trans [OF B(1) proc_frame_upd(1)]])
  qed (use b la B in \<open>auto simp: c_def\<close>)
qed

lemma initproc_image:
  fixes c :: "'z proc_scheme"
  assumes lay: "layout_ok c" and vm: "\<forall>q < 1048576. vmem (mem c) d q = kvm_pages c q"
    and g: "kmem_gives c fs" "vm_ok (mem c) d fs" "2 \<le> length fs" and sz: "init_size c < 4096"
    and prog: "\<forall>i < unat (init_size c). PGROUNDDOWN (init_start c + of_nat i) \<notin> set fs \<union> vm_frames (mem c) d"
    and k: "aligned 4096 k" "k \<notin> set fs \<union> vm_frames (mem c) d" and p: "p < length (ptable c)" "p_tf (ptable c ! p) = k + 4032"
  obtains e g where "seqK [inituvm d (init_start c) (init_size c), upd_proc p (\<lambda>q. q\<lparr>p_sz := PGSIZE\<rparr>),
      bindK (getK (\<lambda>s. p_tf (ptable s ! p))) (\<lambda>tf. upd_mem (init_tf tf)),
      upd_proc p (\<lambda>q. q\<lparr>p_name := strncpy_field (p_name q) ''init'' 15\<rparr>)] c = Ret () e"
    "proc_frame c e" "initproc e = initproc c" "nextpid e = nextpid c"
    "ptable e = (ptable c)[p := (ptable c ! p)\<lparr>p_sz := 4096, p_name := strncpy_field (p_name (ptable c ! p)) ''init'' 15\<rparr>]"
    "\<forall>x. translate (mem e) d x = user_translate c g x" "program_at (mem e) g (mem c) (init_start c) (init_size c)"
    "read_frame (mem e) (k + 4032) = init_frame" "\<forall>n \<le> 4028. read32 (mem e) (k + of_nat n) = read32 (mem c) (k + of_nat n)"
proof -
  obtain g t fs' where t: "inituvm d (init_start c) (init_size c) c = Ret () t" "kmem_frame c t" "kmem_gives t fs'" "vm_ok (mem t) d fs'"
    "g \<in> set fs" "\<forall>x. translate (mem t) d x = user_translate c g x" "program_at (mem t) g (mem c) (init_start c) (init_size c)"
    "\<forall>x. PGROUNDDOWN x \<notin> set fs \<union> vm_frames (mem c) d \<longrightarrow> mem t x = mem c x"
    "vm_frames (mem t) d \<union> set fs' \<subseteq> vm_frames (mem c) d \<union> set fs" "aligned 4096 g"
    by (rule inituvm_kvm [OF lay vm g sz prog])
  note T = kmem_proc_frame [OF t(2)]
  let ?m = "init_tf (k + 4032) (mem t)"
  define e where "e = t\<lparr>ptable := (ptable c)[p := (ptable c ! p)\<lparr>p_sz := 4096, p_name := strncpy_field (p_name (ptable c ! p)) ''init'' 15\<rparr>],
    mem := ?m\<rparr>"
  have kn: "k \<notin> set fs'" "k \<notin> vm_frames (mem t) d" "g \<noteq> k" using k(2) t(5,9) by auto
  show thesis
  proof (rule that [of e g])
    show "seqK [inituvm d (init_start c) (init_size c), upd_proc p (\<lambda>q. q\<lparr>p_sz := PGSIZE\<rparr>),
      bindK (getK (\<lambda>s. p_tf (ptable s ! p))) (\<lambda>tf. upd_mem (init_tf tf)),
      upd_proc p (\<lambda>q. q\<lparr>p_name := strncpy_field (p_name q) ''init'' 15\<rparr>)] c = Ret () e"
      using t(1) T(2) p by (simp add: upd_proc_def upd_mem_def e_def)
    show "proc_frame c e" unfolding e_def
      by (rule proc_frame_trans [OF T(1) proc_frame_trans [OF proc_frame_upd(1) proc_frame_upd(4)]])
    show "\<forall>x. translate (mem e) d x = user_translate c g x"
      using translate_private [OF t(3,4) k(1) kn(1,2), of ?m] init_tf_page(1) [OF k(1), of _ "mem t"] t(6) by (simp add: e_def)
    show "program_at (mem e) g (mem c) (init_start c) (init_size c)"
      using t(7) kn(3) by (simp add: e_def program_at_def init_tf_page(1) [OF k(1)] loaded_bytes(1) [OF t(10)])
    show "\<forall>n \<le> 4028. read32 (mem e) (k + of_nat n) = read32 (mem c) (k + of_nat n)"
      using init_tf_page(2) [OF k(1)] page_read32 [OF k(1), of _ "mem t" "mem c"] t(8) k(2) by (auto simp: e_def)
  qed (use T init_tf_frame in \<open>simp_all add: e_def\<close>)
qed

lemma initproc_init_eval:
  fixes s :: "'z proc_scheme"
  assumes "process_alloc s = Ret (Some p) a" "setupkvm (a\<lparr>initproc := Some p\<rparr>) = Ret d b" "d \<noteq> 0"
    "upd_proc p (\<lambda>q. q\<lparr>p_pgdir := d\<rparr>) b = Ret () c"
    "seqK [inituvm d (init_start c) (init_size c), upd_proc p (\<lambda>q. q\<lparr>p_sz := PGSIZE\<rparr>),
      bindK (getK (\<lambda>s. p_tf (ptable s ! p))) (\<lambda>tf. upd_mem (init_tf tf)),
      upd_proc p (\<lambda>q. q\<lparr>p_name := strncpy_field (p_name q) ''init'' 15\<rparr>)] c = Ret () e"
    "seqK [acquire PtableLock, upd_proc p (\<lambda>q. q\<lparr>p_state := RUNNABLE\<rparr>), release PtableLock] e = Ret () t"
  shows "initproc_init s = Ret () t"
proof -
  have split: "seqK [m1, m2, m3, m4, m5, m6, m7] = thenK (seqK [m1, m2, m3, m4]) (seqK [m5, m6, m7])"
    for m1 m2 m3 m4 m5 m6 m7 :: "(unit, 'z proc_scheme) kern"
    using seqK_append [of "[m1, m2, m3, m4]" "[m5, m6, m7]"] by (simp only: append.simps)
  have "assertK ''initproc_init'' ''kernel/proc.c'' 126 (Some p \<noteq> None) a = Ret () a" by simp
  moreover have "modK (\<lambda>s. s\<lparr>initproc := Some p\<rparr>) a = Ret () (a\<lparr>initproc := Some p\<rparr>)" by simp
  ultimately show ?thesis unfolding initproc_init_def using assms(3)
    by (simp only: bindK_Ret thenK_Ret assms option.case if_False getK_apply prod.case split)
qed

lemma initproc_init_returns:
  fixes s :: "'z proc_scheme"
  assumes c: "cli_ok s" "lock_free PtableLock s" and p: "find_slot (ptable s) = Some p" "length (ptable s) = NPROC"
    and g: "kmem_gives s (k # d # fs)" and lay: "layout_ok s" and room: "kvm_tables s + 2 \<le> length fs"
    and sz: "init_size s < 4096"
    and prog: "\<forall>i < unat (init_size s). PGROUNDDOWN (init_start s + of_nat i) \<notin> insert k (insert d (set fs))"
  shows "\<exists>t g. initproc_init s = Ret () t \<and> first_process p k d g s t"
proof -
  have pl: "p < length (ptable s)" using find_slotD(1) [OF p(1)] p(2) by simp
  obtain a where a: "process_alloc s = Ret (Some p) a" "proc_frame s a" "kmem_gives a (d # fs)"
    "mem a = stack_mem k (trapret_addr s) (enter_process_addr s) (mem s)" "nextpid a = nextpid s + 1" "initproc a = initproc s"
    "ptable a = (ptable s)[p := (claimed p s)\<lparr>p_kstack := k, p_tf := k + 4032, p_context := k + 4008\<rparr>]"
    by (rule process_alloc_returns [OF c p g])
  note K = kmem_givesD [OF g] and S = stack_mem_spec [OF kmem_givesD(4) [OF g]] and Fa = a(2) [unfolded proc_frame_def]
  have ks: "k \<notin> insert d (set fs)" using K(2) by simp
  have la: "layout_ok a" "kvm_tables a + 2 \<le> length fs" "init_size a < 4096"
    "\<forall>i < unat (init_size a). PGROUNDDOWN (init_start a + of_nat i) \<notin> insert d (set fs)" "p < length (ptable a)"
    using layout_cong [of a s] Fa lay room sz prog pl a(7) by simp_all
  obtain b c fs' where b: "setupkvm (a\<lparr>initproc := Some p\<rparr>) = Ret d b" "upd_proc p (\<lambda>q. q\<lparr>p_pgdir := d\<rparr>) b = Ret () c"
    "kmem_gives c fs'" "vm_ok (mem c) d fs'" "2 \<le> length fs'" "\<forall>q < 1048576. vmem (mem c) d q = kvm_pages a q"
    "set fs' \<union> vm_frames (mem c) d \<subseteq> insert d (set fs)" "\<forall>x. PGROUNDDOWN x \<notin> insert d (set fs) \<longrightarrow> mem c x = mem a x"
    "proc_frame a c" "ptable c = (ptable a)[p := (ptable a ! p)\<lparr>p_pgdir := d\<rparr>]" "initproc c = Some p" "nextpid c = nextpid a"
    by (rule initproc_space [OF a(3) la])
  note Fc = proc_frame_trans [OF a(2) b(9), unfolded proc_frame_def]
  have lc: "layout_ok c" "\<forall>q < 1048576. vmem (mem c) d q = kvm_pages c q" "init_size c < 4096"
    "\<forall>i < unat (init_size c). PGROUNDDOWN (init_start c + of_nat i) \<notin> set fs' \<union> vm_frames (mem c) d"
    using layout_cong [of c s] layout_cong [of a s] Fa Fc lay sz prog b(6,7) by auto
  have kc: "k \<notin> set fs' \<union> vm_frames (mem c) d" "p < length (ptable c)" "p_tf (ptable c ! p) = k + 4032"
    using ks b(7,10) a(7) pl by auto
  obtain e g where e: "seqK [inituvm d (init_start c) (init_size c), upd_proc p (\<lambda>q. q\<lparr>p_sz := PGSIZE\<rparr>),
      bindK (getK (\<lambda>s. p_tf (ptable s ! p))) (\<lambda>tf. upd_mem (init_tf tf)),
      upd_proc p (\<lambda>q. q\<lparr>p_name := strncpy_field (p_name q) ''init'' 15\<rparr>)] c = Ret () e"
    "proc_frame c e" "initproc e = initproc c" "nextpid e = nextpid c"
    "ptable e = (ptable c)[p := (ptable c ! p)\<lparr>p_sz := 4096, p_name := strncpy_field (p_name (ptable c ! p)) ''init'' 15\<rparr>]"
    "\<forall>x. translate (mem e) d x = user_translate c g x" "program_at (mem e) g (mem c) (init_start c) (init_size c)"
    "read_frame (mem e) (k + 4032) = init_frame" "\<forall>n \<le> 4028. read32 (mem e) (k + of_nat n) = read32 (mem c) (k + of_nat n)"
    by (rule initproc_image [OF lc(1,2) b(3-5) lc(3,4) K(4) kc])
  note Fe = proc_frame_trans [OF proc_frame_trans [OF a(2) b(9)] e(2)]
  have ce: "cli_ok e" "lock_free PtableLock e" "p < length (ptable e)"
    using same_sync_ready [of s e] Fe c e(5) kc(2) by (simp_all add: proc_frame_def)
  obtain t where t: "seqK [acquire PtableLock, upd_proc p (\<lambda>q. q\<lparr>p_state := RUNNABLE\<rparr>), release PtableLock] e = Ret () t"
    "proc_frame e t" "mem t = mem e" "ptable t = (ptable e)[p := (ptable e ! p)\<lparr>p_state := RUNNABLE\<rparr>]"
    "nextpid t = nextpid e" "initproc t = initproc e" by (rule publish [OF ce])
  have d0: "d \<noteq> 0" using kmem_givesD(3) [OF a(3)] .
  have "initproc_init s = Ret () t" by (rule initproc_init_eval [OF a(1) b(1) d0 b(2) e(1) t(1)])
  moreover have pt: "ptable t = (ptable s)[p := init_process p k d s]"
    using t(4) e(5) b(10) a(7) pl by (simp add: init_process_def claimed_def)
  moreover note Ft = proc_frame_trans [OF Fe t(2)]
  moreover have "read32 (mem t) (k + of_nat n) = read32 (mem a) (k + of_nat n)" if "n \<le> 4028" for n
    using that e(9) t(3) page_read32 [OF K(4), of n "mem c" "mem a"] b(8) ks by auto
  from this [of 4024] this [of 4028] have "fresh_stack t (init_process p k d s)"
    using S(1,2) a(4) Ft by (simp add: fresh_stack_def init_process_def proc_frame_def)
  moreover have "user_translate c g = user_translate s g"
    using Fc by (auto simp: user_translate_def kvm_translate_def ram_last_def acpi_first_def acpi_last_def fun_eq_iff)
  moreover have "mem c (init_start s + of_nat i) = mem s (init_start s + of_nat i)" if "i < unat (init_size s)" for i
    using prog that b(8) a(4) S(3) by simp
  then have "program_at (mem t) g (mem s) (init_start s) (init_size s)" using e(7) t(3) Fc by (simp add: program_at_def)
  ultimately show ?thesis unfolding first_process_def using t(3,5,6) e(3,4,6,8) b(11,12) a(5) by auto
qed

section \<open>From the first process to user mode\<close>

lemma kmem_gives_frame_ok: "kmem_gives s fs \<Longrightarrow> f \<in> set fs \<Longrightarrow> frame_ok f"
  by (simp add: kmem_gives_def kmem_ok_def)

lemma find_slot_empty:
  assumes "\<forall>i < NPROC. p_state (ps ! i) = UNUSED"
  shows "find_slot ps = Some 0"
proof -
  have "[0 ..< NPROC] = 0 # [1 ..< NPROC]" by (simp add: upt_rec)
  then show ?thesis using assms by (simp add: find_slot_def del: upt_rec_numeral)
qed

lemma first_process_inv:
  fixes s :: "'z proc_scheme"
  assumes fp: "first_process 0 k d g s t" and free: "\<And>lk. lock_free lk s" "ncli (cpus s 0) = 0" "\<not> IF_on s"
    and tab: "length (ptable s) = NPROC" "\<forall>i < NPROC. p_state (ptable s ! i) = UNUSED"
    and ok: "frame_ok k" "frame_ok d" "V2P (kpgdir s) \<noteq> 0"
    and stack: "\<forall>x. in_region (r_esp s - 28) 28 x \<longrightarrow> PGROUNDDOWN x \<noteq> k \<and> \<not> in_region vidmem 131072 x"
  obtains u where "scheduler_start t = Ret () u" "sched_inv (r_esp s) (AtHead, u)" "mem u = mem t" "ptable u = ptable t"
proof -
  note F = fp [unfolded first_process_def] and Q = init_process_def [of 0 k d s]
  have fr: "proc_frame s t" using F by blast
  note G = fr [unfolded proc_frame_def]
  define u where "u = t\<lparr>cpus := (cpus t)(0 := (cpus t 0)\<lparr>cpu_proc := None\<rparr>)\<rparr>"
  have u: "mem u = mem t" "ptable u = ptable t" "locks u = locks t" "r_esp u = r_esp s" "kpgdir u = kpgdir s" "sched_const t u"
    "cpus u 0 = (cpus t 0)\<lparr>cpu_proc := None\<rparr>" using G by (simp_all add: u_def sched_const_def)
  have fu: "lock_free lk u" "ncli (cpus u 0) = 0" for lk
    using same_sync_unlocked [of s t, OF _ free(1,2)] G lock_same(1) [OF u(3)] u(7) by simp_all
  have "\<not> IF_on t" using G free(3) by (simp add: same_sync_def IF_on_def)
  then have "scheduler_start t = Ret () u" by (simp add: scheduler_start_def mycpu_def readeflags_def IF_on_def upd_cpu_def u_def)
  moreover have pt: "ptable u = (ptable s)[0 := init_process 0 k d s]" using F u(2) by simp
  have st: "p_state (ptable u ! i) = (if i = 0 then RUNNABLE else UNUSED)" if "i < NPROC" for i
    using that tab by (simp add: pt Q nth_list_update)
  have len: "length (ptable u) = NPROC" using tab(1) by (simp add: pt)
  have lv: "live u i \<longleftrightarrow> i = 0" for i
    using st [of i] len by (cases "i < NPROC") (auto simp: live_def split: if_splits)
  have fs: "fresh_stack u (init_process 0 k d s)" using F u(1,6) by (simp add: fresh_stack_def sched_const_def)
  have p0: "ptable u ! 0 = init_process 0 k d s" "p_kstack (init_process 0 k d s) = k" "p_pgdir (init_process 0 k d s) = d"
    using tab(1) by (simp_all add: pt Q)
  have "ptable_ok (r_esp s) u" using fs p0 ok stack fu(1) u(5) len by (auto simp: ptable_ok_def lv)
  moreover have "running u = {}" using st len by (auto simp: running_def split: if_splits)
  then have "control_ok (r_esp s) AtHead u" using fu u(4,7) by simp
  ultimately show thesis using that u(1,2) sched_invI by blast
qed

lemma boot_proc_heap:
  obtains s k d fs where "freerange 0x80110000 0x80150000 boot_proc = Ret () s" "kmem_frame boot_proc s" "kmem_gives s (k # d # fs)"
    "length fs = 62" "\<forall>f \<in> set (k # d # fs). 0x80110000 \<le> f"
proof -
  have p: "PGROUNDUP 0x80110000 = 0x80110000" by (simp add: PGROUNDUP_def)
  have b: "kmem_ok boot_proc []" "kmem_ready boot_proc" by (simp_all add: kmem_ok_def kmem_ready_def boot_proc_defs)
  have h: "kheap_start boot_proc = 0x80110000" "kheap_end boot_proc = 0x07fe0000" "kmem_sentinel boot_proc = 0x8010e004"
    by (simp_all add: boot_proc_defs)
  have ge: "0x80110000 \<le> v" if "v \<in> set (frames_from 0x80110000 64)" for v
    using frames_from_ge [OF _ that] by (simp add: word_le_nat_alt)
  have free: "may_free boot_proc [] v" if "v \<in> set (frames_from 0x80110000 64)" for v
  proof -
    have "aligned 4096 (0x80110000 :: addr)" "0x80100000 \<le> (0x80110000 :: addr)" "unat (0x80110000 :: addr) + 4096 * 64 \<le> unat (0x80150000 :: addr)"
      by (simp_all add: aligned_def)
    from range_frame [OF this that] show ?thesis using ge [OF that] h by (auto simp: may_free_def word_less_nat_alt word_le_nat_alt)
  qed
  obtain s where s: "freerange 0x80110000 0x80150000 boot_proc = Ret () s" "kmem_frame boot_proc s"
      "kmem_ok s (rev (frames_from 0x80110000 64))"
    using freerange_returns [OF b, of "0x80110000" "0x80150000" 64] free by (auto simp: p)
  have len: "length (rev (frames_from 0x80110000 64)) = Suc (Suc 62)" by (simp only: length_rev length_frames_from)
  then obtain k d fs where f: "rev (frames_from 0x80110000 64) = k # d # fs" "length fs = 62" unfolding length_Suc_conv by blast
  have "kmem_gives s (k # d # fs)" using s b(2) kmem_ready_frame [OF s(2)] f(1) by (simp add: kmem_gives_def)
  moreover have "set (k # d # fs) = set (frames_from 0x80110000 64)" by (simp only: f(1) [symmetric] set_rev)
  ultimately show thesis using that s(1,2) f(2) ge by blast
qed

lemma frame_page_read:
  assumes "aligned 4096 k" "\<And>x. PGROUNDDOWN x = k \<Longrightarrow> m x = m' x"
  shows "read_frame m (k + 4032) = read_frame m' (k + 4032)"
proof -
  have r: "read32 m (k + of_nat n) = read32 m' (k + of_nat n)" if "n \<le> 4092" for n using assms that by (intro page_read32) auto
  show ?thesis
    using r [of 4032] r [of 4036] r [of 4040] r [of 4044] r [of 4048] r [of 4052] r [of 4056] r [of 4060] r [of 4064] r [of 4068]
      r [of 4072] r [of 4076] r [of 4080] r [of 4084] r [of 4088] r [of 4092]
    by (simp add: read_frame_def add.commute [of k])
qed

lemma schedule_first:
  fixes u :: "'z proc_scheme"
  assumes inv: "sched_inv E (AtHead, u)" and p: "p_state (ptable u ! 0) = RUNNABLE" "frame_ok (p_kstack (ptable u ! 0))"
    and stack: "\<forall>x. in_region (E - 28) 28 x \<longrightarrow> PGROUNDDOWN x \<noteq> p_kstack (ptable u ! 0)"
    and f: "read_frame (mem u) (p_kstack (ptable u ! 0) + 4032) = f"
  obtains v w y z where "sched_step\<^sup>*\<^sup>* (AtHead, u) (Entering 0, v)" "enter_process v = Ret () w" "pop32 w = Ret (trapret_addr w) y"
    "trapret y = Ret f z" "cr3 v = V2P (p_pgdir (ptable u ! 0))" "\<forall>x. \<not> in_region (E - 28) 28 x \<longrightarrow> mem v x = mem u x"
proof -
  obtain a where a: "scheduler_head u = Ret () a" "sched_inv E (AtScan 0, a)" "ptable a = ptable u" "mem a = mem u"
    using head_inv [OF inv] by blast
  have r: "p_state (ptable a ! 0) = RUNNABLE" using p(1) a(3) by simp
  obtain v where v: "scheduler_run 0 0 a = Ret (enter_process_addr v) v" "sched_inv E (Entering 0, v)"
      "ptable v = (ptable a)[0 := (ptable a ! 0)\<lparr>p_state := RUNNING\<rparr>]" "cr3 v = V2P (p_pgdir (ptable a ! 0))"
      "\<forall>x. \<not> in_region (E - 28) 28 x \<longrightarrow> mem v x = mem a x"
    using run_inv [OF a(2) _ r] by auto
  have "0 < length (ptable a)" using ptable_okD(1) [OF sched_invD(1) [OF a(2)]] by simp
  then have k: "p_kstack (ptable v ! 0) = p_kstack (ptable u ! 0)" using v(3) a(3) by simp
  obtain w y f' z where w: "enter_process v = Ret () w" "pop32 w = Ret (trapret_addr w) y" "trapret y = Ret f' z"
      "f' = read_frame (mem v) (p_kstack (ptable v ! 0) + 4032)"
    using enter_inv [OF v(2)] by blast
  have "mem v x = mem u x" if "PGROUNDDOWN x = p_kstack (ptable u ! 0)" for x using stack that v(5) a(4) by auto
  then have "f' = f" using frame_page_read [of "p_kstack (ptable u ! 0)" "mem v" "mem u"] p(2) w(4) k f by (simp add: frame_ok_def)
  moreover have "sched_step\<^sup>*\<^sup>* (AtHead, u) (Entering 0, v)"
    using st_head [OF a(1)] st_run [OF _ r v(1) refl] by (meson converse_rtranclp_into_rtranclp rtranclp.rtrancl_refl zero_less_numeral)
  ultimately show thesis using that w v(4,5) a(3,4) by simp
qed

section \<open>Properties\<close>



text \<open>C2: from boot to user mode. With an empty process table, enough frames and a program of less than a page,
  \<open>initproc_init\<close> creates the first process, the scheduler starts, picks it, and after the switch
  \<open>enter_process\<close> and \<open>trapret\<close> leave the kernel with the trap state of a fresh user program: code and data selectors of
  privilege 3, interrupts on, instruction pointer 0, stack pointer at the end of its page. The page directory then
  in use maps page 0 to a frame that holds the program followed by zeros, and otherwise exactly the kernel.\<close>

theorem first_process_reaches_user_mode:
  fixes s :: "'z proc_scheme"
  assumes "\<forall>lk. lock_free lk s" and "ncli (cpus s 0) = 0" and "\<not> IF_on s"
    and "length (ptable s) = NPROC" and "\<forall>i < NPROC. p_state (ptable s ! i) = UNUSED" and "V2P (kpgdir s) \<noteq> 0"
    and "kmem_gives s (k # d # fs)" and "layout_ok s" and "kvm_tables s + 2 \<le> length fs" and "init_size s < 4096"
    and "\<forall>i < unat (init_size s). PGROUNDDOWN (init_start s + of_nat i) \<notin> set (k # d # fs)"
    and "\<forall>x. in_region (r_esp s - 28) 28 x \<longrightarrow> PGROUNDDOWN x \<noteq> k \<and> \<not> in_region vidmem 131072 x"
  shows "\<exists>t u v w y z g. initproc_init s = Ret () t \<and> scheduler_start t = Ret () u \<and> sched_inv (r_esp s) (AtHead, u) \<and>
    sched_step\<^sup>*\<^sup>* (AtHead, u) (Entering 0, v) \<and> enter_process v = Ret () w \<and> pop32 w = Ret (trapret_addr w) y \<and>
    trapret y = Ret init_frame z \<and> cr3 v = V2P d \<and> initproc t = Some 0 \<and> p_pid (ptable t ! 0) = nextpid s \<and>
    (\<forall>x. translate (mem t) d x = user_translate s g x) \<and> program_at (mem t) g (mem s) (init_start s) (init_size s) \<and>
    (\<forall>x. \<not> in_region (r_esp s - 28) 28 x \<longrightarrow> mem v x = mem t x)"
proof -
  have c: "cli_ok s" "lock_free PtableLock s" using assms(1,2) by (simp_all add: cli_ok_def)
  have prog: "\<forall>i < unat (init_size s). PGROUNDDOWN (init_start s + of_nat i) \<notin> insert k (insert d (set fs))" using assms(11) by simp
  obtain t g where t: "initproc_init s = Ret () t" "first_process 0 k d g s t"
    using initproc_init_returns [OF c find_slot_empty [OF assms(5)] assms(4,7-10) prog] by blast
  note F = t(2) [unfolded first_process_def]
  have fo: "frame_ok k" "frame_ok d" using kmem_gives_frame_ok [OF assms(7)] by simp_all
  obtain u where u: "scheduler_start t = Ret () u" "sched_inv (r_esp s) (AtHead, u)" "mem u = mem t" "ptable u = ptable t"
    using first_process_inv [OF t(2) _ assms(2-5) fo assms(6,12)] assms(1) by blast
  have p0: "p_state (ptable u ! 0) = RUNNABLE" "p_kstack (ptable u ! 0) = k" "p_pgdir (ptable u ! 0) = d" "p_pid (ptable t ! 0) = nextpid s"
    using F u(4) assms(4) by (simp_all add: init_process_def)
  have st: "\<forall>x. in_region (r_esp s - 28) 28 x \<longrightarrow> PGROUNDDOWN x \<noteq> p_kstack (ptable u ! 0)" using assms(12) p0(2) by simp
  have "frame_ok (p_kstack (ptable u ! 0))" "read_frame (mem u) (p_kstack (ptable u ! 0) + 4032) = init_frame" using F fo p0(2) u(3) by simp_all
  then obtain v w y z where "sched_step\<^sup>*\<^sup>* (AtHead, u) (Entering 0, v)" "enter_process v = Ret () w" "pop32 w = Ret (trapret_addr w) y"
    "trapret y = Ret init_frame z" "cr3 v = V2P (p_pgdir (ptable u ! 0))" "\<forall>x. \<not> in_region (r_esp s - 28) 28 x \<longrightarrow> mem v x = mem u x"
    by (rule schedule_first [OF u(2) p0(1) _ st])
  then show ?thesis using t(1) u(1-3) F p0(3,4) by (intro exI [of _ t] exI [of _ u] exI [of _ v] exI [of _ w] exI [of _ y] exI [of _ z] exI [of _ g]) simp
qed

theorem first_process_reaches_user_mode_witness:
  "\<exists>s t u v w y z :: proc. freerange 0x80110000 0x80150000 boot_proc = Ret () s \<and> initproc_init s = Ret () t \<and> scheduler_start t = Ret () u \<and>
     sched_step\<^sup>*\<^sup>* (AtHead, u) (Entering 0, v) \<and> enter_process v = Ret () w \<and> pop32 w = Ret (trapret_addr w) y \<and> trapret y = Ret init_frame z"
proof (rule boot_proc_heap)
  fix s k d fs
  assume s: "freerange 0x80110000 0x80150000 boot_proc = Ret () s" "kmem_frame boot_proc s" "kmem_gives s (k # d # fs)" "length fs = 62"
    "\<forall>f \<in> set (k # d # fs). 0x80110000 \<le> f"
  note B = kmem_proc_frame [OF s(2)]
  note fr = B(1) [unfolded proc_frame_def]
  have sy: "same_sync boot_proc s" using s(2) by (simp add: kmem_frame_def)
  note U = same_sync_unlocked [OF sy boot_proc_unlocked]
  have f: "phys_end s = 0x7fe0000" "acpi s = 0x7fe0000" "acpi_len s = 0x20000" "kpgdir s = 0x8010f000" "r_esp s = 0x80104080"
    "init_start s = 0x8010d000" "init_size s = 32" "ptable s = replicate NPROC zero_process" "eflags s = 2"
    using fr B(2) sy by (simp_all add: boot_proc_defs same_sync_def)
  have r: "ram_last s = 32735" "acpi_first s = 32736" "acpi_last s = 32767" by (simp_all add: ram_last_def acpi_first_def acpi_last_def f)
  have lay: "layout_ok s" "kvm_tables s + 2 \<le> length fs" by (simp_all add: layout_ok_def kvm_tables_def r dir_span_def s(4) f aligned_def)
  have low: "x \<notin> set (k # d # fs)" if "x < 0x80110000" for x using s(5) that by (metis linorder_not_less)
  have page: "PGROUNDDOWN x = q" if "in_region (q + of_nat n) l x" "n + l \<le> 4096" "aligned 4096 q" for q n l x
    using that in_subregion [of q n l x 4096] in_page_iff [OF that(3), of x] by simp
  have prog: "\<forall>i < unat (init_size s). PGROUNDDOWN (init_start s + of_nat i) \<notin> set (k # d # fs)"
    using loaded_bytes(1) [of "0x8010d000"] low [of "0x8010d000"] by (simp add: f aligned_def)
  have stk: "frame_ok (0x80104000 :: addr)" "k \<noteq> 0x80104000" using low [of "0x80104000"] by (auto simp: frame_ok_def aligned_def)
  have "\<forall>x. in_region (r_esp s - 28) 28 x \<longrightarrow> PGROUNDDOWN x \<noteq> k \<and> \<not> in_region vidmem 131072 x"
    using page [of "0x80104000" 100 28] stk vidmem_not_frame [OF stk(1)] by (auto simp: f frame_ok_def)
  then obtain t u v w y z where "initproc_init s = Ret () t" "scheduler_start t = Ret () u" "sched_step\<^sup>*\<^sup>* (AtHead, u) (Entering 0, v)"
    "enter_process v = Ret () w" "pop32 w = Ret (trapret_addr w) y" "trapret y = Ret init_frame z"
    using first_process_reaches_user_mode [OF _ U(2) _ _ _ _ s(3) lay _ prog] U(1)
    by (auto simp: f V2P_def IF_on_def zero_process_def)
  then show ?thesis using s(1) by blast
qed

end
