(* ===== verification/Spec2Isabelle.thy ===== *)
theory Spec2Isabelle
  imports Tty Procinit
begin

text \<open>
  A verification library for a small 32-bit x86 teaching kernel (the C code under
  \<^verbatim>\<open>src/kernel\<close>).

  \<^bold>\<open>The program.\<close> \<^verbatim>\<open>main\<close> (\<^verbatim>\<open>kernel.c\<close>) brings the machine up step by step: console, segment
  table, memory map, interrupt table and controllers, timer, keyboard, page allocator, paging, ACPI,
  serial port, process table, first process, disk; then it enters the scheduler, which switches between
  itself and the processes. Interrupts and system calls come back through one table of routines.
  Everything prints through the console, which takes a lock; everything that needs memory takes frames
  from the page allocator.

  \<^bold>\<open>How code is modelled.\<close> A routine is a function from a machine state to an outcome
  (\<^verbatim>\<open>Prelude\<close>): \<open>Ret\<close> with a value and a new state, \<open>Panic\<close> with the message and the state in
  which the kernel stopped, \<open>Hang\<close> for a loop that never ends, \<open>Fault\<close> for an access the hardware or C
  does not define. The state is one chain of extensible records, each component adding its own
  variables: \<open>machine\<close> (memory, flags, page directory register, devices, log of port accesses),
  \<open>cpu_machine\<close>, \<open>console\<close>, \<open>kmem\<close>, \<open>irq\<close>, \<open>timer\<close>, \<open>kbd\<close>, \<open>acpi_state\<close>, \<open>pmem\<close>, \<open>ioapic_state\<close>,
  \<open>kvm\<close>, \<open>proc\<close>. Memory is a function from 32-bit addresses to bytes, so structures the code
  overlays on memory (free frames, page tables, kernel stacks, firmware tables, the screen) stay there and
  may alias. Machine integers are words of their width. A device answers each read with a function of
  the port and of all earlier accesses, and is otherwise arbitrary.

  \<^bold>\<open>Theories, in the order of the code they model.\<close>
  \<^item> \<open>Prelude\<close>, \<open>Mem\<close>: outcome monad, loops, little-endian words in memory, regions.
  \<^item> \<open>LibString\<close> (\<^verbatim>\<open>lib/string.c\<close>): the memory and string routines against list and region
    specifications; \<open>strlen\<close> returns exactly when there is a terminator; the overlapping branch of
    \<open>memmove\<close> is off by one.
  \<^item> \<open>LowLevel\<close>, \<open>Layout\<close>, \<open>Cpu\<close> (\<^verbatim>\<open>low_level.h\<close>, \<^verbatim>\<open>paging.h\<close>, \<^verbatim>\<open>pmem.h\<close>, \<^verbatim>\<open>cpu.c\<close>): port access,
    address arithmetic, per-processor data.
  \<^item> \<open>Spinlock\<close> (\<^verbatim>\<open>spinlock.c\<close>): outcome of every operation; the discipline that a held lock means
    interrupts are off, invariant under all sequences of operations; the interface \<open>mutex\<close>.
  \<^item> \<open>Console\<close>, \<open>Tty\<close>, \<open>Debug\<close> (\<^verbatim>\<open>drivers/screen.c\<close>, \<^verbatim>\<open>drivers/uart.c\<close>, \<^verbatim>\<open>lib/debug.h\<close>): \<open>cprintf\<close>
    sends exactly the formatted text, restores locks and interrupts and writes only the screen
    (\<open>cprintf_frame\<close>); printing on the screen implements a terminal; \<open>panic\<close> always reports.
  \<^item> \<open>Kalloc\<close> (\<^verbatim>\<open>kalloc.c\<close>): the free list in memory refines a list of frames; the interface
    \<open>frame_allocator\<close>.
  \<^item> \<open>Paging\<close>, \<open>Uvm\<close>, \<open>Kvm\<close> (\<^verbatim>\<open>paging.c\<close>): two-level tables in memory refine a map from pages to entries
    (\<open>vmem\<close>, \<open>translate\<close>); mapping, unmapping, freeing and loading on every branch; the kernel's
    own mappings.
  \<^item> \<open>Idt\<close>, \<open>Gdt\<close>, \<open>Pic\<close>, \<open>Timer\<close>, \<open>Kbdmapus\<close>, \<open>Kbd\<close>, \<open>Acpi\<close>, \<open>Pmem\<close>, \<open>Ioapic\<close>, \<open>Uart\<close>: descriptor
    tables and the device drivers, with the sequence of port writes each one makes.
  \<^item> \<open>Proc\<close> (\<^verbatim>\<open>proc.c\<close>, \<^verbatim>\<open>swtch.asm\<close>): process table, context switch with registers and stacks in
    memory, and the scheduler as the transition relation \<open>sched_step\<close> between places of control; the
    invariant \<open>sched_inv\<close> gives mutual exclusion, absence of panics and that an exited process stays
    a zombie.
  \<^item> \<open>Procinit\<close> (\<^verbatim>\<open>proc.c\<close>): \<open>process_alloc\<close> on every branch, and the composition of
    \<open>initproc_init\<close>, the scheduler and \<open>trapret\<close>: the first process reaches user mode with its program mapped.

  \<^bold>\<open>Interfaces.\<close> The locale \<open>mutex\<close> states what clients of the locks rely on and is
  interpreted by \<open>acquire\<close> and \<open>release\<close> (\<open>spin\<close>); \<open>frame_allocator\<close> states what clients of
  the page allocator rely on and is interpreted by \<open>kalloc\<close> and \<open>kfree\<close> (\<open>kheap\<close>).

  \<^bold>\<open>Bounds and fuel.\<close> Loops over memory carry a fuel argument larger than any run in a 32-bit
  address space: \<open>mappages\<close> visits at most 1048576 pages, \<open>deallocuvm\<close>, \<open>freerange\<close> and
  \<open>dump_freelist\<close> one more test than that, the search for the ACPI root pointer takes 16-byte steps,
  the parsers at least one byte per step. The theorems about them state that they return, so running
  out of fuel is excluded where the code ends and means \<open>Hang\<close> where it does not. \<open>strlen\<close>, which has no
  bound, is a partial function. Taking a lock that another holder never releases is \<open>Hang\<close>.

  \<^bold>\<open>Assumptions.\<close> One processor, as in the code (\<open>mycpu\<close> returns \<open>cpus[0]\<close>). Kernel code reads and
  writes memory at kernel addresses directly; what the page tables mean to the processor is the
  function \<open>translate\<close>. In the scheduler, everything that happens while a process runs is the relation
  \<open>user_step\<close>, which may change all memory except other processes' kernel stacks and the stack
  the scheduler is suspended on. Addresses the linker chooses are fields no operation changes.

  \<^bold>\<open>Not modelled.\<close> The boot loader and the assembly entry code run in real mode before the C code
  and leave its initial state. The interrupt entry stubs (\<^verbatim>\<open>isr.asm\<close>) save registers; only \<open>trapret\<close> is
  modelled. The dispatch in \<open>isr_handler\<close>, the system calls (\<^verbatim>\<open>syscall.c\<close>, \<^verbatim>\<open>sysproc.c\<close>, \<^verbatim>\<open>syshello.c\<close>),
  which read user memory through the current page tables, the IDE driver, \<open>cpu_init\<close> and the order of calls
  in \<^verbatim>\<open>main\<close> are not modelled. User programs are only bytes to load and steps of a process.
\<close>

end
